(* ===== verification/Prelude.thy ===== *)
theory Prelude
  imports Main "HOL-Library.Word"
begin

text \<open>
  The vocabulary shared by all components: the faults a C program can run into (as values
  of a sum type, so that no model hides one), arrays whose cells may be indeterminate, the
  C library's block move, and the string functions the sources call
  (\<open>strcspn\<close>, \<open>strncmp\<close>, \<open>strsep\<close>, \<open>snprintf\<close>'s truncation, \<open>tolower\<close>, \<open>isdigit\<close>).

  A C string is modelled by the list of its characters before the terminator; the character
  \<open>CHR 0x00\<close> does not occur in it. A raw byte buffer is a list of characters that may hold
  any byte. An object pointer is a value of a type parameter, \<open>NULL\<close> is \<open>None\<close>.
\<close>

unbundle bit_operations_syntax

named_theorems clib "defining equations of the C library functions"
named_theorems array_simps "lemmas on arrays with indeterminate cells"

section \<open>Faults and results\<close>

datatype fault =
    NullDeref         \<comment> \<open>a null pointer is dereferenced or passed where it may not be\<close>
  | OutOfBounds       \<comment> \<open>an access outside an object\<close>
  | Indeterminate     \<comment> \<open>an uninitialised value is used\<close>
  | DoubleFree        \<comment> \<open>an object is destroyed that was destroyed before\<close>
  | UseAfterFree      \<comment> \<open>an object is read after it was destroyed\<close>
  | DivideByZero
  | Endless           \<comment> \<open>a loop does not end\<close>

type_synonym 'a result = "fault + 'a"

definition bind_result :: "'a result \<Rightarrow> ('a \<Rightarrow> 'b result) \<Rightarrow> 'b result" where
  "bind_result r f = (case r of Inl e \<Rightarrow> Inl e | Inr x \<Rightarrow> f x)"

lemma bind_result_simps [simp]:
  "bind_result (Inl e) f = Inl e"
  "bind_result (Inr x) f = f x"
  by (simp_all add: bind_result_def)

lemma bind_result_eq_Inr:
  "bind_result r f = Inr y \<longleftrightarrow> (\<exists>x. r = Inr x \<and> f x = Inr y)"
  by (cases r) auto

lemma bind_result_assoc [simp]:
  "bind_result (bind_result r f) g = bind_result r (\<lambda>x. bind_result (f x) g)"
  by (cases r) simp_all

definition no_fault :: "'a result \<Rightarrow> bool" where
  "no_fault r = (case r of Inl _ \<Rightarrow> False | Inr _ \<Rightarrow> True)"

lemma no_fault_simps [simp]: "\<not> no_fault (Inl e)" "no_fault (Inr x)"
  by (simp_all add: no_fault_def)

lemma no_fault_iff: "no_fault r \<longleftrightarrow> (\<exists>x. r = Inr x)"
  by (cases r) auto

section \<open>Arrays\<close>

text \<open>
  An allocated array of \<open>n\<close> elements is a list of \<open>n\<close> cells; a cell that was never
  written is \<open>None\<close>. \<open>cells n xs\<close> reads the first \<open>n\<close> cells.
\<close>

type_synonym 'a array = "'a option list"

definition uninit :: "nat \<Rightarrow> 'a array" where
  "uninit n = replicate n None"

definition cells :: "nat \<Rightarrow> 'a array \<Rightarrow> 'a list" where
  "cells n xs = map the (take n xs)"

definition filled :: "nat \<Rightarrow> 'a array \<Rightarrow> bool" where
  "filled n xs \<longleftrightarrow> n \<le> length xs \<and> (\<forall>i<n. xs ! i \<noteq> None)"

text \<open>\<open>memmove (xs + dst) (xs + src) n\<close>, counted in elements of the array \<open>xs\<close>.\<close>

definition memmove :: "'a list \<Rightarrow> nat \<Rightarrow> nat \<Rightarrow> nat \<Rightarrow> 'a list" where
  "memmove xs dst src n = take dst xs @ take n (drop src xs) @ drop (dst + n) xs"

lemma length_uninit [array_simps, simp]: "length (uninit n) = n"
  by (simp add: uninit_def)

lemma length_cells [array_simps]: "filled n xs \<Longrightarrow> length (cells n xs) = n"
  by (simp add: cells_def filled_def)

lemma cells_0 [array_simps, simp]: "cells 0 xs = []"
  by (simp add: cells_def)

lemma filled_0 [array_simps, simp]: "filled 0 xs"
  by (simp add: filled_def)

lemma cells_nth [array_simps]: "filled n xs \<Longrightarrow> i < n \<Longrightarrow> cells n xs ! i = the (xs ! i)"
  by (simp add: cells_def filled_def)

lemma filled_Some: "filled n xs \<Longrightarrow> i < n \<Longrightarrow> xs ! i = Some (cells n xs ! i)"
  by (auto simp: cells_nth filled_def)

lemma cells_append [array_simps]: "n \<le> length xs \<Longrightarrow> cells n (xs @ ys) = cells n xs"
  by (simp add: cells_def)

lemma filled_append [array_simps]: "filled n xs \<Longrightarrow> filled n (xs @ ys)"
  by (auto simp: filled_def nth_append)

lemma filled_mono: "filled n xs \<Longrightarrow> m \<le> n \<Longrightarrow> filled m xs"
  by (auto simp: filled_def)

lemma filled_write [array_simps]:
  "filled n xs \<Longrightarrow> n < length xs \<Longrightarrow> filled (Suc n) (xs[n := Some x])"
  by (auto simp: filled_def nth_list_update less_Suc_eq)

lemma cells_write [array_simps]:
  "n < length xs \<Longrightarrow> cells (Suc n) (xs[n := Some x]) = cells n xs @ [x]"
  by (simp add: cells_def take_Suc_conv_app_nth)

lemma length_memmove [array_simps]:
  "dst + n \<le> length xs \<Longrightarrow> src + n \<le> length xs \<Longrightarrow> length (memmove xs dst src n) = length xs"
  by (simp add: memmove_def)

text \<open>Closing the gap at position \<open>i\<close> of the first \<open>n\<close> elements.\<close>

lemma take_memmove_gap:
  assumes "i < n" "n \<le> length xs"
  shows "take (n - Suc 0) (memmove xs i (Suc i) (n - Suc i)) = take i xs @ drop (Suc i) (take n xs)"
proof -
  have "take (n - Suc i) (drop (Suc i) xs) = drop (Suc i) (take n xs)"
    by (simp add: drop_take)
  moreover have "min (n - Suc 0) i = i" "n - Suc 0 - i = n - Suc i"
    using assms(1) by simp_all
  ultimately show ?thesis
    using assms by (simp add: memmove_def min_def)
qed

lemma cells_memmove_gap [array_simps]:
  "i < n \<Longrightarrow> n \<le> length xs \<Longrightarrow>
    cells (n - Suc 0) (memmove xs i (Suc i) (n - Suc i))
      = take i (cells n xs) @ drop (Suc i) (cells n xs)"
  by (simp add: cells_def take_memmove_gap take_map drop_map)

lemma filled_iff_set: "filled n xs \<longleftrightarrow> n \<le> length xs \<and> None \<notin> set (take n xs)"
  by (auto simp: filled_def in_set_conv_nth)

lemma filled_memmove_gap [array_simps]:
  assumes "filled n xs" "i < n"
  shows "filled (n - Suc 0) (memmove xs i (Suc i) (n - Suc i))"
proof -
  from assms have n: "n \<le> length xs" and none: "None \<notin> set (take n xs)"
    by (auto simp: filled_iff_set)
  have "take i xs = take i (take n xs)" using assms(2) by (simp add: min_def)
  with none have "None \<notin> set (take i xs)" by (metis in_set_takeD)
  moreover from none have "None \<notin> set (drop (Suc i) (take n xs))" by (meson in_set_dropD)
  ultimately show ?thesis
    using assms(2) n by (simp add: filled_iff_set take_memmove_gap length_memmove)
qed

section \<open>Characters and strings\<close>

abbreviation NUL :: char where "NUL \<equiv> CHR 0x00"
abbreviation CR :: char where "CR \<equiv> CHR 0x0D"
abbreviation LF :: char where "LF \<equiv> CHR 0x0A"
abbreviation CTCP :: char where "CTCP \<equiv> CHR 0x01"

abbreviation CRLF :: string where "CRLF \<equiv> [CR, LF]"

text \<open>What a buffer, terminated after its last byte, denotes as a C string.\<close>

definition cstr :: "char list \<Rightarrow> string" where
  [clib]: "cstr buf = takeWhile (\<lambda>c. c \<noteq> NUL) buf"

definition is_cstr :: "char list \<Rightarrow> bool" where
  "is_cstr s \<longleftrightarrow> NUL \<notin> set s"

definition strcspn :: "string \<Rightarrow> string \<Rightarrow> nat" where
  [clib]: "strcspn s reject = length (takeWhile (\<lambda>c. c \<notin> set reject) s)"

text \<open>\<open>strncmp (s, t, n) == 0\<close> on terminated strings.\<close>

definition strncmp_eq :: "string \<Rightarrow> string \<Rightarrow> nat \<Rightarrow> bool" where
  [clib]: "strncmp_eq s t n \<longleftrightarrow> take n s = take n t"

text \<open>\<open>strsep\<close>: the token before the first delimiter, and the rest after it (\<open>NULL\<close> at the end).\<close>

definition strsep :: "string \<Rightarrow> string \<Rightarrow> string \<times> string option" where
  [clib]: "strsep s delim =
     (takeWhile (\<lambda>c. c \<notin> set delim) s,
      case dropWhile (\<lambda>c. c \<notin> set delim) s of [] \<Rightarrow> None | _ # rest \<Rightarrow> Some rest)"

text \<open>\<open>snprintf\<close> into a buffer of \<open>n\<close> bytes keeps at most \<open>n - 1\<close> characters.\<close>

definition snprintf_fit :: "nat \<Rightarrow> string \<Rightarrow> string" where
  [clib]: "snprintf_fit n s = take (n - 1) s"

definition c_isdigit :: "char \<Rightarrow> bool" where
  [clib]: "c_isdigit c \<longleftrightarrow> 48 \<le> (of_char c :: nat) \<and> (of_char c :: nat) \<le> 57"

definition c_tolower :: "char \<Rightarrow> char" where
  [clib]: "c_tolower c =
     (if 65 \<le> (of_char c :: nat) \<and> (of_char c :: nat) \<le> 90
      then char_of ((of_char c :: nat) + 32) else c)"

definition c_toupper :: "char \<Rightarrow> char" where
  [clib]: "c_toupper c =
     (if 97 \<le> (of_char c :: nat) \<and> (of_char c :: nat) \<le> 122
      then char_of ((of_char c :: nat) - 32) else c)"

lemma is_cstr_cstr [simp]: "is_cstr (cstr s)"
  by (auto simp: is_cstr_def cstr_def dest: set_takeWhileD)

lemma cstr_id [simp]: "is_cstr s \<Longrightarrow> cstr s = s"
  by (auto simp: is_cstr_def cstr_def takeWhile_eq_all_conv)

lemma is_cstr_simps [simp]:
  "is_cstr []"
  "is_cstr (c # s) \<longleftrightarrow> c \<noteq> NUL \<and> is_cstr s"
  "is_cstr (s @ t) \<longleftrightarrow> is_cstr s \<and> is_cstr t"
  by (auto simp: is_cstr_def)

lemma is_cstr_take: "is_cstr s \<Longrightarrow> is_cstr (take n s)"
  by (auto simp: is_cstr_def dest: in_set_takeD)

lemma is_cstr_drop: "is_cstr s \<Longrightarrow> is_cstr (drop n s)"
  by (auto simp: is_cstr_def dest: in_set_dropD)

lemma take_strcspn: "take (strcspn s r) s = takeWhile (\<lambda>c. c \<notin> set r) s"
  by (simp add: strcspn_def takeWhile_eq_take [symmetric])

lemma strcspn_le [simp]: "strcspn s r \<le> length s"
  by (simp add: strcspn_def length_takeWhile_le)

lemma strsep_rest_length:
  "snd (strsep s delim) = Some rest \<Longrightarrow> length rest < length s"
proof -
  assume "snd (strsep s delim) = Some rest"
  then obtain c where "dropWhile (\<lambda>c. c \<notin> set delim) s = c # rest"
    by (auto simp: strsep_def split: list.splits)
  then have "length (c # rest) \<le> length s"
    by (metis length_dropWhile_le)
  then show ?thesis by simp
qed

lemma strsep_pair_length:
  "strsep s delim = (word, Some rest) \<Longrightarrow> length rest < length s"
  "(word, Some rest) = strsep s delim \<Longrightarrow> length rest < length s"
  using strsep_rest_length [of s delim rest] by (auto dest: arg_cong [where f = snd])

text \<open>All fields of a string, empty ones included: what repeated \<open>strsep\<close> calls return.\<close>

fun split_fields :: "string \<Rightarrow> string \<Rightarrow> string list" where
  "split_fields delim [] = [[]]"
| "split_fields delim (c # s) =
     (if c \<in> set delim then [] # split_fields delim s
      else case split_fields delim s of [] \<Rightarrow> [[c]] | f # fs \<Rightarrow> (c # f) # fs)"

lemma split_fields_nonempty [simp]: "split_fields delim s \<noteq> []"
  by (cases s) (auto split: list.splits)

lemma split_fields_strsep:
  "split_fields delim s = fst (strsep s delim) #
     (case snd (strsep s delim) of None \<Rightarrow> [] | Some rest \<Rightarrow> split_fields delim rest)"
  by (induction s) (auto simp: strsep_def split: list.splits)

lemma split_fields_no_delim: "w \<in> set (split_fields delim s) \<Longrightarrow> set w \<inter> set delim = {}"
  by (induction s arbitrary: w) (fastforce split: if_splits list.splits)+

lemma split_fields_chars: "w \<in> set (split_fields delim s) \<Longrightarrow> set w \<subseteq> set s"
proof (induction s arbitrary: w)
  case (Cons c s)
  show ?case
  proof (cases "split_fields delim s")
    case (Cons f fs)
    with Cons.IH Cons.prems show ?thesis by (fastforce split: if_splits)
  qed simp
qed simp

text \<open>Deleting the first occurrence by position.\<close>

lemma gap_remove1:
  assumes "i < length xs" "xs ! i = x" "\<forall>j<i. xs ! j \<noteq> x"
  shows "take i xs @ drop (Suc i) xs = remove1 x xs"
proof -
  have "x \<notin> set (take i xs)" using assms by (auto simp: in_set_conv_nth)
  moreover have "xs = take i xs @ x # drop (Suc i) xs"
    using assms id_take_nth_drop by blast
  ultimately show ?thesis by (metis append_Nil2 remove1.simps(2) remove1_append)
qed

end
