(* ===== verification/Util.thy ===== *)
theory Util
  imports Prelude
begin

text \<open>
  \<open>src/lib/ircbot/util.c\<close> and \<open>util.h\<close>: copying, lowercasing and joining strings, the
  string hash and its table size, and the growing character buffer. Allocation
  (\<open>IB_xmalloc\<close>, \<open>IB_xrealloc\<close>, in theory \<open>Panic\<close>) either succeeds or does not return, so here an
  allocation is an array of indeterminate cells.
\<close>

section \<open>Copying, lowercasing\<close>

definition IB_copystr :: "string option \<Rightarrow> string option" where
  "IB_copystr src = (case src of None \<Rightarrow> None | Some s \<Rightarrow> Some s)"

fun lower_loop :: "string \<Rightarrow> string" where
  "lower_loop [] = []"
| "lower_loop (c # p) = c_tolower c # lower_loop p"

definition IB_lowerstr :: "string option \<Rightarrow> string option" where
  "IB_lowerstr src = (case IB_copystr src of None \<Rightarrow> None | Some p \<Rightarrow> Some (lower_loop p))"

lemma IB_copystr_id [simp]: "IB_copystr s = s"
  by (simp add: IB_copystr_def split: option.split)

lemma lower_loop_map: "lower_loop s = map c_tolower s"
  by (induction s) simp_all

lemma c_tolower_idem [simp]: "c_tolower (c_tolower c) = c_tolower c"
  by (auto simp: c_tolower_def)

section \<open>Joining\<close>

text \<open>\<open>strcpy (buf + pos, s)\<close> into an allocated buffer: the string and its terminator.\<close>

definition strcpy_at :: "char array \<Rightarrow> nat \<Rightarrow> string \<Rightarrow> char array result" where
  "strcpy_at buf pos s =
     (if pos + length s + 1 \<le> length buf
      then Inr (take pos buf @ map Some s @ [Some NUL] @ drop (pos + length s + 1) buf)
      else Inl OutOfBounds)"

text \<open>The counting loop: the number of strings and their total length.\<close>

fun join_count :: "nat \<Rightarrow> nat \<Rightarrow> string list \<Rightarrow> nat \<times> nat" where
  "join_count n rlen [] = (n, rlen)"
| "join_count n rlen (s # cur) = join_count (Suc n) (rlen + length s) cur"

text \<open>The copying loop: the delimiter, then the next string, at the write position \<open>w\<close>.\<close>

fun join_copy :: "string \<Rightarrow> char array \<Rightarrow> nat \<Rightarrow> string list \<Rightarrow> char array result" where
  "join_copy delim joined w [] = Inr joined"
| "join_copy delim joined w (s # cur) =
     bind_result (strcpy_at joined w delim) (\<lambda>joined.
       bind_result (strcpy_at joined (w + length delim) s) (\<lambda>joined.
         join_copy delim joined (w + length delim + length s) cur))"

definition IB_joinstr :: "string \<Rightarrow> string list \<Rightarrow> char array option result" where
  "IB_joinstr delim strings =
     (let (n, rlen) = join_count 0 0 strings in
      case strings of [] \<Rightarrow> Inr None
      | s # cur \<Rightarrow>
         let rlen' = (if n > 1 then rlen + (n - 1) * length delim else rlen) in
         bind_result (strcpy_at (uninit (rlen' + 1)) 0 s) (\<lambda>joined.
           bind_result (join_copy delim joined (length s) cur) (\<lambda>joined. Inr (Some joined))))"

text \<open>The specification: the strings with the delimiter between neighbours.\<close>

fun joined_with :: "string \<Rightarrow> string list \<Rightarrow> string" where
  "joined_with d [] = []"
| "joined_with d [s] = s"
| "joined_with d (s # t # ss) = s @ d @ joined_with d (t # ss)"

definition tail_with :: "string \<Rightarrow> string list \<Rightarrow> string" where
  "tail_with d ss = concat (map (\<lambda>s. d @ s) ss)"

lemma tail_with_Nil [simp]: "tail_with d [] = []"
  by (simp add: tail_with_def)

lemma joined_with_Cons: "joined_with d (s # ss) = s @ tail_with d ss"
  by (induction ss arbitrary: s) (simp_all add: tail_with_def)

lemma length_tail_with:
  "length (tail_with d ss) = length (concat ss) + length ss * length d"
  by (induction ss) (simp_all add: tail_with_def)

lemma join_count_eq: "join_count n rlen ss = (n + length ss, rlen + length (concat ss))"
  by (induction ss arbitrary: n rlen) simp_all

text \<open>
  A string written over the terminator of what stands before it, with enough indeterminate
  cells behind.
\<close>

lemma strcpy_at_over_NUL:
  assumes "length s \<le> k"
  shows "strcpy_at (map Some (p @ [NUL]) @ uninit k) (length p) s
    = Inr (map Some (p @ s @ [NUL]) @ uninit (k - length s))"
proof -
  have "drop (length s + 1) (Some NUL # uninit k) = uninit (k - length s)"
    by (simp add: uninit_def)
  with assms show ?thesis by (simp add: strcpy_at_def)
qed

lemma join_copy_fills:
  assumes "length (tail_with d ss) \<le> k"
  shows "join_copy d (map Some (p @ [NUL]) @ uninit k) (length p) ss
    = Inr (map Some (p @ tail_with d ss @ [NUL]) @ uninit (k - length (tail_with d ss)))"
  using assms
proof (induction ss arbitrary: p k)
  case Nil
  then show ?case by (simp add: tail_with_def)
next
  case (Cons s ss)
  then have k: "length d \<le> k" "length s \<le> k - length d"
      "length (tail_with d ss) \<le> k - length d - length s"
    by (simp_all add: tail_with_def)
  have "strcpy_at (map Some (p @ [NUL]) @ uninit k) (length p) d
      = Inr (map Some ((p @ d) @ [NUL]) @ uninit (k - length d))"
    using strcpy_at_over_NUL [OF k(1), of p] by simp
  moreover have "strcpy_at (map Some ((p @ d) @ [NUL]) @ uninit (k - length d))
        (length p + length d) s
      = Inr (map Some ((p @ d @ s) @ [NUL]) @ uninit (k - length d - length s))"
    using strcpy_at_over_NUL [OF k(2), of "p @ d"] by simp
  moreover note Cons.IH [OF k(3), of "p @ d @ s"]
  ultimately show ?case
    by (simp add: tail_with_def add.assoc)
qed

text \<open>
  Joining never writes outside the buffer it allocated, fills it completely (the
  terminator is its last byte) and yields the strings with the delimiter between
  neighbours; no buffer is allocated for an empty array.
\<close>

theorem IB_joinstr_correct:
  "IB_joinstr delim strings =
     Inr (if strings = [] then None
          else Some (map Some (joined_with delim strings @ [NUL])))"
proof (cases strings)
  case Nil
  then show ?thesis by (simp add: IB_joinstr_def)
next
  case (Cons s cur)
  let ?k = "length (tail_with delim cur)"
  have start: "strcpy_at (uninit (length s + ?k + 1)) 0 s = Inr (map Some (s @ [NUL]) @ uninit ?k)"
    by (simp add: strcpy_at_def uninit_def)
  have "join_copy delim (map Some (s @ [NUL]) @ uninit ?k) (length s) cur
      = Inr (map Some (s @ tail_with delim cur @ [NUL]))"
    using join_copy_fills [of delim cur ?k s] by (simp add: uninit_def)
  with start Cons show ?thesis
    by (auto simp: IB_joinstr_def join_count_eq joined_with_Cons length_tail_with add.assoc)
qed

section \<open>The string hash\<close>

fun hash_loop :: "64 word \<Rightarrow> string \<Rightarrow> 64 word" where
  "hash_loop h [] = h"
| "hash_loop h (c # key) = hash_loop (h + (push_bit 5 h + of_char c)) key"

definition hashstr :: "string \<Rightarrow> 8 word \<Rightarrow> 8 word" where
  "hashstr key msk = ucast (hash_loop 5381 key AND ucast msk)"

definition HT_MASK :: "8 word \<Rightarrow> 32 word" where
  "HT_MASK bits = (push_bit (unat bits) 1 - 1) AND 0xff"

definition HT_SIZE :: "8 word \<Rightarrow> 32 word" where
  "HT_SIZE bits = HT_MASK bits + 1"

lemma hashstr_masked: "hashstr key msk AND msk = hashstr key msk"
  by (simp add: hashstr_def bit_eq_iff bit_simps)

lemma hashstr_le: "unat (hashstr key msk) \<le> unat msk"
  by (metis hashstr_masked word_and_le1 word_le_nat_alt)

text \<open>The table size for every legal shift count (a shift by 32 or more is undefined in C).\<close>

definition ht_size :: "8 word \<Rightarrow> nat" where
  "ht_size bits = unat (HT_SIZE bits)"

lemma ht_size_upto_8:
  assumes "unat bits \<le> 8"
  shows "ht_size bits = 2 ^ unat bits"
proof -
  have "unat bits \<in> {0,1,2,3,4,5,6,7,8}" using assms by auto
  then show ?thesis by (auto simp: ht_size_def HT_SIZE_def HT_MASK_def)
qed

section \<open>The growing buffer\<close>

record growbuf =
  gb_str :: "char array"
  gb_size :: nat
  gb_pos :: nat

definition appendchr :: "growbuf \<Rightarrow> nat \<Rightarrow> char \<Rightarrow> growbuf result" where
  "appendchr b chunksz c =
     (let b = (if gb_pos b \<ge> gb_size b
               then b\<lparr>gb_size := gb_size b + chunksz, gb_str := gb_str b @ uninit chunksz\<rparr>
               else b)
      in if gb_pos b < gb_size b
         then Inr (b\<lparr>gb_str := (gb_str b)[gb_pos b := Some c], gb_pos := gb_pos b + 1\<rparr>)
         else Inl OutOfBounds)"

text \<open>The macro \<open>appendstrlit\<close>: one call of \<open>appendchr\<close> per character of the literal.\<close>

fun appendstrlit :: "growbuf \<Rightarrow> nat \<Rightarrow> string \<Rightarrow> growbuf result" where
  "appendstrlit b chunksz [] = Inr b"
| "appendstrlit b chunksz (c # lit) =
     bind_result (appendchr b chunksz c) (\<lambda>b. appendstrlit b chunksz lit)"

definition growbuf_ok :: "growbuf \<Rightarrow> bool" where
  "growbuf_ok b \<longleftrightarrow> length (gb_str b) = gb_size b \<and> gb_pos b \<le> gb_size b \<and> filled (gb_pos b) (gb_str b)"

definition growbuf_text :: "growbuf \<Rightarrow> string" where
  "growbuf_text b = cells (gb_pos b) (gb_str b)"

lemma appendchr_ok:
  assumes "growbuf_ok b" "0 < chunksz"
  shows "\<exists>b'. appendchr b chunksz c = Inr b' \<and> growbuf_ok b' \<and> growbuf_text b' = growbuf_text b @ [c]"
  using assms
  by (auto simp: appendchr_def Let_def growbuf_ok_def growbuf_text_def array_simps)

text \<open>
  Appending a literal to a well-formed growing buffer with a positive chunk size never
  writes outside the buffer, keeps it well-formed and appends exactly the literal.
\<close>

theorem appendstrlit_correct:
  assumes "growbuf_ok b" "0 < chunksz"
  shows "\<exists>b'. appendstrlit b chunksz lit = Inr b' \<and> growbuf_ok b' \<and>
    growbuf_text b' = growbuf_text b @ lit"
  using assms
proof (induction lit arbitrary: b)
  case Nil
  then show ?case by simp
next
  case (Cons c lit)
  then obtain b1 where b1: "appendchr b chunksz c = Inr b1" "growbuf_ok b1"
      "growbuf_text b1 = growbuf_text b @ [c]"
    using appendchr_ok by blast
  from Cons.IH [OF b1(2) Cons.prems(2)] b1 show ?case by auto
qed

theorem appendstrlit_correct_witness:
  "\<exists>b. appendstrlit \<lparr>gb_str = [], gb_size = 0, gb_pos = 0\<rparr> 4 ''literal'' = Inr b \<and> growbuf_text b = ''literal''"
  using appendstrlit_correct [of "\<lparr>gb_str = [], gb_size = 0, gb_pos = 0\<rparr>" 4 "''literal''"]
  by (auto simp: growbuf_ok_def growbuf_text_def)

end
