(* ===== verification/Cursor.thy ===== *)
theory Cursor
  imports Prelude
begin

text \<open>
  The iterator contract shared by \<open>IBListIterator\<close> and \<open>IBHashTableIterator\<close>
  (\<open>include/ircbot/list.h\<close>, \<open>include/ircbot/hashtable.h\<close>): a snapshot of the elements and a
  position, where any position at or past the number of elements is the invalid one. The
  client side of the contract is the loop \<open>while (moveNext (i)) { body (current (i)) }\<close>, with
  \<open>break\<close> as the left result of the body.
\<close>

section \<open>The client's loop\<close>

partial_function (option) foreach ::
    "('it \<Rightarrow> bool \<times> 'it) \<Rightarrow> ('it \<Rightarrow> 'x option) \<Rightarrow> ('x option \<Rightarrow> 's \<Rightarrow> 's + 's) \<Rightarrow> 'it \<Rightarrow> 's \<Rightarrow> 's option" where
  "foreach move current body it s =
     (case move it of (more, it') \<Rightarrow>
        if more then (case body (current it') s of
                        Inl s' \<Rightarrow> Some s'
                      | Inr s' \<Rightarrow> foreach move current body it' s')
        else Some s)"

text \<open>What that loop means over the list of elements.\<close>

fun fold_break :: "('x option \<Rightarrow> 's \<Rightarrow> 's + 's) \<Rightarrow> 'x list \<Rightarrow> 's \<Rightarrow> 's" where
  "fold_break body [] s = s"
| "fold_break body (x # xs) s =
     (case body (Some x) s of Inl s' \<Rightarrow> s' | Inr s' \<Rightarrow> fold_break body xs s')"

text \<open>What its body keeps, the loop keeps.\<close>

lemma foreach_keeps:
  assumes "foreach move current body it s = Some t" "I s"
    and body: "\<And>cur x y. I x \<Longrightarrow> body cur x = Inl y \<or> body cur x = Inr y \<Longrightarrow> I y"
  shows "I t"
proof -
  let ?P = "\<lambda>move current b it s t. b = body \<longrightarrow> I s \<longrightarrow> I t"
  have "?P move current body it s t"
  proof (rule foreach.raw_induct [where P = ?P, OF _ assms(1)], intro impI)
    fix loop move current b it s t
    assume ih: "\<And>mv cu bo i x y. loop mv cu bo i x = Some y \<Longrightarrow> bo = body \<longrightarrow> I x \<longrightarrow> I y"
      and run: "(case move it of (more, it') \<Rightarrow>
        if more then (case b (current it') s of Inl s' \<Rightarrow> Some s' | Inr s' \<Rightarrow> loop move current b it' s') else Some s) = Some t"
      and b: "b = body" and s: "I s"
    obtain m it' where m: "move it = (m, it')" by fastforce
    show "I t"
    proof (cases "body (current it') s")
      case (Inl x)
      with run m b s body show ?thesis by (auto split: if_splits)
    next
      case (Inr x)
      moreover from this have "I x" using s body by blast
      ultimately show ?thesis using run m b s ih [of move current b it' x t] by (auto split: if_splits)
    qed
  qed
  with assms(2) show ?thesis by simp
qed

section \<open>The contract\<close>

locale cursor =
  fixes move :: "'it \<Rightarrow> bool \<times> 'it"
    and current :: "'it \<Rightarrow> 'x option"
    and position :: "'it \<Rightarrow> nat"
    and elements :: "'it \<Rightarrow> 'x list"
    and valid :: "'it \<Rightarrow> bool"
  assumes move_valid: "valid it \<Longrightarrow> valid (snd (move it))"
    and move_elements: "valid it \<Longrightarrow> elements (snd (move it)) = elements it"
    and move_position: "valid it \<Longrightarrow> position (snd (move it)) =
        (if length (elements it) \<le> position it then 0 else Suc (position it))"
    and move_result: "valid it \<Longrightarrow>
        fst (move it) \<longleftrightarrow> position (snd (move it)) < length (elements it)"
    and current_element: "valid it \<Longrightarrow> current it =
        (if position it < length (elements it) then Some (elements it ! position it) else None)"
begin

lemmas move_laws = move_valid move_elements move_position move_result

text \<open>From a valid position, the loop runs over the elements behind that position.\<close>

lemma foreach_behind:
  assumes "valid it" "position it < length (elements it)"
  shows "foreach move current body it s = Some (fold_break body (drop (Suc (position it)) (elements it)) s)"
  using assms
proof (induction "length (elements it) - position it" arbitrary: it s rule: less_induct)
  case less
  let ?it = "snd (move it)" and ?n = "length (elements it)"
  note v = less.prems(1)
  have pos: "position ?it = Suc (position it)" and els: "elements ?it = elements it"
    using less.prems by (simp_all add: move_laws [OF v])
  show ?case
  proof (cases "Suc (position it) < ?n")
    case False
    then have "fst (move it) = False" using pos by (simp add: move_result [OF v])
    with False less.prems(2) show ?thesis
      by (simp add: foreach.simps [of move current body it s] split_beta)
  next
    case True
    then have more: "fst (move it)" using pos by (simp add: move_result [OF v])
    have cur: "current ?it = Some (elements it ! Suc (position it))"
      using True pos els by (simp add: current_element [OF move_valid [OF v]])
    have step: "drop (Suc (position it)) (elements it)
        = elements it ! Suc (position it) # drop (Suc (Suc (position it))) (elements it)"
      using True by (simp add: Cons_nth_drop_Suc)
    have "foreach move current body ?it s' =
        Some (fold_break body (drop (Suc (Suc (position it))) (elements it)) s')" for s'
      using less.hyps [OF _ move_valid [OF v], of s'] less.prems(2) True pos els by simp
    with more cur step show ?thesis
      by (simp add: foreach.simps [of move current body it s] split_beta split: sum.split)
  qed
qed

text \<open>From the invalid position, which is where an iterator starts, it runs over all of them.\<close>

lemma foreach_all:
  assumes "valid it" "length (elements it) \<le> position it"
  shows "foreach move current body it s = Some (fold_break body (elements it) s)"
proof -
  let ?it = "snd (move it)"
  note v = assms(1)
  have pos: "position ?it = 0" and els: "elements ?it = elements it"
    using assms(2) by (simp_all add: move_laws [OF v])
  show ?thesis
  proof (cases "elements it")
    case Nil
    then have "\<not> fst (move it)" using pos by (simp add: move_result [OF v])
    with Nil show ?thesis by (simp add: foreach.simps [of move current body it s] split_beta)
  next
    case (Cons x xs)
    then have more: "fst (move it)" using pos by (simp add: move_result [OF v])
    have cur: "current ?it = Some x"
      using Cons pos els by (simp add: current_element [OF move_valid [OF v]])
    have "foreach move current body ?it s' = Some (fold_break body xs s')" for s'
      using foreach_behind [OF move_valid [OF v], of body s'] pos els Cons by simp
    with more cur Cons show ?thesis
      by (simp add: foreach.simps [of move current body it s] split_beta split: sum.split)
  qed
qed

end

text \<open>A loop body that only collects visits every element once, in order.\<close>

definition collect :: "'x option \<Rightarrow> 'x list \<Rightarrow> 'x list + 'x list" where
  "collect cur acc = Inr (acc @ [the cur])"

lemma fold_break_collect: "fold_break collect xs acc = acc @ xs"
  by (induction xs arbitrary: acc) (simp_all add: collect_def)

text \<open>A loop body that stops at the first element with a property.\<close>

definition search :: "('x \<Rightarrow> bool) \<Rightarrow> 'x option \<Rightarrow> 'x option \<Rightarrow> 'x option + 'x option" where
  "search P cur found = (if P (the cur) then Inl cur else Inr found)"

lemma fold_break_search: "fold_break (search P) xs None = find P xs"
  by (induction xs) (simp_all add: search_def)

end
