(* ===== verification/ObjList.thy ===== *)
theory ObjList
  imports Util Cursor
begin

text \<open>
  \<open>src/lib/ircbot/list.c\<close>: the growing array of objects with optional deleters, its
  snapshot iterator and the splitting of a string into a list. An operation that runs
  deleters returns the calls it makes, in order, beside the new list.
\<close>

section \<open>State\<close>

record ('o, 'd) IBListItem =
  li_obj :: 'o
  li_deleter :: "'d option"

record ('o, 'd) IBList =
  l_items :: "('o, 'd) IBListItem array"
  l_capa :: nat
  l_count :: nat

record ('o, 'd) IBListIterator =
  it_count :: nat
  it_pos :: nat
  it_items :: "('o, 'd) IBListItem array"

text \<open>The call \<open>if (deleter) deleter (obj)\<close>.\<close>

definition call_deleter :: "'d option \<Rightarrow> 'o \<Rightarrow> ('d \<times> 'o) list" where
  "call_deleter d obj = (case d of None \<Rightarrow> [] | Some f \<Rightarrow> [(f, obj)])"

section \<open>Operations\<close>

abbreviation INITIALCAPA :: nat where "INITIALCAPA \<equiv> 8"

definition IBList_create :: "('o, 'd) IBList" where
  "IBList_create = \<lparr>l_items = uninit INITIALCAPA, l_capa = INITIALCAPA, l_count = 0\<rparr>"

definition IBList_size :: "('o, 'd) IBList \<Rightarrow> nat" where
  "IBList_size self = l_count self"

definition IBList_at :: "('o, 'd) IBList \<Rightarrow> nat \<Rightarrow> 'o option" where
  "IBList_at self idx =
     (if idx \<ge> l_count self then None else Some (li_obj (the (l_items self ! idx))))"

definition IBList_append :: "('o, 'd) IBList \<Rightarrow> 'o \<Rightarrow> 'd option \<Rightarrow> ('o, 'd) IBList" where
  "IBList_append self obj deleter =
     (let self = (if l_count self = l_capa self
                  then self\<lparr>l_capa := l_capa self * 2, l_items := l_items self @ uninit (l_capa self)\<rparr>
                  else self)
      in self\<lparr>l_items := (l_items self)[l_count self := Some \<lparr>li_obj = obj, li_deleter = deleter\<rparr>],
              l_count := l_count self + 1\<rparr>)"

definition removeAt :: "('o, 'd) IBList \<Rightarrow> nat \<Rightarrow> bool \<Rightarrow> ('d \<times> 'o) list \<times> ('o, 'd) IBList" where
  "removeAt self i delete =
     (let item = the (l_items self ! i);
          calls = (if delete then call_deleter (li_deleter item) (li_obj item) else []);
          items = (if i < l_count self - 1
                   then memmove (l_items self) i (i + 1) (l_count self - i - 1)
                   else l_items self)
      in (calls, self\<lparr>l_items := items, l_count := l_count self - 1\<rparr>))"

text \<open>The search loop of \<open>IBList_remove\<close> from position \<open>i\<close>.\<close>

function remove_loop :: "'o \<Rightarrow> nat \<Rightarrow> ('o, 'd) IBList \<Rightarrow> ('o, 'd) IBList" where
  "remove_loop obj i self =
     (if i < l_count self
      then (if li_obj (the (l_items self ! i)) = obj then snd (removeAt self i False)
            else remove_loop obj (i + 1) self)
      else self)"
  by pat_completeness auto
termination
  by (relation "measure (\<lambda>(obj, i, self). l_count self - i)") auto

declare remove_loop.simps [simp del]

definition IBList_remove :: "('o, 'd) IBList \<Rightarrow> 'o \<Rightarrow> ('o, 'd) IBList" where
  "IBList_remove self obj = remove_loop obj 0 self"

text \<open>
  The loop of \<open>IBList_removeAll\<close> from position \<open>i\<close>. After a removal the code decrements \<open>i\<close>
  and the loop increments it again, modulo the width of \<open>size_t\<close>, so the next round is at
  the same position.
\<close>

function removeAll_loop :: "('o \<Rightarrow> bool) \<Rightarrow> nat \<Rightarrow> ('o, 'd) IBList \<Rightarrow> ('d \<times> 'o) list \<times> ('o, 'd) IBList" where
  "removeAll_loop matcher i self =
     (if i < l_count self
      then (if matcher (li_obj (the (l_items self ! i)))
            then (case removeAt self i True of (calls, self) \<Rightarrow>
                    case removeAll_loop matcher i self of (calls', self) \<Rightarrow> (calls @ calls', self))
            else removeAll_loop matcher (i + 1) self)
      else ([], self))"
  by pat_completeness auto
termination
  by (relation "measure (\<lambda>(m, i, self). l_count self - i)") (auto simp: removeAt_def Let_def)

declare removeAll_loop.simps [simp del]

definition IBList_removeAll :: "('o, 'd) IBList \<Rightarrow> ('o \<Rightarrow> bool) \<Rightarrow> ('d \<times> 'o) list \<times> ('o, 'd) IBList" where
  "IBList_removeAll self matcher = removeAll_loop matcher 0 self"

definition IBList_iterator :: "('o, 'd) IBList \<Rightarrow> ('o, 'd) IBListIterator" where
  "IBList_iterator self =
     \<lparr>it_count = l_count self, it_pos = l_count self, it_items = take (l_count self) (l_items self)\<rparr>"

definition IBListIterator_moveNext :: "('o, 'd) IBListIterator \<Rightarrow> bool \<times> ('o, 'd) IBListIterator" where
  "IBListIterator_moveNext self =
     (let self = (if it_pos self \<ge> it_count self then self\<lparr>it_pos := 0\<rparr>
                  else self\<lparr>it_pos := it_pos self + 1\<rparr>)
      in (it_pos self < it_count self, self))"

definition IBListIterator_current :: "('o, 'd) IBListIterator \<Rightarrow> 'o option" where
  "IBListIterator_current self =
     (if it_pos self \<ge> it_count self then None
      else Some (li_obj (the (it_items self ! it_pos self))))"

text \<open>The destructor's loop: every attached deleter, in order; a null list is ignored.\<close>

fun destroy_items :: "('o, 'd) IBListItem list \<Rightarrow> ('d \<times> 'o) list" where
  "destroy_items [] = []"
| "destroy_items (item # items) = call_deleter (li_deleter item) (li_obj item) @ destroy_items items"

definition IBList_destroy :: "('o, 'd) IBList option \<Rightarrow> ('d \<times> 'o) list" where
  "IBList_destroy self =
     (case self of None \<Rightarrow> [] | Some l \<Rightarrow> destroy_items (cells (l_count l) (l_items l)))"

section \<open>Splitting a string\<close>

text \<open>
  The loop \<open>while ((word = strsep (&bufp, delim)))\<close>: \<open>list\<close> is null until the first
  non-empty word, and a null \<open>bufp\<close> ends the loop.
\<close>

function fromString_loop :: "'d \<Rightarrow> string \<Rightarrow> (string, 'd) IBList option \<Rightarrow> string option
    \<Rightarrow> (string, 'd) IBList option" where
  "fromString_loop free delim list None = list"
| "fromString_loop free delim list (Some bufp) =
     (case strsep bufp delim of (word, bufp') \<Rightarrow>
        fromString_loop free delim
          (if word = [] then list
           else Some (IBList_append (case list of None \<Rightarrow> IBList_create | Some l \<Rightarrow> l)
                        (the (IB_copystr (Some word))) (Some free)))
          bufp')"
  by pat_completeness auto
termination
  by (relation "measure (\<lambda>(f, d, l, bufp). case bufp of None \<Rightarrow> 0 | Some s \<Rightarrow> Suc (length s))")
    (auto split: option.splits dest: strsep_pair_length)

definition IBList_fromString :: "'d \<Rightarrow> string \<Rightarrow> string \<Rightarrow> (string, 'd) IBList option" where
  "IBList_fromString free str delim = fromString_loop free delim None (IB_copystr (Some str))"

section \<open>Well-formedness and abstraction\<close>

definition IBList_ok :: "('o, 'd) IBList \<Rightarrow> bool" where
  "IBList_ok l \<longleftrightarrow> length (l_items l) = l_capa l \<and> 0 < l_capa l \<and> l_count l \<le> l_capa l
     \<and> filled (l_count l) (l_items l)"

definition items_of :: "('o, 'd) IBList \<Rightarrow> ('o, 'd) IBListItem list" where
  "items_of l = cells (l_count l) (l_items l)"

definition objs :: "('o, 'd) IBList \<Rightarrow> 'o list" where
  "objs l = map li_obj (items_of l)"

lemma IBList_ok_create [simp]: "IBList_ok IBList_create"
  by (simp add: IBList_ok_def IBList_create_def)

lemma items_of_create [simp]: "items_of IBList_create = []"
  by (simp add: items_of_def IBList_create_def)

lemma objs_create [simp]: "objs IBList_create = []"
  by (simp add: objs_def)

lemma length_items_of: "IBList_ok l \<Longrightarrow> length (items_of l) = l_count l"
  by (simp add: IBList_ok_def items_of_def length_cells)

lemma length_objs: "IBList_ok l \<Longrightarrow> length (objs l) = l_count l"
  by (simp add: objs_def length_items_of)

lemma IBList_size_objs: "IBList_ok l \<Longrightarrow> IBList_size l = length (objs l)"
  by (simp add: IBList_size_def length_objs)

lemma item_at: "IBList_ok l \<Longrightarrow> i < l_count l \<Longrightarrow> the (l_items l ! i) = items_of l ! i"
  by (simp add: items_of_def IBList_ok_def cells_nth)

lemma IBList_at_objs:
  "IBList_ok l \<Longrightarrow> IBList_at l i = (if i < length (objs l) then Some (objs l ! i) else None)"
  by (auto simp: IBList_at_def length_objs objs_def item_at length_items_of)

lemma IBList_append_ok: "IBList_ok l \<Longrightarrow> IBList_ok (IBList_append l obj d)"
  by (auto simp: IBList_ok_def IBList_append_def Let_def array_simps)

lemma items_of_append:
  "IBList_ok l \<Longrightarrow> items_of (IBList_append l obj d) = items_of l @ [\<lparr>li_obj = obj, li_deleter = d\<rparr>]"
  by (auto simp: IBList_ok_def IBList_append_def items_of_def Let_def array_simps)

lemma objs_append: "IBList_ok l \<Longrightarrow> objs (IBList_append l obj d) = objs l @ [obj]"
  by (simp add: objs_def items_of_append)

lemma removeAt_correct:
  assumes "IBList_ok l" "i < l_count l"
  shows "IBList_ok (snd (removeAt l i del))"
    and "items_of (snd (removeAt l i del)) = take i (items_of l) @ drop (Suc i) (items_of l)"
    and "fst (removeAt l i del)
      = (if del then call_deleter (li_deleter (items_of l ! i)) (li_obj (items_of l ! i)) else [])"
proof -
  note item = item_at [OF assms]
  show "fst (removeAt l i del)
      = (if del then call_deleter (li_deleter (items_of l ! i)) (li_obj (items_of l ! i)) else [])"
    by (simp add: removeAt_def Let_def item)
  have last: "items_of (snd (removeAt l i del)) = take i (items_of l) @ drop (Suc i) (items_of l)
      \<and> IBList_ok (snd (removeAt l i del))" if "i = l_count l - 1"
  proof -
    from that assms(2) have c: "l_count l = Suc i" by simp
    then show ?thesis using assms
      by (auto simp: removeAt_def Let_def items_of_def IBList_ok_def cells_def min_def take_map
          intro: filled_mono)
  qed
  have inner: "items_of (snd (removeAt l i del)) = take i (items_of l) @ drop (Suc i) (items_of l)
      \<and> IBList_ok (snd (removeAt l i del))" if "i < l_count l - 1"
    using that assms
    by (auto simp: removeAt_def Let_def items_of_def IBList_ok_def array_simps length_memmove)
  from last inner assms(2) show "IBList_ok (snd (removeAt l i del))"
    and "items_of (snd (removeAt l i del)) = take i (items_of l) @ drop (Suc i) (items_of l)"
    by (cases "i = l_count l - 1"; fastforce)+
qed

section \<open>Removing\<close>

lemma remove_loop_correct:
  "IBList_ok l \<Longrightarrow> \<forall>j<i. objs l ! j \<noteq> obj \<Longrightarrow> i \<le> l_count l \<Longrightarrow>
    IBList_ok (remove_loop obj i l) \<and> objs (remove_loop obj i l) = remove1 obj (objs l)"
proof (induction obj i l rule: remove_loop.induct)
  case (1 obj i self)
  note ok = "1.prems"(1)
  show ?case
  proof (cases "i < l_count self")
    case False
    then have "obj \<notin> set (objs self)"
      using "1.prems" by (auto simp: in_set_conv_nth length_objs)
    with False ok show ?thesis by (simp add: remove1_idem remove_loop.simps [of obj i self])
  next
    case True
    have at: "li_obj (the (l_items self ! i)) = objs self ! i"
      using True ok by (simp add: item_at objs_def length_items_of)
    show ?thesis
    proof (cases "objs self ! i = obj")
      case hit: True
      have "objs (snd (removeAt self i False)) = take i (objs self) @ drop (Suc i) (objs self)"
        using removeAt_correct(2) [OF ok True, of False] by (simp add: objs_def take_map drop_map)
      with True hit at "1.prems" show ?thesis
        by (simp add: removeAt_correct(1) [OF ok True] gap_remove1 length_objs
            remove_loop.simps [of obj i self])
    next
      case False
      with "1.IH" [OF True] True at "1.prems" show ?thesis
        by (auto simp: less_Suc_eq remove_loop.simps [of obj i self])
    qed
  qed
qed

lemma IBList_remove_ok: "IBList_ok l \<Longrightarrow> IBList_ok (IBList_remove l obj)"
  by (simp add: IBList_remove_def remove_loop_correct)

text \<open>
  Removing an object removes its first occurrence, keeps the order of the rest and
  the list well-formed, and runs no deleter (the operation returns none).
\<close>

theorem IBList_remove_objs:
  assumes "IBList_ok l"
  shows "IBList_ok (IBList_remove l obj) \<and> objs (IBList_remove l obj) = remove1 obj (objs l)"
  using assms by (simp add: IBList_remove_def remove_loop_correct)

definition three_objs :: "(nat, unit) IBList" where
  "three_objs = foldl (\<lambda>l x. IBList_append l x (Some ())) IBList_create [4, 5, 4]"

lemma three_objs_simps [simp]: "IBList_ok three_objs" "objs three_objs = [4, 5, 4]"
  by (simp_all add: three_objs_def IBList_append_ok objs_append)

theorem IBList_remove_objs_witness: "objs (IBList_remove three_objs 4) = [5, 4]"
  using IBList_remove_objs [of three_objs 4] by simp

definition deleter_calls :: "('o, 'd) IBListItem list \<Rightarrow> ('d \<times> 'o) list" where
  "deleter_calls items = concat (map (\<lambda>i. call_deleter (li_deleter i) (li_obj i)) items)"

lemma removeAll_loop_end: "\<not> i < l_count l \<Longrightarrow> removeAll_loop m i l = ([], l)"
  by (simp add: removeAll_loop.simps)

lemma removeAll_loop_correct:
  "IBList_ok l \<Longrightarrow> i \<le> l_count l \<Longrightarrow> removeAll_loop m i l = (calls, l') \<Longrightarrow>
    IBList_ok l' \<and>
    items_of l' = take i (items_of l) @ filter (\<lambda>it. \<not> m (li_obj it)) (drop i (items_of l)) \<and>
    calls = deleter_calls (filter (\<lambda>it. m (li_obj it)) (drop i (items_of l)))"
proof (induction m i l arbitrary: calls l' rule: removeAll_loop.induct)
  case (1 m i self)
  note ok = "1.prems"(1)
  show ?case
  proof (cases "i < l_count self")
    case False
    with "1.prems" ok show ?thesis
      by (auto simp: deleter_calls_def length_items_of removeAll_loop_end)
  next
    case True
    note i = item_at [OF ok True]
    have split: "drop i (items_of self) = items_of self ! i # drop (Suc i) (items_of self)"
      using True ok by (simp add: Cons_nth_drop_Suc length_items_of)
    show ?thesis
    proof (cases "m (li_obj (items_of self ! i))")
      case False
      then have "removeAll_loop m (i + 1) self = (calls, l')"
        using "1.prems"(3) True i by (simp add: removeAll_loop.simps [of m i self])
      from "1.IH"(2) [OF True _ ok _ this] False True i split show ?thesis
        using ok by (simp add: take_Suc_conv_app_nth length_items_of)
    next
      case hit: True
      obtain c1 l1 where r: "removeAt self i True = (c1, l1)" by fastforce
      note rc = removeAt_correct [OF ok True, of True, unfolded r, simplified]
      obtain c2 where l2: "removeAll_loop m i l1 = (c2, l')" and c: "calls = c1 @ c2"
        using "1.prems"(3) True hit i r
        by (auto simp: removeAll_loop.simps [of m i self] split: prod.splits)
      have "i \<le> l_count l1"
        using rc(2) length_items_of [OF rc(1)] True by (simp add: length_items_of [OF ok])
      from "1.IH"(1) [OF True _ r [symmetric] rc(1) this l2] hit i c split rc True
      show ?thesis
        by (simp add: deleter_calls_def length_items_of [OF ok])
    qed
  qed
qed

text \<open>
  \<open>IBList_removeAll\<close> keeps exactly the objects the matcher rejects, in order, and runs
  the deleters of exactly the removed ones, in order, once each.
\<close>

theorem IBList_removeAll_correct:
  assumes "IBList_ok l" "IBList_removeAll l m = (calls, l')"
  shows "IBList_ok l' \<and> items_of l' = filter (\<lambda>it. \<not> m (li_obj it)) (items_of l) \<and>
    calls = deleter_calls (filter (\<lambda>it. m (li_obj it)) (items_of l))"
  using removeAll_loop_correct [OF assms(1) _ assms(2) [unfolded IBList_removeAll_def]] by simp

theorem IBList_removeAll_correct_witness: "objs (snd (IBList_removeAll three_objs (\<lambda>x. x = 4))) = [5]"
  using IBList_removeAll_correct [of three_objs "\<lambda>x. x = 4" "fst (IBList_removeAll three_objs (\<lambda>x. x = 4))"
      "snd (IBList_removeAll three_objs (\<lambda>x. x = 4))"]
  by (simp add: objs_def three_objs_def items_of_append IBList_append_ok)

lemma destroy_items_calls: "destroy_items items = deleter_calls items"
  by (induction items) (simp_all add: deleter_calls_def)

lemma IBList_destroy_calls: "IBList_destroy (Some l) = deleter_calls (items_of l)"
  by (simp add: IBList_destroy_def items_of_def destroy_items_calls)

section \<open>The sequence contract\<close>

text \<open>What the clients of the list (messages, the bot's registries, responses) rely on.\<close>

locale sequence =
  fixes create :: "'l"
    and append :: "'l \<Rightarrow> 'o \<Rightarrow> 'd option \<Rightarrow> 'l"
    and size_of :: "'l \<Rightarrow> nat"
    and at :: "'l \<Rightarrow> nat \<Rightarrow> 'o option"
    and contents :: "'l \<Rightarrow> 'o list"
    and ok :: "'l \<Rightarrow> bool"
  assumes create_ok: "ok create" and create_contents: "contents create = []"
    and append_ok: "ok l \<Longrightarrow> ok (append l x d)"
    and append_contents: "ok l \<Longrightarrow> contents (append l x d) = contents l @ [x]"
    and size_contents: "ok l \<Longrightarrow> size_of l = length (contents l)"
    and at_contents: "ok l \<Longrightarrow> at l i = (if i < length (contents l) then Some (contents l ! i) else None)"
begin

lemma fold_append:
  "ok l \<Longrightarrow> ok (foldl (\<lambda>l x. append l x d) l xs)
     \<and> contents (foldl (\<lambda>l x. append l x d) l xs) = contents l @ xs"
  by (induction xs arbitrary: l) (simp_all add: append_ok append_contents)

lemma at_inside: "ok l \<Longrightarrow> i < size_of l \<Longrightarrow> at l i = Some (contents l ! i)"
  by (simp add: at_contents size_contents)

lemma at_outside: "ok l \<Longrightarrow> size_of l \<le> i \<Longrightarrow> at l i = None"
  by (simp add: at_contents size_contents)

lemma build:
  "ok (foldl (\<lambda>l x. append l x d) create xs)"
  "contents (foldl (\<lambda>l x. append l x d) create xs) = xs"
  using fold_append [OF create_ok] by (simp_all add: create_contents)

end

interpretation seq: sequence IBList_create IBList_append IBList_size IBList_at objs IBList_ok
  by unfold_locales
    (simp_all add: IBList_append_ok objs_append IBList_size_objs IBList_at_objs)

section \<open>The iterator\<close>

definition iterator_ok :: "('o, 'd) IBListIterator \<Rightarrow> bool" where
  "iterator_ok it \<longleftrightarrow> filled (it_count it) (it_items it) \<and> length (it_items it) = it_count it"

definition iterator_objs :: "('o, 'd) IBListIterator \<Rightarrow> 'o list" where
  "iterator_objs it = map li_obj (cells (it_count it) (it_items it))"

lemma IBList_iterator_ok: "IBList_ok l \<Longrightarrow> iterator_ok (IBList_iterator l)"
  by (auto simp: iterator_ok_def IBList_iterator_def IBList_ok_def filled_def)

lemma IBList_iterator_objs: "IBList_ok l \<Longrightarrow> iterator_objs (IBList_iterator l) = objs l"
  by (simp add: iterator_objs_def IBList_iterator_def objs_def items_of_def cells_def)

lemma length_iterator_objs: "iterator_ok it \<Longrightarrow> length (iterator_objs it) = it_count it"
  by (simp add: iterator_ok_def iterator_objs_def length_cells)

interpretation lit: cursor IBListIterator_moveNext IBListIterator_current it_pos iterator_objs iterator_ok
proof unfold_locales
  fix it :: "('o, 'd) IBListIterator"
  assume ok: "iterator_ok it"
  show "iterator_ok (snd (IBListIterator_moveNext it))"
    "iterator_objs (snd (IBListIterator_moveNext it)) = iterator_objs it"
    "it_pos (snd (IBListIterator_moveNext it)) =
       (if length (iterator_objs it) \<le> it_pos it then 0 else Suc (it_pos it))"
    "fst (IBListIterator_moveNext it) =
       (it_pos (snd (IBListIterator_moveNext it)) < length (iterator_objs it))"
    using ok by (simp_all add: IBListIterator_moveNext_def iterator_ok_def iterator_objs_def length_cells Let_def)
  show "IBListIterator_current it = (if it_pos it < length (iterator_objs it)
      then Some (iterator_objs it ! it_pos it) else None)"
    using ok by (auto simp: IBListIterator_current_def iterator_ok_def iterator_objs_def length_cells cells_nth)
qed

lemma foreach_objs:
  assumes "IBList_ok l"
  shows "foreach IBListIterator_moveNext IBListIterator_current body (IBList_iterator l) s
    = Some (fold_break body (objs l) s)"
proof -
  have "length (iterator_objs (IBList_iterator l)) \<le> it_pos (IBList_iterator l)"
    using assms by (simp add: IBList_iterator_objs length_objs) (simp add: IBList_iterator_def)
  from lit.foreach_all [OF IBList_iterator_ok [OF assms] this]
  show ?thesis using assms by (simp add: IBList_iterator_objs)
qed

text \<open>
  A loop over a fresh iterator of a well-formed list ends, and its body has run once
  for every object of the list, in order, up to the first \<open>break\<close>.
\<close>

theorem IBList_foreach:
  assumes "IBList_ok l"
  shows "foreach IBListIterator_moveNext IBListIterator_current body (IBList_iterator l) s
    = Some (fold_break body (objs l) s)"
  using foreach_objs [OF assms] .

theorem IBList_foreach_witness:
  "foreach IBListIterator_moveNext IBListIterator_current (search (\<lambda>x. x = 5)) (IBList_iterator three_objs) None = Some (Some 5)"
  using IBList_foreach [of three_objs "search (\<lambda>x. x = 5)" None] by (simp add: fold_break_search del: fold_break.simps)

section \<open>Lists from strings\<close>

definition words_of :: "string \<Rightarrow> string \<Rightarrow> string list" where
  "words_of delim s = filter (\<lambda>w. w \<noteq> []) (split_fields delim s)"

definition list_with :: "'d \<Rightarrow> (string, 'd) IBList option \<Rightarrow> string list \<Rightarrow> (string, 'd) IBList option" where
  "list_with free list ws =
     (if ws = [] then list
      else Some (foldl (\<lambda>l w. IBList_append l w (Some free))
                   (case list of None \<Rightarrow> IBList_create | Some l \<Rightarrow> l) ws))"

lemma fromString_loop_words:
  "fromString_loop free delim list (Some s) = list_with free list (words_of delim s)"
proof (induction "length s" arbitrary: s list rule: less_induct)
  case less
  obtain w rest where ss: "strsep s delim = (w, rest)" by fastforce
  have fs: "split_fields delim s = w # (case rest of None \<Rightarrow> [] | Some r \<Rightarrow> split_fields delim r)"
    using split_fields_strsep [of delim s] ss by simp
  show ?case
  proof (cases rest)
    case None
    with ss fs show ?thesis by (auto simp: list_with_def words_of_def split: option.splits)
  next
    case (Some r)
    then have "length r < length s" using ss strsep_pair_length(1) by blast
    from less [OF this] ss fs Some show ?thesis
      by (auto simp: list_with_def words_of_def split: option.splits)
  qed
qed

text \<open>
  \<open>IBList_fromString\<close> ends and yields the non-empty fields between delimiter
  characters, in order; it is null exactly when there are none; no word holds a delimiter.
\<close>

theorem IBList_fromString_words:
  "(case IBList_fromString free s delim of
      None \<Rightarrow> words_of delim s = []
    | Some l \<Rightarrow> IBList_ok l \<and> objs l = words_of delim s \<and> words_of delim s \<noteq> [])
   \<and> list_all (\<lambda>w. w \<noteq> [] \<and> set w \<inter> set delim = {}) (words_of delim s)"
proof -
  have eq: "IBList_fromString free s delim = list_with free None (words_of delim s)"
    by (simp only: IBList_fromString_def IB_copystr_id fromString_loop_words)
  have "list_all (\<lambda>w. w \<noteq> [] \<and> set w \<inter> set delim = {}) (words_of delim s)"
    using split_fields_no_delim by (auto simp: words_of_def list_all_iff)
  then show ?thesis
    using seq.build [of "Some free" "words_of delim s"]
    by (simp add: eq list_with_def)
qed

end
