(* ===== verification/HashTable.thy ===== *)
theory HashTable
  imports ObjList
begin

text \<open>
  \<open>src/lib/ircbot/hashtable.c\<close>: a table of chained entries with string keys, and its
  snapshot iterator. A chain of entries linked by \<open>next\<close> is the list of its entries from
  the bucket's head on. Operations that run deleters return the calls in order.
\<close>

section \<open>State\<close>

record ('o, 'd) IBHashTableEntry =
  e_key :: string
  e_obj :: 'o
  e_deleter :: "'d option"

record ('o, 'd) IBHashTable =
  ht_count :: nat
  ht_bits :: "8 word"
  ht_bucket :: "('o, 'd) IBHashTableEntry list list"

record 'o IBHashTableIterator =
  hi_count :: nat
  hi_pos :: nat
  hi_entries :: "(string \<times> 'o) array"

section \<open>Operations\<close>

definition IBHashTable_create :: "8 word \<Rightarrow> ('o, 'd) IBHashTable" where
  "IBHashTable_create bits =
     \<lparr>ht_count = 0, ht_bits = bits, ht_bucket = replicate (ht_size bits) []\<rparr>"

text \<open>
  The bucket of a key. The code passes the table's number of bits where \<open>hashstr\<close> takes
  a mask.
\<close>

definition bucket_index :: "('o, 'd) IBHashTable \<Rightarrow> string \<Rightarrow> nat" where
  "bucket_index self key = unat (hashstr key (ht_bits self))"

text \<open>Walking a chain to the key: replace the object there, or link a new entry at the end.\<close>

fun chain_set :: "string \<Rightarrow> 'o \<Rightarrow> 'd option \<Rightarrow> ('o, 'd) IBHashTableEntry list
    \<Rightarrow> ('d \<times> 'o) list \<times> bool \<times> ('o, 'd) IBHashTableEntry list" where
  "chain_set key obj deleter [] = ([], False, [\<lparr>e_key = key, e_obj = obj, e_deleter = deleter\<rparr>])"
| "chain_set key obj deleter (entry # next) =
     (if e_key entry = key
      then (call_deleter (e_deleter entry) (e_obj entry), True,
            entry\<lparr>e_obj := obj, e_deleter := deleter\<rparr> # next)
      else case chain_set key obj deleter next of (calls, found, next') \<Rightarrow> (calls, found, entry # next'))"

definition IBHashTable_set :: "('o, 'd) IBHashTable \<Rightarrow> string \<Rightarrow> 'o \<Rightarrow> 'd option
    \<Rightarrow> ('d \<times> 'o) list \<times> ('o, 'd) IBHashTable" where
  "IBHashTable_set self key obj deleter =
     (let h = bucket_index self key in
      case chain_set key obj deleter (ht_bucket self ! h) of (calls, found, chain) \<Rightarrow>
        (calls, self\<lparr>ht_bucket := (ht_bucket self)[h := chain],
                     ht_count := (if found then ht_count self else ht_count self + 1)\<rparr>))"

text \<open>Walking a chain to the key and unlinking the entry; \<open>None\<close> when it is not there.\<close>

fun chain_delete :: "string \<Rightarrow> ('o, 'd) IBHashTableEntry list
    \<Rightarrow> (('d \<times> 'o) list \<times> ('o, 'd) IBHashTableEntry list) option" where
  "chain_delete key [] = None"
| "chain_delete key (entry # next) =
     (if e_key entry = key then Some (call_deleter (e_deleter entry) (e_obj entry), next)
      else map_option (\<lambda>(calls, next'). (calls, entry # next')) (chain_delete key next))"

definition IBHashTable_delete :: "('o, 'd) IBHashTable \<Rightarrow> string
    \<Rightarrow> bool \<times> ('d \<times> 'o) list \<times> ('o, 'd) IBHashTable" where
  "IBHashTable_delete self key =
     (let h = bucket_index self key in
      case chain_delete key (ht_bucket self ! h) of
        Some (calls, chain) \<Rightarrow>
          (True, calls, self\<lparr>ht_bucket := (ht_bucket self)[h := chain], ht_count := ht_count self - 1\<rparr>)
      | None \<Rightarrow> (False, [], self))"

definition IBHashTable_count :: "('o, 'd) IBHashTable \<Rightarrow> nat" where
  "IBHashTable_count self = ht_count self"

fun chain_get :: "string \<Rightarrow> ('o, 'd) IBHashTableEntry list \<Rightarrow> 'o option" where
  "chain_get key [] = None"
| "chain_get key (entry # next) = (if e_key entry = key then Some (e_obj entry) else chain_get key next)"

definition IBHashTable_get :: "('o, 'd) IBHashTable \<Rightarrow> string \<Rightarrow> 'o option" where
  "IBHashTable_get self key = chain_get key (ht_bucket self ! bucket_index self key)"

text \<open>
  Filling the iterator's array, which has room for \<open>count\<close> entries: a write past its end
  is a fault.
\<close>

fun fill_chain :: "('o, 'd) IBHashTableEntry list \<Rightarrow> (string \<times> 'o) array \<times> nat
    \<Rightarrow> ((string \<times> 'o) array \<times> nat) result" where
  "fill_chain [] (entries, pos) = Inr (entries, pos)"
| "fill_chain (entry # next) (entries, pos) =
     (if pos < length entries
      then fill_chain next (entries[pos := Some (e_key entry, e_obj entry)], pos + 1)
      else Inl OutOfBounds)"

fun fill_buckets :: "('o, 'd) IBHashTableEntry list list \<Rightarrow> (string \<times> 'o) array \<times> nat
    \<Rightarrow> ((string \<times> 'o) array \<times> nat) result" where
  "fill_buckets [] st = Inr st"
| "fill_buckets (chain # buckets) st = bind_result (fill_chain chain st) (fill_buckets buckets)"

definition IBHashTable_iterator :: "('o, 'd) IBHashTable \<Rightarrow> 'o IBHashTableIterator result" where
  "IBHashTable_iterator self =
     bind_result (fill_buckets (ht_bucket self) (uninit (ht_count self), 0)) (\<lambda>(entries, pos).
       Inr \<lparr>hi_count = ht_count self, hi_pos = ht_count self, hi_entries = entries\<rparr>)"

text \<open>The destructor: every chain from bucket 0 on, every attached deleter in chain order.\<close>

fun destroy_chain :: "('o, 'd) IBHashTableEntry list \<Rightarrow> ('d \<times> 'o) list" where
  "destroy_chain [] = []"
| "destroy_chain (entry # next) = call_deleter (e_deleter entry) (e_obj entry) @ destroy_chain next"

definition IBHashTable_destroy :: "('o, 'd) IBHashTable option \<Rightarrow> ('d \<times> 'o) list" where
  "IBHashTable_destroy self =
     (case self of None \<Rightarrow> [] | Some t \<Rightarrow> concat (map destroy_chain (ht_bucket t)))"

definition IBHashTableIterator_moveNext :: "'o IBHashTableIterator \<Rightarrow> bool \<times> 'o IBHashTableIterator" where
  "IBHashTableIterator_moveNext self =
     (let self = (if hi_pos self \<ge> hi_count self then self\<lparr>hi_pos := 0\<rparr>
                  else self\<lparr>hi_pos := hi_pos self + 1\<rparr>)
      in (hi_pos self < hi_count self, self))"

definition IBHashTableIterator_key :: "'o IBHashTableIterator \<Rightarrow> string option" where
  "IBHashTableIterator_key self =
     (if hi_pos self \<ge> hi_count self then None else Some (fst (the (hi_entries self ! hi_pos self))))"

definition IBHashTableIterator_current :: "'o IBHashTableIterator \<Rightarrow> 'o option" where
  "IBHashTableIterator_current self =
     (if hi_pos self \<ge> hi_count self then None else Some (snd (the (hi_entries self ! hi_pos self))))"

section \<open>Well-formedness\<close>

definition chain_ok :: "8 word \<Rightarrow> nat \<Rightarrow> ('o, 'd) IBHashTableEntry list \<Rightarrow> bool" where
  "chain_ok bits h chain \<longleftrightarrow>
     distinct (map e_key chain) \<and> (\<forall>e\<in>set chain. unat (hashstr (e_key e) bits) = h)"

definition IBHashTable_ok :: "('o, 'd) IBHashTable \<Rightarrow> bool" where
  "IBHashTable_ok t \<longleftrightarrow> unat (ht_bits t) < 32 \<and> length (ht_bucket t) = ht_size (ht_bits t)
     \<and> (\<forall>h<length (ht_bucket t). chain_ok (ht_bits t) h (ht_bucket t ! h))
     \<and> ht_count t = sum_list (map length (ht_bucket t))"

lemma bits_below_size:
  assumes "unat (bits :: 8 word) < 32"
  shows "unat bits < ht_size bits"
proof -
  have "unat bits \<in> set [0..<32]" using assms by simp
  then show ?thesis by (auto simp: upt_rec ht_size_def HT_SIZE_def HT_MASK_def)
qed

text \<open>The bucket index is always inside the table, although the mask is not the table's.\<close>

lemma bucket_index_bound:
  "IBHashTable_ok t \<Longrightarrow> bucket_index t key < length (ht_bucket t)"
  using hashstr_le [of key "ht_bits t"] bits_below_size [of "ht_bits t"]
  by (simp add: bucket_index_def IBHashTable_ok_def)

lemma chain_at_ok:
  "IBHashTable_ok t \<Longrightarrow> chain_ok (ht_bits t) (bucket_index t key) (ht_bucket t ! bucket_index t key)"
  using bucket_index_bound by (auto simp: IBHashTable_ok_def)

section \<open>Chains\<close>

lemma chain_set_keys:
  "chain_set key obj d chain = (calls, found, chain') \<Longrightarrow>
    found = (key \<in> e_key ` set chain) \<and>
    map e_key chain' = map e_key chain @ (if key \<in> e_key ` set chain then [] else [key])"
  by (induction chain arbitrary: calls found chain') (auto split: if_splits prod.splits)

lemma chain_set_get:
  "chain_set key obj d chain = (calls, found, chain') \<Longrightarrow>
    chain_get k chain' = (if k = key then Some obj else chain_get k chain)"
  by (induction chain arbitrary: calls found chain') (auto split: if_splits prod.splits)

lemma chain_delete_None: "chain_delete key chain = None \<longleftrightarrow> key \<notin> e_key ` set chain"
  by (induction chain) auto

lemma chain_delete_Some:
  "chain_delete key chain = Some (calls, chain') \<Longrightarrow> distinct (map e_key chain) \<Longrightarrow>
    key \<in> e_key ` set chain \<and> map e_key chain' = remove1 key (map e_key chain) \<and>
    set chain' \<subseteq> set chain \<and>
    chain_get k chain' = (if k = key then None else chain_get k chain)"
proof (induction chain arbitrary: calls chain')
  case (Cons e chain)
  have none: "chain_get key chain = None" if "key \<notin> e_key ` set chain"
    using that by (induction chain) auto
  show ?case
  proof (cases "e_key e = key")
    case True
    with Cons.prems none show ?thesis by auto
  next
    case False
    with Cons.prems(1) obtain c2 where "chain_delete key chain = Some (calls, c2)" "chain' = e # c2"
      by auto
    with Cons False show ?thesis by auto
  qed
qed simp

lemma chain_get_dom: "chain_get k chain \<noteq> None \<longleftrightarrow> k \<in> e_key ` set chain"
  by (induction chain) auto

lemma length_chain: "length chain = length (map e_key chain)"
  by simp

lemma chain_set_length:
  assumes "chain_set key obj d chain = (calls, found, chain')"
  shows "length chain' = (if found then length chain else Suc (length chain))"
  using chain_set_keys [OF assms]
  by (subst (1 2 3) length_chain) auto

lemma chain_set_ok:
  assumes "chain_set key obj d chain = (calls, found, chain')" "chain_ok bits h chain"
    and "unat (hashstr key bits) = h"
  shows "chain_ok bits h chain'"
proof -
  from chain_set_keys [OF assms(1)]
  have "distinct (map e_key chain')" "e_key ` set chain' = insert key (e_key ` set chain)"
    using assms(2) by (auto simp: chain_ok_def distinct_map simp flip: set_map)
  with assms(2,3) show ?thesis unfolding chain_ok_def by (metis imageE imageI insertE)
qed

lemma chain_delete_ok:
  assumes "chain_delete key chain = Some (calls, chain')" "chain_ok bits h chain"
  shows "chain_ok bits h chain'" "length chain' = length chain - 1" "chain \<noteq> []"
proof -
  from assms(2) have d: "distinct (map e_key chain)" by (simp add: chain_ok_def)
  note del = chain_delete_Some [OF assms(1) d]
  show "chain_ok bits h chain'"
    using del [THEN conjunct2, THEN conjunct2, THEN conjunct1] del assms(2) d
    by (fastforce simp: chain_ok_def distinct_remove1)
  show "length chain' = length chain - 1"
    using del by (metis length_chain length_remove1 list.set_map)
  show "chain \<noteq> []" using del by auto
qed

section \<open>The operations on the whole table\<close>

lemma sum_list_update_length:
  fixes xs :: "nat list"
  assumes "i < length xs"
  shows "sum_list (xs[i := n]) + xs ! i = sum_list xs + n"
  using assms
proof (induction xs arbitrary: i)
  case (Cons x xs)
  then show ?case by (cases i) auto
qed simp

lemma total_update:
  assumes "h < length bs"
  shows "sum_list (map length (bs[h := c])) + length (bs ! h) = sum_list (map length bs) + length c"
  using sum_list_update_length [of h "map length bs" "length c"] assms by (simp add: map_update)

lemma IBHashTable_create_ok: "unat bits < 32 \<Longrightarrow> IBHashTable_ok (IBHashTable_create bits)"
  by (simp add: IBHashTable_ok_def IBHashTable_create_def chain_ok_def sum_list_0 map_replicate_const)

lemma IBHashTable_create_get:
  "unat bits < 32 \<Longrightarrow> IBHashTable_get (IBHashTable_create bits) key = None"
  using hashstr_le [of key bits] bits_below_size [of bits]
  by (simp add: IBHashTable_get_def IBHashTable_create_def bucket_index_def)

lemma IBHashTable_set_ok:
  assumes "IBHashTable_ok t"
  shows "IBHashTable_ok (snd (IBHashTable_set t key obj d))"
proof -
  let ?h = "bucket_index t key"
  note h = bucket_index_bound [OF assms, of key] and c = chain_at_ok [OF assms, of key]
  obtain calls found ch where s: "chain_set key obj d (ht_bucket t ! ?h) = (calls, found, ch)"
    using prod_cases3 by blast
  have "chain_ok (ht_bits t) ?h ch"
    using chain_set_ok [OF s c] by (simp add: bucket_index_def)
  moreover note total_update [OF h, of ch] chain_set_length [OF s]
  ultimately show ?thesis
    using assms h s
    by (auto simp: IBHashTable_set_def Let_def IBHashTable_ok_def nth_list_update)
qed

lemma bits_set [simp]: "ht_bits (snd (IBHashTable_set t key obj d)) = ht_bits t"
  by (simp add: IBHashTable_set_def Let_def split: prod.splits)

lemma IBHashTable_set_get:
  assumes "IBHashTable_ok t"
  shows "IBHashTable_get (snd (IBHashTable_set t key obj d)) = (IBHashTable_get t)(key \<mapsto> obj)"
proof (rule ext)
  fix k
  let ?h = "bucket_index t key"
  note h = bucket_index_bound [OF assms, of key]
  obtain calls found ch where s: "chain_set key obj d (ht_bucket t ! ?h) = (calls, found, ch)"
    using prod_cases3 by blast
  from chain_set_get [OF s, of k] h s
  show "IBHashTable_get (snd (IBHashTable_set t key obj d)) k = ((IBHashTable_get t)(key \<mapsto> obj)) k"
    by (auto simp: IBHashTable_set_def Let_def IBHashTable_get_def bucket_index_def nth_list_update)
qed

lemma IBHashTable_delete_ok:
  assumes "IBHashTable_ok t"
  shows "IBHashTable_ok (snd (snd (IBHashTable_delete t key)))"
proof -
  let ?h = "bucket_index t key"
  note h = bucket_index_bound [OF assms, of key] and c = chain_at_ok [OF assms, of key]
  show ?thesis
  proof (cases "chain_delete key (ht_bucket t ! ?h)")
    case None
    with assms show ?thesis by (simp add: IBHashTable_delete_def Let_def)
  next
    case (Some r)
    obtain calls ch where r: "r = (calls, ch)" by fastforce
    note del = chain_delete_ok [OF Some [unfolded r] c]
    have "length (ht_bucket t ! ?h) > 0" using del(3) by simp
    with total_update [OF h, of ch] del
    have "sum_list (map length ((ht_bucket t)[?h := ch])) = sum_list (map length (ht_bucket t)) - 1"
      by linarith
    with assms h Some r del show ?thesis
      by (auto simp: IBHashTable_delete_def Let_def IBHashTable_ok_def nth_list_update)
  qed
qed

lemma IBHashTable_delete_get:
  assumes "IBHashTable_ok t"
  shows "fst (IBHashTable_delete t key) = (IBHashTable_get t key \<noteq> None)"
    and "IBHashTable_get (snd (snd (IBHashTable_delete t key))) = (IBHashTable_get t)(key := None)"
proof -
  let ?h = "bucket_index t key"
  note h = bucket_index_bound [OF assms, of key]
  have d: "distinct (map e_key (ht_bucket t ! ?h))"
    using chain_at_ok [OF assms, of key] by (simp add: chain_ok_def)
  have dom: "IBHashTable_get t key \<noteq> None \<longleftrightarrow> key \<in> e_key ` set (ht_bucket t ! ?h)"
    by (simp only: IBHashTable_get_def chain_get_dom)
  show "fst (IBHashTable_delete t key) = (IBHashTable_get t key \<noteq> None)"
    unfolding dom using chain_delete_None [of key "ht_bucket t ! ?h"]
    by (auto simp: IBHashTable_delete_def Let_def split: option.splits)
  show "IBHashTable_get (snd (snd (IBHashTable_delete t key))) = (IBHashTable_get t)(key := None)"
  proof (rule ext)
    fix k
    show "IBHashTable_get (snd (snd (IBHashTable_delete t key))) k = ((IBHashTable_get t)(key := None)) k"
    proof (cases "chain_delete key (ht_bucket t ! ?h)")
      case None
      then have "IBHashTable_get t key = None" using dom chain_delete_None by metis
      with None show ?thesis by (simp add: IBHashTable_delete_def Let_def)
    next
      case (Some r)
      obtain calls ch where r: "r = (calls, ch)" by fastforce
      from chain_delete_Some [OF Some [unfolded r] d, of k] h Some r show ?thesis
        by (auto simp: IBHashTable_delete_def Let_def IBHashTable_get_def bucket_index_def nth_list_update)
    qed
  qed
qed

section \<open>The number of entries\<close>

definition keys_at :: "('o, 'd) IBHashTable \<Rightarrow> nat \<Rightarrow> string set" where
  "keys_at t h = e_key ` set (ht_bucket t ! h)"

lemma get_dom:
  assumes "IBHashTable_ok t"
  shows "dom (IBHashTable_get t) = (\<Union>h<length (ht_bucket t). keys_at t h)"
proof -
  have "IBHashTable_get t k \<noteq> None \<longleftrightarrow> (\<exists>h<length (ht_bucket t). k \<in> keys_at t h)" for k
  proof -
    have "IBHashTable_get t k \<noteq> None \<longleftrightarrow> k \<in> keys_at t (bucket_index t k)"
      by (simp only: IBHashTable_get_def chain_get_dom keys_at_def)
    moreover have "h = bucket_index t k" if "h < length (ht_bucket t)" "k \<in> keys_at t h" for h
      using that assms by (auto simp: IBHashTable_ok_def chain_ok_def keys_at_def bucket_index_def)
    ultimately show ?thesis using bucket_index_bound [OF assms] by metis
  qed
  then show ?thesis by (auto simp: dom_def)
qed

lemma count_card_dom:
  assumes "IBHashTable_ok t"
  shows "IBHashTable_count t = card (dom (IBHashTable_get t))"
proof -
  let ?n = "length (ht_bucket t)"
  have ok: "chain_ok (ht_bits t) h (ht_bucket t ! h)" if "h < ?n" for h
    using that assms by (simp add: IBHashTable_ok_def)
  have disj: "keys_at t g \<inter> keys_at t h = {}" if "g < ?n" "h < ?n" "g \<noteq> h" for g h
    using ok [OF that(1)] ok [OF that(2)] that(3) by (auto simp: chain_ok_def keys_at_def)
  have card: "card (keys_at t h) = length (ht_bucket t ! h)" if "h < ?n" for h
    using ok [OF that] by (metis chain_ok_def distinct_card keys_at_def length_chain list.set_map)
  have "card (dom (IBHashTable_get t)) = (\<Sum>h<?n. card (keys_at t h))"
    unfolding get_dom [OF assms] using disj
    by (intro card_UN_disjoint) (auto simp: keys_at_def)
  also have "\<dots> = (\<Sum>h<?n. length (ht_bucket t ! h))"
    using card by simp
  also have "\<dots> = ht_count t"
    using assms by (simp add: IBHashTable_ok_def sum_list_sum_nth atLeast0LessThan)
  finally show ?thesis by (simp add: IBHashTable_count_def)
qed

section \<open>The map contract\<close>

text \<open>
  What the clients (a server's channels, a channel's nicks) rely on: a finite map from
  strings, with the number of its keys, whose delete says whether the key was there.
\<close>

datatype 'o map_op = Put string 'o | Remove string

fun map_spec :: "'o map_op list \<Rightarrow> (string \<rightharpoonup> 'o) \<Rightarrow> bool list \<times> (string \<rightharpoonup> 'o)" where
  "map_spec [] m = ([], m)"
| "map_spec (Put k v # ops) m = map_spec ops (m(k \<mapsto> v))"
| "map_spec (Remove k # ops) m = (case map_spec ops (m(k := None)) of (rs, m') \<Rightarrow> ((m k \<noteq> None) # rs, m'))"

fun run_map :: "('t \<Rightarrow> string \<Rightarrow> 'o \<Rightarrow> 'd option \<Rightarrow> ('d \<times> 'o) list \<times> 't) \<Rightarrow>
    ('t \<Rightarrow> string \<Rightarrow> bool \<times> ('d \<times> 'o) list \<times> 't) \<Rightarrow> 'd option \<Rightarrow> 'o map_op list \<Rightarrow> 't \<Rightarrow> bool list \<times> 't" where
  "run_map put remove d [] t = ([], t)"
| "run_map put remove d (Put k v # ops) t = run_map put remove d ops (snd (put t k v d))"
| "run_map put remove d (Remove k # ops) t =
     (case remove t k of (found, calls, t) \<Rightarrow>
        case run_map put remove d ops t of (rs, t') \<Rightarrow> (found # rs, t'))"

locale string_map =
  fixes create :: "'b \<Rightarrow> 't"
    and legal :: "'b \<Rightarrow> bool"
    and put :: "'t \<Rightarrow> string \<Rightarrow> 'o \<Rightarrow> 'd option \<Rightarrow> ('d \<times> 'o) list \<times> 't"
    and remove :: "'t \<Rightarrow> string \<Rightarrow> bool \<times> ('d \<times> 'o) list \<times> 't"
    and get :: "'t \<Rightarrow> string \<Rightarrow> 'o option"
    and count :: "'t \<Rightarrow> nat"
    and ok :: "'t \<Rightarrow> bool"
  assumes create_ok: "legal b \<Longrightarrow> ok (create b)"
    and create_get: "legal b \<Longrightarrow> get (create b) k = None"
    and put_ok: "ok t \<Longrightarrow> ok (snd (put t k v d))"
    and put_get: "ok t \<Longrightarrow> get (snd (put t k v d)) = (get t)(k \<mapsto> v)"
    and remove_ok: "ok t \<Longrightarrow> ok (snd (snd (remove t k)))"
    and remove_found: "ok t \<Longrightarrow> fst (remove t k) = (get t k \<noteq> None)"
    and remove_get: "ok t \<Longrightarrow> get (snd (snd (remove t k))) = (get t)(k := None)"
    and count_card: "ok t \<Longrightarrow> count t = card (dom (get t))"
    and finite_dom: "ok t \<Longrightarrow> finite (dom (get t))"
begin

lemma create_count: "legal b \<Longrightarrow> count (create b) = 0"
  by (simp add: count_card create_ok create_get dom_def)

lemma put_count:
  "ok t \<Longrightarrow> count (snd (put t k v d)) = (if get t k = None then Suc (count t) else count t)"
  by (auto simp: count_card put_ok put_get finite_dom domIff card_insert_if)

lemma remove_count:
  "ok t \<Longrightarrow> count (snd (snd (remove t k))) = (if fst (remove t k) then count t - 1 else count t)"
  by (auto simp: count_card remove_ok remove_get remove_found finite_dom domIff card_Diff_singleton)

text \<open>Removing a key after storing it leaves the map without that key, whatever was there.\<close>

lemma remove_put:
  assumes "ok t"
  shows "fst (remove (snd (put t k v d)) k)"
    and "get (snd (snd (remove (snd (put t k v d)) k))) = (get t)(k := None)"
  using assms by (simp_all add: put_ok put_get remove_found remove_get)

lemma remove_twice: "ok t \<Longrightarrow> \<not> fst (remove (snd (snd (remove t k))) k)"
  by (simp add: remove_ok remove_found remove_get)

text \<open>Storing many keys, one after the other.\<close>

lemma fold_put:
  "ok t \<Longrightarrow> ok (foldl (\<lambda>t k. snd (put t k v d)) t ks) \<and>
    get (foldl (\<lambda>t k. snd (put t k v d)) t ks) = (\<lambda>k. if k \<in> set ks then Some v else get t k)"
  by (induction ks arbitrary: t) (auto simp: put_ok put_get)

text \<open>Any sequence of operations against the map it stands for.\<close>

lemma run_map_spec:
  "ok t \<Longrightarrow> ok (snd (run_map put remove d ops t)) \<and>
    fst (run_map put remove d ops t) = fst (map_spec ops (get t)) \<and>
    get (snd (run_map put remove d ops t)) = snd (map_spec ops (get t))"
proof (induction ops arbitrary: t)
  case (Cons a ops)
  show ?case
  proof (cases a)
    case (Put k v)
    show ?thesis using Cons.IH [OF put_ok [OF Cons.prems], of k v d]
      by (simp only: Put run_map.simps map_spec.simps put_get [OF Cons.prems])
  next
    case (Remove k)
    obtain found calls t' where r: "remove t k = (found, calls, t')" using prod_cases3 by blast
    with remove_ok [OF Cons.prems, of k] remove_get [OF Cons.prems, of k] remove_found [OF Cons.prems, of k] Cons.IH [of t']
    show ?thesis by (auto simp: Remove simp del: fun_upd_apply split: prod.split)
  qed
qed simp

end

lemma finite_dom_get: "IBHashTable_ok t \<Longrightarrow> finite (dom (IBHashTable_get t))"
  by (simp add: get_dom keys_at_def)

interpretation ht: string_map IBHashTable_create "\<lambda>bits. unat bits < 32" IBHashTable_set
  IBHashTable_delete IBHashTable_get IBHashTable_count IBHashTable_ok
  by unfold_locales
    (simp_all add: IBHashTable_create_ok IBHashTable_create_get IBHashTable_set_ok IBHashTable_set_get
      IBHashTable_delete_ok IBHashTable_delete_get count_card_dom finite_dom_get)

text \<open>C13: for every sequence of stores and removals on a new table of any legal size, each
  removal tells whether the key was there, and at the end every lookup and the count of
  entries are those of the finite map the sequence describes, whatever keys collide in a
  bucket.\<close>

theorem IBHashTable_is_map:
  assumes "unat bits < 32"
  shows "case run_map IBHashTable_set IBHashTable_delete d ops (IBHashTable_create bits) of (found, t) \<Rightarrow>
    (found, IBHashTable_get t) = map_spec ops (\<lambda>_. None) \<and> IBHashTable_count t = card (dom (IBHashTable_get t))"
proof -
  have e: "IBHashTable_get (IBHashTable_create bits) = (\<lambda>_. None)"
    by (rule ext) (rule ht.create_get [OF assms])
  from ht.run_map_spec [OF ht.create_ok [OF assms], of d ops] show ?thesis
    by (auto simp: e ht.count_card split: prod.split)
qed

theorem IBHashTable_is_map_witness:
  "fst (run_map IBHashTable_set IBHashTable_delete None [Put ''ab'' (1::nat), Remove ''c'', Put ''ba'' 2, Remove ''ab''] (IBHashTable_create 8 :: (nat, unit) IBHashTable))
     = [False, True]"
  using IBHashTable_is_map [of 8 "[Put ''ab'' (1::nat), Remove ''c'', Put ''ba'' 2, Remove ''ab'']" "None :: unit option"]
  by (simp split: prod.splits)

section \<open>The iterator\<close>

definition table_entries :: "('o, 'd) IBHashTable \<Rightarrow> (string \<times> 'o) list" where
  "table_entries t = map (\<lambda>e. (e_key e, e_obj e)) (concat (ht_bucket t))"

abbreviation entry_pair :: "('o, 'd) IBHashTableEntry \<Rightarrow> string \<times> 'o" where
  "entry_pair e \<equiv> (e_key e, e_obj e)"

lemma fill_chain_fills:
  "length chain \<le> k \<Longrightarrow>
    fill_chain chain (map Some done @ uninit k, length done)
      = Inr (map Some (done @ map entry_pair chain) @ uninit (k - length chain),
             length done + length chain)"
proof (induction chain arbitrary: "done" k)
  case (Cons e chain)
  then obtain k' where k: "k = Suc k'" by (cases k) auto
  have "(map Some done @ uninit k)[length done := Some (entry_pair e)]
      = map Some (done @ [entry_pair e]) @ uninit k'"
    by (simp add: k uninit_def list_update_append)
  with Cons.IH [of k' "done @ [entry_pair e]"] Cons.prems k show ?case by simp
qed simp

lemma fill_buckets_fills:
  "length (concat bs) \<le> k \<Longrightarrow>
    fill_buckets bs (map Some done @ uninit k, length done)
      = Inr (map Some (done @ map entry_pair (concat bs)) @ uninit (k - length (concat bs)),
             length done + length (concat bs))"
proof (induction bs arbitrary: "done" k)
  case (Cons b bs)
  have "length b \<le> k" using Cons.prems by simp
  from fill_chain_fills [OF this, of "done"] Cons.IH [of "k - length b" "done @ map entry_pair b"] Cons.prems
  show ?case by (simp add: add.assoc)
qed simp

definition hi_ok :: "'o IBHashTableIterator \<Rightarrow> bool" where
  "hi_ok it \<longleftrightarrow> length (hi_entries it) = hi_count it \<and> filled (hi_count it) (hi_entries it)"

definition hi_pairs :: "'o IBHashTableIterator \<Rightarrow> (string \<times> 'o) list" where
  "hi_pairs it = cells (hi_count it) (hi_entries it)"

definition hi_current_pair :: "'o IBHashTableIterator \<Rightarrow> (string \<times> 'o) option" where
  "hi_current_pair it = (case (IBHashTableIterator_key it, IBHashTableIterator_current it) of
     (Some k, Some v) \<Rightarrow> Some (k, v) | _ \<Rightarrow> None)"

lemma length_hi_pairs: "hi_ok it \<Longrightarrow> length (hi_pairs it) = hi_count it"
  by (simp add: hi_ok_def hi_pairs_def length_cells)

interpretation hit: cursor IBHashTableIterator_moveNext hi_current_pair hi_pos hi_pairs hi_ok
proof unfold_locales
  fix it :: "'o IBHashTableIterator"
  assume ok: "hi_ok it"
  show "hi_ok (snd (IBHashTableIterator_moveNext it))"
    "hi_pairs (snd (IBHashTableIterator_moveNext it)) = hi_pairs it"
    "hi_pos (snd (IBHashTableIterator_moveNext it)) =
       (if length (hi_pairs it) \<le> hi_pos it then 0 else Suc (hi_pos it))"
    "fst (IBHashTableIterator_moveNext it) =
       (hi_pos (snd (IBHashTableIterator_moveNext it)) < length (hi_pairs it))"
    using ok by (simp_all add: IBHashTableIterator_moveNext_def hi_ok_def hi_pairs_def length_cells Let_def)
  show "hi_current_pair it = (if hi_pos it < length (hi_pairs it) then Some (hi_pairs it ! hi_pos it) else None)"
    using ok by (auto simp: hi_current_pair_def IBHashTableIterator_key_def IBHashTableIterator_current_def
        hi_ok_def hi_pairs_def length_cells cells_nth)
qed

lemma cells_map_Some [simp]: "cells (length xs) (map Some xs) = xs"
  by (simp add: cells_def)

lemma IBHashTable_iterator_correct:
  assumes "IBHashTable_ok t"
  shows "IBHashTable_iterator t = Inr \<lparr>hi_count = ht_count t, hi_pos = ht_count t,
      hi_entries = map Some (table_entries t)\<rparr>"
proof -
  have n: "length (concat (ht_bucket t)) = ht_count t"
    using assms by (simp add: IBHashTable_ok_def length_concat)
  with fill_buckets_fills [of "ht_bucket t" "ht_count t" "[]"]
  show ?thesis by (simp add: IBHashTable_iterator_def table_entries_def uninit_def)
qed

lemma chain_get_pair: "chain_get k chain = Some v \<Longrightarrow> (k, v) \<in> entry_pair ` set chain"
  by (induction chain) (auto split: if_splits)

lemma table_entries_keys:
  assumes "IBHashTable_ok t"
  shows "set (map fst (table_entries t)) = dom (IBHashTable_get t)"
    and "length (table_entries t) = IBHashTable_count t"
    and "distinct (map fst (table_entries t))"
proof -
  have "set (map fst (table_entries t)) = (\<Union>c\<in>set (ht_bucket t). e_key ` set c)"
    by (force simp: table_entries_def)
  also have "\<dots> = dom (IBHashTable_get t)"
    unfolding get_dom [OF assms] by (force simp: keys_at_def in_set_conv_nth)
  finally show keys: "set (map fst (table_entries t)) = dom (IBHashTable_get t)" .
  show len: "length (table_entries t) = IBHashTable_count t"
    using assms by (simp add: table_entries_def IBHashTable_ok_def length_concat IBHashTable_count_def)
  have "card (set (map fst (table_entries t))) = length (map fst (table_entries t))"
    unfolding keys using len count_card_dom [OF assms] by simp
  then show "distinct (map fst (table_entries t))" by (rule card_distinct)
qed

lemma map_of_table_entries:
  assumes "IBHashTable_ok t"
  shows "map_of (table_entries t) = IBHashTable_get t"
proof (rule ext)
  fix k
  show "map_of (table_entries t) k = IBHashTable_get t k"
  proof (cases "IBHashTable_get t k")
    case None
    then have "k \<notin> set (map fst (table_entries t))"
      unfolding table_entries_keys(1) [OF assms] by auto
    then have "map_of (table_entries t) k = None" by (simp add: map_of_eq_None_iff)
    with None show ?thesis by simp
  next
    case (Some v)
    then have "(k, v) \<in> entry_pair ` set (ht_bucket t ! bucket_index t k)"
      by (auto simp: IBHashTable_get_def dest: chain_get_pair)
    moreover have "ht_bucket t ! bucket_index t k \<in> set (ht_bucket t)"
      using bucket_index_bound [OF assms] by simp
    ultimately have "(k, v) \<in> set (table_entries t)" by (auto simp: table_entries_def)
    with Some show ?thesis
      using table_entries_keys(3) [OF assms] by (simp add: map_of_is_SomeI)
  qed
qed

text \<open>
  Creating an iterator never writes outside its array, and the loop over it visits
  exactly the stored pairs, each key once, whatever the chains look like.
\<close>

theorem IBHashTable_foreach:
  assumes "IBHashTable_ok t"
  shows "\<exists>it. IBHashTable_iterator t = Inr it \<and>
    foreach IBHashTableIterator_moveNext hi_current_pair body it s = Some (fold_break body (table_entries t) s) \<and>
    map_of (table_entries t) = IBHashTable_get t \<and> length (table_entries t) = IBHashTable_count t"
proof -
  let ?it = "\<lparr>hi_count = ht_count t, hi_pos = ht_count t, hi_entries = map Some (table_entries t)\<rparr>"
  have len: "length (table_entries t) = ht_count t"
    using table_entries_keys(2) [OF assms] by (simp add: IBHashTable_count_def)
  then have pairs: "hi_pairs ?it = table_entries t"
    by (simp add: hi_pairs_def flip: len)
  have "hi_ok ?it" using len by (simp add: hi_ok_def filled_def)
  from hit.foreach_all [OF this] pairs len
  have "foreach IBHashTableIterator_moveNext hi_current_pair body ?it s
      = Some (fold_break body (table_entries t) s)" by simp
  with IBHashTable_iterator_correct [OF assms] show ?thesis
    using map_of_table_entries [OF assms] table_entries_keys(2) [OF assms] by blast
qed

definition one_entry :: "(nat, unit) IBHashTable" where
  "one_entry = snd (IBHashTable_set (IBHashTable_create 8) ''nick'' 5 None)"

lemma one_entry_ok: "IBHashTable_ok one_entry"
  by (simp add: one_entry_def IBHashTable_set_ok IBHashTable_create_ok)

theorem IBHashTable_foreach_witness:
  "\<exists>it. IBHashTable_iterator one_entry = Inr it \<and>
     foreach IBHashTableIterator_moveNext hi_current_pair collect it [] = Some (table_entries one_entry) \<and>
     length (table_entries one_entry) = 1"
proof -
  have "IBHashTable_count one_entry = 1" by code_simp
  then show ?thesis
    using IBHashTable_foreach [OF one_entry_ok, of collect "[]"] by (auto simp: fold_break_collect)
qed

section \<open>Which buckets are used\<close>

lemma and_exp_cases: "(w :: 'a :: len word) AND 2 ^ n \<in> {0, 2 ^ n}"
proof (cases "bit w n")
  case True
  then have "w AND 2 ^ n = 2 ^ n" by (intro bit_word_eqI) (auto simp: bit_simps)
  then show ?thesis by simp
next
  case False
  then have "w AND 2 ^ n = 0" by (intro bit_word_eqI) (auto simp: bit_simps)
  then show ?thesis by simp
qed

lemma and_8_cases: "(w :: 8 word) AND 8 = w \<Longrightarrow> w = 0 \<or> w = 8"
  using and_exp_cases [of w 3] by auto

text \<open>
  The table of an IRC channel's nicks has 256 buckets (8 bits), but since the number
  of bits is passed as the mask, every nick is in bucket 0 or bucket 8 and the other 254
  stay empty.
\<close>

theorem nick_table_two_buckets:
  assumes "IBHashTable_ok t" "ht_bits t = 8" "h < length (ht_bucket t)" "ht_bucket t ! h \<noteq> []"
  shows "length (ht_bucket t) = 256 \<and> h \<in> {0, 8}"
proof -
  obtain e where e: "e \<in> set (ht_bucket t ! h)" using assms(4) by fastforce
  have "unat (hashstr (e_key e) 8) = h"
    using assms e by (auto simp: IBHashTable_ok_def chain_ok_def)
  moreover have "hashstr (e_key e) 8 = 0 \<or> hashstr (e_key e) 8 = 8"
    using and_8_cases hashstr_masked by blast
  moreover have "length (ht_bucket t) = 256"
    using assms(1,2) by (simp add: IBHashTable_ok_def ht_size_upto_8)
  ultimately show ?thesis by auto
qed

theorem nick_table_two_buckets_witness:
  "length (ht_bucket one_entry) = 256 \<and> bucket_index one_entry ''nick'' \<in> {0, 8}"
proof -
  have "ht_bits one_entry = 8" by (simp add: one_entry_def) (simp add: IBHashTable_create_def)
  moreover have "IBHashTable_get one_entry ''nick'' = Some 5"
    by (simp add: one_entry_def IBHashTable_set_get IBHashTable_create_ok)
  then have "ht_bucket one_entry ! bucket_index one_entry ''nick'' \<noteq> []"
    by (auto simp: IBHashTable_get_def)
  ultimately show ?thesis
    using nick_table_two_buckets [OF one_entry_ok _ bucket_index_bound [OF one_entry_ok]] by blast
qed

end
