(* ===== verification/StrBuilder.thy ===== *)
theory StrBuilder
  imports Util
begin

text \<open>
  \<open>src/lib/ircbot/stringbuilder.c\<close>: a string built by appending. The buffer is null until the
  first append and grows in chunks, always keeping room for the terminator.
\<close>

abbreviation SBCHUNKSZ :: nat where "SBCHUNKSZ \<equiv> 512"

record IBStringBuilder =
  sb_size :: nat
  sb_capa :: nat
  sb_str :: "char array option"

definition IBStringBuilder_create :: IBStringBuilder where
  "IBStringBuilder_create = \<lparr>sb_size = 0, sb_capa = 0, sb_str = None\<rparr>"

text \<open>The loop \<open>while (self->capa <= newsz) self->capa += SBCHUNKSZ\<close>.\<close>

function sb_grow :: "nat \<Rightarrow> nat \<Rightarrow> nat" where
  "sb_grow capa newsz = (if capa \<le> newsz then sb_grow (capa + SBCHUNKSZ) newsz else capa)"
  by pat_completeness auto
termination
  by (relation "measure (\<lambda>(capa, newsz). Suc newsz - capa)") auto

declare sb_grow.simps [simp del]

text \<open>\<open>IB_xrealloc\<close> of a possibly null buffer to a larger size.\<close>

definition sb_realloc :: "char array option \<Rightarrow> nat \<Rightarrow> char array" where
  "sb_realloc str capa = (let old = (case str of None \<Rightarrow> [] | Some buf \<Rightarrow> buf)
                          in take capa old @ uninit (capa - length old))"

definition IBStringBuilder_append :: "IBStringBuilder \<Rightarrow> string \<Rightarrow> IBStringBuilder result" where
  "IBStringBuilder_append self str =
     (let newsz = sb_size self + length str;
          self = (if sb_capa self \<le> newsz
                  then (let capa = sb_grow (sb_capa self) newsz
                        in self\<lparr>sb_capa := capa, sb_str := Some (sb_realloc (sb_str self) capa)\<rparr>)
                  else self)
      in case sb_str self of
           None \<Rightarrow> Inl NullDeref
         | Some buf \<Rightarrow> bind_result (strcpy_at buf (sb_size self) str)
             (\<lambda>buf. Inr (self\<lparr>sb_str := Some buf, sb_size := newsz\<rparr>)))"

definition IBStringBuilder_str :: "IBStringBuilder \<Rightarrow> char array option" where
  "IBStringBuilder_str self = sb_str self"

section \<open>Correctness\<close>

text \<open>The buffer holds the text, its terminator and nothing but room behind them.\<close>

definition sb_holds :: "IBStringBuilder \<Rightarrow> string \<Rightarrow> bool" where
  "sb_holds b s \<longleftrightarrow> sb_size b = length s \<and>
     (case sb_str b of None \<Rightarrow> sb_capa b = 0 \<and> s = []
      | Some buf \<Rightarrow> length buf = sb_capa b \<and> length s < sb_capa b \<and> sb_capa b mod SBCHUNKSZ = 0
          \<and> take (length s + 1) buf = map Some (s @ [NUL]))"

lemma sb_grow_bounds:
  "newsz < sb_grow capa newsz \<and> capa \<le> sb_grow capa newsz \<and> sb_grow capa newsz mod SBCHUNKSZ = capa mod SBCHUNKSZ
    \<and> (capa \<le> newsz \<longrightarrow> sb_grow capa newsz \<le> newsz + SBCHUNKSZ)"
proof (induction capa newsz rule: sb_grow.induct)
  case (1 capa newsz)
  show ?case
  proof (cases "capa \<le> newsz")
    case True
    with 1 show ?thesis
      by (cases "capa + SBCHUNKSZ \<le> newsz")
        (auto simp: sb_grow.simps [of capa] sb_grow.simps [of "capa + SBCHUNKSZ"])
  qed (simp add: sb_grow.simps [of capa])
qed

lemma strcpy_at_take:
  assumes "p + length s < length buf" "take p buf = map Some t" "length t = p"
  shows "\<exists>buf'. strcpy_at buf p s = Inr buf' \<and> length buf' = length buf
    \<and> take (p + length s + 1) buf' = map Some (t @ s @ [NUL])"
  using assms by (simp add: strcpy_at_def)

lemma IBStringBuilder_append_holds:
  assumes "sb_holds b t"
  shows "\<exists>b'. IBStringBuilder_append b s = Inr b' \<and> sb_holds b' (t @ s) \<and> sb_str b' \<noteq> None"
proof -
  let ?new = "length t + length s"
  let ?capa = "if sb_capa b \<le> ?new then sb_grow (sb_capa b) ?new else sb_capa b"
  note g = sb_grow_bounds [of ?new "sb_capa b"]
  define buf where "buf = (if sb_capa b \<le> ?new then sb_realloc (sb_str b) ?capa else the (sb_str b))"
  have "length buf = ?capa \<and> take (length t) buf = map Some t \<and> ?new < ?capa \<and> ?capa mod SBCHUNKSZ = 0
      \<and> (sb_str b = None \<longrightarrow> sb_capa b \<le> ?new)"
  proof (cases "sb_str b")
    case None
    with assms g show ?thesis by (auto simp: sb_holds_def buf_def sb_realloc_def)
  next
    case (Some old)
    then have old: "length old = sb_capa b" "length t < sb_capa b" "sb_capa b mod SBCHUNKSZ = 0"
        "take (length t + 1) old = map Some (t @ [NUL])"
      using assms by (simp_all add: sb_holds_def)
    have "take (length t) old = take (length t) (take (length t + 1) old)" by (simp add: min_def)
    also have "\<dots> = map Some t" by (simp only: old(4)) simp
    finally show ?thesis
      using old g Some by (auto simp: buf_def sb_realloc_def)
  qed
  then obtain buf' where buf': "strcpy_at buf (length t) s = Inr buf'" "length buf' = ?capa"
      "take (length t + length s + 1) buf' = map Some (t @ s @ [NUL])"
      "?new < ?capa" "?capa mod SBCHUNKSZ = 0" "sb_str b = None \<longrightarrow> sb_capa b \<le> ?new"
    using strcpy_at_take [of "length t" s buf t] by auto
  let ?b = "b\<lparr>sb_capa := ?capa, sb_str := Some buf', sb_size := ?new\<rparr>"
  have "IBStringBuilder_append b s = Inr ?b"
  proof (cases "sb_capa b \<le> ?new")
    case True
    with buf' assms show ?thesis
      by (simp add: IBStringBuilder_append_def Let_def buf_def sb_holds_def)
  next
    case False
    then obtain old where "sb_str b = Some old" using buf' by auto
    with False buf' assms show ?thesis
      by (simp add: IBStringBuilder_append_def Let_def buf_def sb_holds_def)
  qed
  moreover have "sb_holds ?b (t @ s)" using buf' by (simp add: sb_holds_def)
  ultimately show ?thesis by auto
qed

fun append_all :: "IBStringBuilder \<Rightarrow> string list \<Rightarrow> IBStringBuilder result" where
  "append_all b [] = Inr b"
| "append_all b (s # ss) = bind_result (IBStringBuilder_append b s) (\<lambda>b. append_all b ss)"

lemma append_all_holds:
  "sb_holds b t \<Longrightarrow> \<exists>b'. append_all b ss = Inr b' \<and> sb_holds b' (t @ concat ss) \<and>
    (ss \<noteq> [] \<or> sb_str b \<noteq> None \<longrightarrow> sb_str b' \<noteq> None) \<and> (ss = [] \<longrightarrow> b' = b)"
proof (induction ss arbitrary: b t)
  case (Cons s ss)
  obtain b1 where b1: "IBStringBuilder_append b s = Inr b1" "sb_holds b1 (t @ s)" "sb_str b1 \<noteq> None"
    using IBStringBuilder_append_holds [OF Cons.prems] by blast
  from Cons.IH [OF b1(2)] b1 show ?case by auto
qed simp

text \<open>What the buffer denotes: the bytes before the first terminator.\<close>

definition sb_cstr :: "IBStringBuilder \<Rightarrow> string option" where
  "sb_cstr b = (case IBStringBuilder_str b of None \<Rightarrow> None | Some buf \<Rightarrow> Some (cstr (map the buf)))"

lemma cstr_take_NUL:
  assumes "is_cstr s" "take (length s + 1) buf = map Some (s @ [NUL])"
  shows "cstr (map the buf) = s"
proof -
  have "buf = map Some (s @ [NUL]) @ drop (length s + 1) buf"
    using assms(2) by (metis append_take_drop_id)
  then have "map the buf = s @ NUL # map the (drop (length s + 1) buf)"
    by (metis (no_types, lifting) append_Cons append_assoc list.map_comp map_append map_idI
        option.sel self_append_conv2 comp_apply append_Nil)
  then show ?thesis using assms(1) by (simp add: cstr_def is_cstr_def takeWhile_append)
qed

text \<open>Appending any C strings to a new builder never writes outside its buffer, and
  the built string is their concatenation; without any append there is no string at all
  (\<open>NULL\<close>), although the header promises one.\<close>

theorem IBStringBuilder_concat:
  assumes "list_all is_cstr ss"
  shows "\<exists>b. append_all IBStringBuilder_create ss = Inr b \<and>
    sb_cstr b = (if ss = [] then None else Some (concat ss))"
proof -
  have "sb_holds IBStringBuilder_create []"
    by (simp add: sb_holds_def IBStringBuilder_create_def)
  from append_all_holds [OF this, of ss] obtain b where b: "append_all IBStringBuilder_create ss = Inr b"
      "sb_holds b (concat ss)" "ss \<noteq> [] \<longrightarrow> sb_str b \<noteq> None" "ss = [] \<longrightarrow> b = IBStringBuilder_create"
    by auto
  have "is_cstr (concat ss)" using assms by (induction ss) simp_all
  then have "sb_cstr b = (if ss = [] then None else Some (concat ss))"
    using b cstr_take_NUL [of "concat ss"]
    by (auto simp: sb_cstr_def IBStringBuilder_str_def sb_holds_def IBStringBuilder_create_def split: option.splits)
  with b(1) show ?thesis by blast
qed

theorem IBStringBuilder_concat_witness:
  "\<exists>b. append_all IBStringBuilder_create [''ab'', '''', ''c''] = Inr b \<and> sb_cstr b = Some ''abc''"
  using IBStringBuilder_concat [of "[''ab'', '''', ''c'']"] by simp

end
