(* ===== verification/Events.thy ===== *)
theory Events
  imports Prelude
begin

text \<open>
  \<open>src/lib/ircbot/event.c\<close>: the list of an event's handlers and the loop that raises it. A
  handler can register and unregister handlers of the event it is called for, so the raise
  is a loop over the live state: the world \<open>'w\<close> holds the event (read by \<open>get\<close>), and
  \<open>invoke\<close> is the call of a handler, which gives a new world.
\<close>

section \<open>State and operations\<close>

abbreviation EVCHUNKSIZE :: nat where "EVCHUNKSIZE \<equiv> 4"

record ('r, 'h) EvHandler =
  eh_receiver :: 'r
  eh_handler :: "'h option"
  eh_id :: int

record ('r, 'h) Event =
  ev_handlers :: "('r, 'h) EvHandler array"
  ev_size :: nat
  ev_capa :: nat
  ev_dirty :: bool

definition Event_create :: "('r, 'h) Event" where
  "Event_create = \<lparr>ev_handlers = [], ev_size = 0, ev_capa = 0, ev_dirty = False\<rparr>"

text \<open>
  Dropping the unregistered entries. After a removal \<open>--pos\<close> and the loop's \<open>++pos\<close> cancel
  modulo the width of \<open>size_t\<close>.
\<close>

function compact_loop :: "nat \<Rightarrow> ('r, 'h) EvHandler array \<Rightarrow> nat \<Rightarrow> ('r, 'h) EvHandler array \<times> nat" where
  "compact_loop pos handlers num =
     (if pos < num
      then (if eh_handler (the (handlers ! pos)) = None
            then compact_loop pos
                   (if pos < num - 1 then memmove handlers pos (pos + 1) (num - 1 - pos) else handlers) (num - 1)
            else compact_loop (pos + 1) handlers num)
      else (handlers, num))"
  by pat_completeness auto
termination
  by (relation "measure (\<lambda>(pos, handlers, num). num - pos)") auto

declare compact_loop.simps [simp del]

definition Event_register :: "('r, 'h) Event \<Rightarrow> 'r \<Rightarrow> 'h \<Rightarrow> int \<Rightarrow> ('r, 'h) Event" where
  "Event_register self receiver handler evid =
     (let self = (if ev_dirty self
                  then (case compact_loop 0 (ev_handlers self) (ev_size self) of (handlers, num) \<Rightarrow>
                          self\<lparr>ev_handlers := handlers, ev_size := num, ev_dirty := False\<rparr>)
                  else self);
          self = (if ev_size self = ev_capa self
                  then self\<lparr>ev_capa := ev_capa self + EVCHUNKSIZE,
                            ev_handlers := ev_handlers self @ uninit EVCHUNKSIZE\<rparr>
                  else self)
      in self\<lparr>ev_handlers := (ev_handlers self)[ev_size self :=
                Some \<lparr>eh_receiver = receiver, eh_handler = Some handler, eh_id = evid\<rparr>],
              ev_size := ev_size self + 1\<rparr>)"

text \<open>The search loop of \<open>Event_unregister\<close> from position \<open>pos\<close>.\<close>

function unregister_loop :: "'r \<Rightarrow> 'h \<Rightarrow> int \<Rightarrow> nat \<Rightarrow> ('r, 'h) Event \<Rightarrow> ('r, 'h) Event" where
  "unregister_loop receiver handler evid pos self =
     (if pos < ev_size self
      then (let h = the (ev_handlers self ! pos) in
            if eh_receiver h = receiver \<and> eh_handler h = Some handler \<and> eh_id h = evid
            then self\<lparr>ev_handlers := (ev_handlers self)[pos := Some (h\<lparr>eh_handler := None\<rparr>)], ev_dirty := True\<rparr>
            else unregister_loop receiver handler evid (pos + 1) self)
      else self)"
  by pat_completeness auto
termination
  by (relation "measure (\<lambda>(r, h, evid, pos, self). ev_size self - pos)") auto

declare unregister_loop.simps [simp del]

definition Event_unregister :: "('r, 'h) Event \<Rightarrow> 'r \<Rightarrow> 'h \<Rightarrow> int \<Rightarrow> ('r, 'h) Event" where
  "Event_unregister self receiver handler evid = unregister_loop receiver handler evid 0 self"

text \<open>
  The argument of a handler: null, the caller's, or (for a null argument and an id other
  than 0) a pointer to the id.
\<close>

datatype 'a EventArgs = NoArgs | IdArgs int | Args 'a

definition effective_args :: "int \<Rightarrow> 'a EventArgs \<Rightarrow> 'a EventArgs" where
  "effective_args evid args = (if args = NoArgs \<and> evid \<noteq> 0 then IdArgs evid else args)"

partial_function (option) raise_loop ::
    "('w \<Rightarrow> ('r, 'h) Event) \<Rightarrow> ('h \<Rightarrow> 'r \<Rightarrow> 'a EventArgs \<Rightarrow> 'w \<Rightarrow> 'w) \<Rightarrow> int \<Rightarrow> nat \<Rightarrow> 'a EventArgs \<Rightarrow> 'w \<Rightarrow> 'w option" where
  "raise_loop get invoke evid i args w =
     (if i < ev_size (get w)
      then (let h = the (ev_handlers (get w) ! i) in
            if eh_id h = evid \<and> eh_handler h \<noteq> None
            then (let args = effective_args evid args in
                  raise_loop get invoke evid (i + 1) args (invoke (the (eh_handler h)) (eh_receiver h) args w))
            else raise_loop get invoke evid (i + 1) args w)
      else Some w)"

definition Event_raise ::
    "('w \<Rightarrow> ('r, 'h) Event) \<Rightarrow> ('h \<Rightarrow> 'r \<Rightarrow> 'a EventArgs \<Rightarrow> 'w \<Rightarrow> 'w) \<Rightarrow> int \<Rightarrow> 'a EventArgs \<Rightarrow> 'w \<Rightarrow> 'w option" where
  "Event_raise get invoke evid args w = raise_loop get invoke evid 0 args w"

section \<open>Well-formedness and the live handlers\<close>

definition is_live :: "('r, 'h) EvHandler \<Rightarrow> bool" where
  "is_live h \<longleftrightarrow> eh_handler h \<noteq> None"

lemma handler_None: "eh_handler h = None \<longleftrightarrow> \<not> is_live h"
  by (simp add: is_live_def)

lemma is_live_Some: "is_live h \<Longrightarrow> \<exists>f. eh_handler h = Some f"
  by (simp add: is_live_def)

definition Event_ok :: "('r, 'h) Event \<Rightarrow> bool" where
  "Event_ok e \<longleftrightarrow> length (ev_handlers e) = ev_capa e \<and> ev_size e \<le> ev_capa e
     \<and> filled (ev_size e) (ev_handlers e)
     \<and> (ev_dirty e \<or> (\<forall>h\<in>set (cells (ev_size e) (ev_handlers e)). is_live h))"

definition ev_entries :: "('r, 'h) Event \<Rightarrow> ('r, 'h) EvHandler list" where
  "ev_entries e = cells (ev_size e) (ev_handlers e)"

text \<open>The registrations in force, in the order they were made.\<close>

definition registered :: "('r, 'h) Event \<Rightarrow> ('r, 'h) EvHandler list" where
  "registered e = filter is_live (ev_entries e)"

definition registration :: "'r \<Rightarrow> 'h \<Rightarrow> int \<Rightarrow> ('r, 'h) EvHandler" where
  "registration r h evid = \<lparr>eh_receiver = r, eh_handler = Some h, eh_id = evid\<rparr>"

lemma Event_create_ok: "Event_ok Event_create" "registered Event_create = []"
  by (simp_all add: Event_ok_def Event_create_def registered_def ev_entries_def)

lemma length_ev_entries: "Event_ok e \<Longrightarrow> length (ev_entries e) = ev_size e"
  by (simp add: ev_entries_def Event_ok_def length_cells)

lemma ev_entry_at: "Event_ok e \<Longrightarrow> i < ev_size e \<Longrightarrow> the (ev_handlers e ! i) = ev_entries e ! i"
  by (simp add: ev_entries_def Event_ok_def cells_nth)

lemma compact_loop_end: "\<not> pos < n \<Longrightarrow> compact_loop pos hs n = (hs, n)"
  by (simp add: compact_loop.simps)

lemma compact_loop_correct:
  "filled num hs \<Longrightarrow> pos \<le> num \<Longrightarrow> compact_loop pos hs num = (hs', n') \<Longrightarrow>
    length hs' = length hs \<and> n' \<le> num \<and> filled n' hs' \<and>
    cells n' hs' = take pos (cells num hs) @ filter is_live (drop pos (cells num hs))"
proof (induction pos hs num rule: compact_loop.induct)
  case (1 pos hs num)
  note fill = "1.prems"(1)
  have len: "length (cells num hs) = num" using fill by (rule length_cells)
  show ?case
  proof (cases "pos < num")
    case False
    with "1.prems" len show ?thesis
      by (simp add: compact_loop_end)
  next
    case True
    have at: "the (hs ! pos) = cells num hs ! pos" using fill True by (simp add: cells_nth)
    have split: "drop pos (cells num hs) = cells num hs ! pos # drop (Suc pos) (cells num hs)"
      using True len by (simp add: Cons_nth_drop_Suc)
    show ?thesis
    proof (cases "is_live (cells num hs ! pos)")
      case live: True
      then have "compact_loop (pos + 1) hs num = (hs', n')"
        using "1.prems"(3) True at by (simp add: compact_loop.simps [of pos] handler_None)
      from "1.IH"(2) [OF True _ fill _ this] live True at split len show ?thesis
        by (simp add: handler_None take_Suc_conv_app_nth)
    next
      case dead: False
      let ?hs = "if pos < num - 1 then memmove hs pos (pos + 1) (num - 1 - pos) else hs"
      have n: "num \<le> length hs" using fill by (simp add: filled_def)
      have step: "compact_loop pos ?hs (num - 1) = (hs', n')"
        using "1.prems"(3) True at dead by (simp add: compact_loop.simps [of pos hs] handler_None)
      have gap: "filled (num - 1) ?hs \<and> length ?hs = length hs \<and>
          cells (num - 1) ?hs = take pos (cells num hs) @ drop (Suc pos) (cells num hs)"
      proof (cases "pos < num - 1")
        case True
        with fill n show ?thesis
          using filled_memmove_gap [OF fill, of pos] cells_memmove_gap [of pos num hs]
          by (simp add: length_memmove)
      next
        case False
        with True have s: "num = Suc pos" by simp
        with fill n show ?thesis
          by (auto simp: cells_def take_map min_def intro: filled_mono)
      qed
      have "pos \<le> num - 1" using True by simp
      from "1.IH"(1) [OF True _ _ this step] gap dead at split len True show ?thesis
        by (simp add: handler_None) linarith
    qed
  qed
qed

section \<open>Registering and unregistering\<close>

lemma Event_register_correct:
  assumes "Event_ok e"
  shows "Event_ok (Event_register e r h evid)"
    and "registered (Event_register e r h evid) = registered e @ [registration r h evid]"
proof -
  define e1 where "e1 = (if ev_dirty e
                  then (case compact_loop 0 (ev_handlers e) (ev_size e) of (handlers, num) \<Rightarrow>
                          e\<lparr>ev_handlers := handlers, ev_size := num, ev_dirty := False\<rparr>)
                  else e)"
  have e1: "Event_ok e1 \<and> registered e1 = registered e"
  proof (cases "ev_dirty e")
    case True
    obtain hs n where c: "compact_loop 0 (ev_handlers e) (ev_size e) = (hs, n)" by fastforce
    with compact_loop_correct [OF _ _ c] assms True show ?thesis
      by (auto simp: e1_def Event_ok_def registered_def ev_entries_def)
  qed (use assms in \<open>simp add: e1_def\<close>)
  define e2 where "e2 = (if ev_size e1 = ev_capa e1
                  then e1\<lparr>ev_capa := ev_capa e1 + EVCHUNKSIZE,
                            ev_handlers := ev_handlers e1 @ uninit EVCHUNKSIZE\<rparr>
                  else e1)"
  have e2: "Event_ok e2 \<and> registered e2 = registered e \<and> ev_size e2 < ev_capa e2"
    using e1 by (auto simp: e2_def Event_ok_def registered_def ev_entries_def array_simps)
  have reg: "Event_register e r h evid = e2\<lparr>ev_handlers := (ev_handlers e2)[ev_size e2 :=
      Some (registration r h evid)], ev_size := ev_size e2 + 1\<rparr>"
    by (simp add: Event_register_def Let_def e1_def e2_def registration_def)
  show "Event_ok (Event_register e r h evid)"
    and "registered (Event_register e r h evid) = registered e @ [registration r h evid]"
    using e2 unfolding reg
    by (auto simp: Event_ok_def registered_def ev_entries_def array_simps is_live_def registration_def)
qed

text \<open>Clearing the first entry that matches a registration.\<close>

fun clear_first :: "('r, 'h) EvHandler \<Rightarrow> ('r, 'h) EvHandler list \<Rightarrow> ('r, 'h) EvHandler list" where
  "clear_first r [] = []"
| "clear_first r (x # xs) = (if x = r then x\<lparr>eh_handler := None\<rparr> # xs else x # clear_first r xs)"

lemma clear_first_live:
  "is_live r \<Longrightarrow> filter is_live (clear_first r xs) = remove1 r (filter is_live xs)"
  by (induction xs) (auto simp: is_live_def)

lemma registration_live [simp]: "is_live (registration r h evid)"
  by (simp add: registration_def is_live_def)

lemma register_clean: "\<not> ev_dirty (Event_register e r h evid)"
  by (simp add: Event_register_def Let_def split: prod.split)

lemma clean_entries: "Event_ok e \<Longrightarrow> \<not> ev_dirty e \<Longrightarrow> ev_entries e = registered e"
  by (simp add: Event_ok_def registered_def ev_entries_def)

lemma unregister_loop_correct:
  "Event_ok e \<Longrightarrow> pos \<le> ev_size e \<Longrightarrow>
    Event_ok (unregister_loop r h evid pos e) \<and> ev_size (unregister_loop r h evid pos e) = ev_size e \<and>
    ev_entries (unregister_loop r h evid pos e)
      = take pos (ev_entries e) @ clear_first (registration r h evid) (drop pos (ev_entries e))"
proof (induction r h evid pos e rule: unregister_loop.induct)
  case (1 r h evid pos e)
  note ok = "1.prems"(1)
  show ?case
  proof (cases "pos < ev_size e")
    case False
    with "1.prems" show ?thesis by (simp add: unregister_loop.simps [of r] length_ev_entries)
  next
    case True
    let ?x = "ev_entries e ! pos"
    have at: "the (ev_handlers e ! pos) = ?x" using ok True by (rule ev_entry_at)
    have split: "drop pos (ev_entries e) = ?x # drop (Suc pos) (ev_entries e)"
      using True ok by (simp add: Cons_nth_drop_Suc length_ev_entries)
    show ?thesis
    proof (cases "?x = registration r h evid")
      case hit: True
      let ?e = "e\<lparr>ev_handlers := (ev_handlers e)[pos := Some (?x\<lparr>eh_handler := None\<rparr>)], ev_dirty := True\<rparr>"
      have eq: "unregister_loop r h evid pos e = ?e"
        using True hit at by (simp add: unregister_loop.simps [of r] registration_def Let_def)
      have "ev_entries ?e = (ev_entries e)[pos := ?x\<lparr>eh_handler := None\<rparr>]"
        using ok True by (simp add: ev_entries_def cells_def take_update_swap map_update)
      also have "\<dots> = take pos (ev_entries e) @ ?x\<lparr>eh_handler := None\<rparr> # drop (Suc pos) (ev_entries e)"
        using ok True by (simp add: upd_conv_take_nth_drop length_ev_entries)
      finally have ents: "ev_entries ?e = \<dots>" .
      have "Event_ok ?e" using ok True by (auto simp: Event_ok_def filled_def nth_list_update)
      with ents hit split show ?thesis by (simp add: eq)
    next
      case False
      then have miss: "\<not> (eh_receiver ?x = r \<and> eh_handler ?x = Some h \<and> eh_id ?x = evid)"
        by (auto simp: registration_def)
      then have step: "unregister_loop r h evid pos e = unregister_loop r h evid (pos + 1) e"
        by (subst unregister_loop.simps) (use True at miss in \<open>auto simp: Let_def\<close>)
      have "Event_ok (unregister_loop r h evid (pos + 1) e) \<and>
          ev_size (unregister_loop r h evid (pos + 1) e) = ev_size e \<and>
          ev_entries (unregister_loop r h evid (pos + 1) e)
            = take (pos + 1) (ev_entries e) @ clear_first (registration r h evid) (drop (pos + 1) (ev_entries e))"
        using "1.IH" [OF True refl] True at miss ok by simp
      then show ?thesis
        using False split True ok by (simp add: step take_Suc_conv_app_nth length_ev_entries)
    qed
  qed
qed

lemma Event_unregister_correct:
  assumes "Event_ok e"
  shows "Event_ok (Event_unregister e r h evid)" "ev_size (Event_unregister e r h evid) = ev_size e"
    and "ev_entries (Event_unregister e r h evid) = clear_first (registration r h evid) (ev_entries e)"
    and "registered (Event_unregister e r h evid) = remove1 (registration r h evid) (registered e)"
  using unregister_loop_correct [OF assms, of 0 r h evid]
  by (simp_all add: Event_unregister_def registered_def clear_first_live)

section \<open>Raising\<close>

definition call_handler :: "('h \<Rightarrow> 'r \<Rightarrow> 'a EventArgs \<Rightarrow> 'w \<Rightarrow> 'w) \<Rightarrow> 'a EventArgs \<Rightarrow> ('r, 'h) EvHandler \<Rightarrow> 'w \<Rightarrow> 'w" where
  "call_handler invoke args h w = invoke (the (eh_handler h)) (eh_receiver h) args w"

text \<open>The handlers of an event that a raise for an id calls.\<close>

definition addressed :: "int \<Rightarrow> ('r, 'h) EvHandler list \<Rightarrow> ('r, 'h) EvHandler list" where
  "addressed evid hs = filter (\<lambda>h. eh_id h = evid \<and> is_live h) hs"

lemma effective_args_idem [simp]: "effective_args i (effective_args i a) = effective_args i a"
  by (auto simp: effective_args_def)

lemma raise_loop_stop: "\<not> i < ev_size (get w) \<Longrightarrow> raise_loop get invoke evid i args w = Some w"
  by (simp add: raise_loop.simps)

lemma raise_loop_step:
  assumes "Event_ok (get w)" "i < ev_size (get w)" "ev_entries (get w) ! i = h"
  shows "raise_loop get invoke evid i args w =
    (if eh_id h = evid \<and> is_live h
     then raise_loop get invoke evid (i + 1) (effective_args evid args) (call_handler invoke (effective_args evid args) h w)
     else raise_loop get invoke evid (i + 1) args w)"
  by (subst raise_loop.simps)
    (use assms ev_entry_at [OF assms(1,2)] in \<open>simp add: call_handler_def handler_None Let_def\<close>)

text \<open>While no handler touches the event, each addressed handler is called once, in order.\<close>

lemma raise_loop_quiet:
  assumes "Event_ok e" "get w = e"
    and "\<forall>h\<in>set (addressed evid (drop i (ev_entries e))). \<forall>a w. get w = e \<longrightarrow> get (call_handler invoke a h w) = e"
  shows "raise_loop get invoke evid i args w
    = Some (fold (call_handler invoke (effective_args evid args)) (addressed evid (drop i (ev_entries e))) w)"
  using assms
proof (induction "ev_size e - i" arbitrary: i args w)
  case 0
  then show ?case by (simp add: raise_loop_stop length_ev_entries addressed_def)
next
  case (Suc n)
  then have i: "i < ev_size e" by simp
  let ?h = "ev_entries e ! i"
  have split: "drop i (ev_entries e) = ?h # drop (Suc i) (ev_entries e)"
    using i Suc.prems(1) by (simp add: Cons_nth_drop_Suc length_ev_entries)
  have n: "n = ev_size e - Suc i" using Suc.hyps(2) by simp
  show ?case
  proof (cases "eh_id ?h = evid \<and> is_live ?h")
    case True
    let ?w = "call_handler invoke (effective_args evid args) ?h w"
    have "get ?w = e" using Suc.prems True by (simp add: split addressed_def)
    moreover have "\<forall>h\<in>set (addressed evid (drop (Suc i) (ev_entries e))).
        \<forall>a w. get w = e \<longrightarrow> get (call_handler invoke a h w) = e"
      using Suc.prems(3) by (simp add: split addressed_def)
    ultimately show ?thesis
      using Suc.hyps(1) [OF n Suc.prems(1), of ?w "effective_args evid args"] True
        raise_loop_step [of get w i ?h invoke evid args] Suc.prems(1,2) i split
      by (simp add: addressed_def)
  next
    case False
    then have "raise_loop get invoke evid i args w = raise_loop get invoke evid (Suc i) args w"
      using raise_loop_step [of get w i ?h invoke evid args] Suc.prems(1,2) i by auto
    moreover have "addressed evid (drop i (ev_entries e)) = addressed evid (drop (Suc i) (ev_entries e))"
      using False by (simp add: split addressed_def)
    ultimately show ?thesis
      using Suc.hyps(1) [OF n Suc.prems(1,2), of args] Suc.prems(3) by simp
  qed
qed

lemma addressed_registered: "addressed evid (ev_entries e) = filter (\<lambda>h. eh_id h = evid) (registered e)"
  by (simp add: addressed_def registered_def conj_commute)

text \<open>C29: when the handlers called leave the event alone, a raise returns, and it has
  called exactly the handlers registered for the id, once each, in the order of their
  registration; with a null argument they get the id when it is not 0.\<close>

theorem Event_raise_calls:
  assumes "Event_ok (get w)"
    and "\<forall>h\<in>set (registered (get w)). \<forall>a v. get v = get w \<longrightarrow> get (call_handler invoke a h v) = get w"
  shows "Event_raise get invoke evid args w
    = Some (fold (call_handler invoke (effective_args evid args)) (filter (\<lambda>h. eh_id h = evid) (registered (get w))) w)"
proof -
  have "raise_loop get invoke evid 0 args w
      = Some (fold (call_handler invoke (effective_args evid args)) (addressed evid (drop 0 (ev_entries (get w)))) w)"
    using assms by (intro raise_loop_quiet) (auto simp: addressed_registered)
  then show ?thesis by (simp add: Event_raise_def addressed_registered)
qed

text \<open>A world of one event and a log of the handlers called with their receivers and arguments.\<close>

type_synonym log_world = "(nat, nat) Event \<times> (nat \<times> nat \<times> unit EventArgs) list"

definition log_call :: "nat \<Rightarrow> nat \<Rightarrow> unit EventArgs \<Rightarrow> log_world \<Rightarrow> log_world" where
  "log_call h r a w = (fst w, snd w @ [(h, r, a)])"

theorem Event_raise_calls_witness:
  "Event_raise fst log_call 4 NoArgs (Event_register (Event_register (Event_register Event_create 1 10 4) 2 20 0) 3 30 4, [])
     = Some (Event_register (Event_register (Event_register Event_create 1 10 4) 2 20 0) 3 30 4,
             [(10, 1, IdArgs 4), (30, 3, IdArgs 4)])"
  using Event_raise_calls [of fst "(Event_register (Event_register (Event_register Event_create 1 10 4) 2 20 0) 3 30 4, [])"
      log_call 4 NoArgs]
  by (simp add: Event_register_correct Event_create_ok registration_def call_handler_def log_call_def effective_args_def)

lemma raise_loop_returns:
  assumes "\<forall>h r a w. ev_size (get (invoke h r a w)) \<le> ev_size (get w)"
  shows "raise_loop get invoke evid i args w \<noteq> None"
proof (induction "ev_size (get w) - i" arbitrary: i args w rule: less_induct)
  case less
  show ?case
  proof (cases "i < ev_size (get w)")
    case True
    have "ev_size (get (invoke h r a w)) - (i + 1) < ev_size (get w) - i" for h r a
    proof -
      have "ev_size (get (invoke h r a w)) \<le> ev_size (get w)" using assms by blast
      with True show ?thesis by linarith
    qed
    moreover have "ev_size (get w) - (i + 1) < ev_size (get w) - i" using True by simp
    ultimately show ?thesis
      using less.hyps by (subst raise_loop.simps) (auto simp: Let_def)
  qed (simp add: raise_loop_stop)
qed

text \<open>A raise always returns when no handler adds handlers to the event, whatever else
  the handlers do to it.\<close>

theorem Event_raise_returns:
  assumes "\<forall>h r a w. ev_size (get (invoke h r a w)) \<le> ev_size (get w)"
  shows "\<exists>w'. Event_raise get invoke evid args w = Some w'"
  using raise_loop_returns [OF assms] by (simp add: Event_raise_def)

theorem Event_raise_returns_witness:
  "\<exists>w. Event_raise fst log_call 0 NoArgs (Event_register Event_create 1 10 0, []) = Some w"
  using Event_raise_returns [of fst log_call 0 NoArgs "(Event_register Event_create 1 10 0, [])"]
  by (simp add: log_call_def)

text \<open>
  A handler that replaces itself while it runs: it unregisters itself and registers
  \<open>new\<close>, as the bot's tick handler for joining channels can do.
\<close>

definition swap_call :: "nat \<Rightarrow> nat \<Rightarrow> int \<Rightarrow> nat \<Rightarrow> nat \<Rightarrow> unit EventArgs \<Rightarrow> log_world \<Rightarrow> log_world" where
  "swap_call old new evid h r a w =
     (let e = (if h = old then Event_register (Event_unregister (fst w) r old evid) r new evid else fst w)
      in (e, snd w @ [(h, r, a)]))"

lemma fold_swap_call:
  "\<forall>h\<in>set hs. eh_handler h \<noteq> Some old \<and> is_live h \<Longrightarrow>
    snd (fold (call_handler (swap_call old new evid) a) hs (e, l))
      = l @ map (\<lambda>h. (the (eh_handler h), eh_receiver h, a)) hs"
  by (induction hs arbitrary: l)
    (auto simp: call_handler_def swap_call_def is_live_def)

text \<open>Replacing a handler from inside a raise makes the raise skip the next one. The
  registration compacts the array, the entries behind move down by one, and the loop goes
  on with the next index: the handler registered directly behind is not called this time,
  all the others and the new one are.\<close>

theorem Event_raise_skips:
  assumes "Event_ok e" "registered e = registration r old evid # next # rest" "\<not> ev_dirty e"
    and "\<forall>h\<in>set rest. eh_handler h \<noteq> Some old" "new \<noteq> old"
  shows "case Event_raise fst (swap_call old new evid) evid NoArgs (e, []) of None \<Rightarrow> False
    | Some w \<Rightarrow> snd w = map (\<lambda>h. (the (eh_handler h), eh_receiver h, effective_args evid NoArgs))
        (registration r old evid # filter (\<lambda>h. eh_id h = evid) rest @ [registration r new evid])"
proof -
  let ?a = "effective_args evid NoArgs :: unit EventArgs" and ?sw = "swap_call old new evid"
  let ?e = "Event_register (Event_unregister e r old evid) r new evid"
  have e: "ev_entries e = registered e" using clean_entries [OF assms(1,3)] by simp
  have size: "0 < ev_size e" using assms(2) e length_ev_entries [OF assms(1)] by simp
  note un = Event_unregister_correct [OF assms(1), of r old evid]
  note re = Event_register_correct [OF un(1), of r new evid]
  have live: "\<forall>h\<in>set (next # rest). is_live h"
  proof -
    have "\<forall>h\<in>set (registered e). is_live h" by (simp add: registered_def)
    then show ?thesis using assms(2) by simp
  qed
  have ents: "ev_entries ?e = next # rest @ [registration r new evid]"
    using re un clean_entries [OF re(1) register_clean] assms(2) by simp
  have first: "raise_loop fst ?sw evid 0 NoArgs (e, []) = raise_loop fst ?sw evid 1 ?a (?e, [(old, r, ?a)])"
    using raise_loop_step [of fst "(e, [] :: (nat \<times> nat \<times> unit EventArgs) list)" 0 "registration r old evid" ?sw evid NoArgs]
      assms(1,2) e size
    by (simp add: registration_def is_live_def call_handler_def swap_call_def)
  have quiet: "\<forall>h\<in>set (addressed evid (drop 1 (ev_entries ?e))). \<forall>a w. fst w = ?e \<longrightarrow> fst (call_handler ?sw a h w) = ?e"
    using assms(4,5) by (auto simp: ents addressed_def call_handler_def swap_call_def registration_def is_live_def)
  define hs where "hs = filter (\<lambda>h. eh_id h = evid) rest @ [registration r new evid]"
  have "addressed evid (drop 1 (ev_entries ?e)) = hs"
    using live by (auto simp: hs_def ents addressed_def registration_def is_live_def intro!: filter_cong)
  with raise_loop_quiet [OF re(1) _ quiet, of "(?e, [(old, r, ?a)])" ?a]
  have loop: "raise_loop fst ?sw evid 1 ?a (?e, [(old, r, ?a)]) = Some (fold (call_handler ?sw ?a) hs (?e, [(old, r, ?a)]))"
    by simp
  have "\<forall>h\<in>set hs. eh_handler h \<noteq> Some old \<and> is_live h"
    using assms(4,5) live by (auto simp: hs_def registration_def is_live_def)
  note trace = fold_swap_call [OF this]
  show ?thesis
    unfolding Event_raise_def first loop option.case trace
    by (simp add: hs_def registration_def)
qed

theorem Event_raise_skips_witness:
  "case Event_raise fst (swap_call 10 13 0) 0 NoArgs
     (fold (\<lambda>h e. Event_register e 7 h 0) [10, 11, 12] Event_create, []) of None \<Rightarrow> False
   | Some w \<Rightarrow> snd w = [(10, 7, NoArgs), (12, 7, NoArgs), (13, 7, NoArgs)]"
  using Event_raise_skips [of "fold (\<lambda>h e. Event_register e 7 h 0) [10, 11, 12] Event_create"
      7 10 0 "registration 7 11 0" "[registration 7 12 0]" 13]
  by (simp add: Event_register_correct Event_create_ok register_clean)
    (auto simp: registration_def effective_args_def split: option.splits)

section \<open>The registry contract\<close>

text \<open>
  What the components that own an event rely on: registering appends, unregistering
  removes the first equal registration.
\<close>

datatype 'x registry_op = Register 'x | Unregister 'x

fun registry_spec :: "'x registry_op list \<Rightarrow> 'x list \<Rightarrow> 'x list" where
  "registry_spec [] xs = xs"
| "registry_spec (Register x # ops) xs = registry_spec ops (xs @ [x])"
| "registry_spec (Unregister x # ops) xs = registry_spec ops (remove1 x xs)"

fun run_registry :: "('x \<Rightarrow> 'e \<Rightarrow> 'e) \<Rightarrow> ('x \<Rightarrow> 'e \<Rightarrow> 'e) \<Rightarrow> 'x registry_op list \<Rightarrow> 'e \<Rightarrow> 'e" where
  "run_registry reg unreg [] e = e"
| "run_registry reg unreg (Register x # ops) e = run_registry reg unreg ops (reg x e)"
| "run_registry reg unreg (Unregister x # ops) e = run_registry reg unreg ops (unreg x e)"

locale registry =
  fixes reg :: "'x \<Rightarrow> 'e \<Rightarrow> 'e" and unreg :: "'x \<Rightarrow> 'e \<Rightarrow> 'e"
    and ok :: "'e \<Rightarrow> bool" and entries :: "'e \<Rightarrow> 'y list" and entry :: "'x \<Rightarrow> 'y"
  assumes reg_law: "ok e \<Longrightarrow> ok (reg x e) \<and> entries (reg x e) = entries e @ [entry x]"
    and unreg_law: "ok e \<Longrightarrow> ok (unreg x e) \<and> entries (unreg x e) = remove1 (entry x) (entries e)"
    and entry_inj: "inj entry"
begin

lemma remove1_map_inj: "remove1 (entry x) (map entry xs) = map entry (remove1 x xs)"
  by (induction xs) (auto dest: injD [OF entry_inj])

lemma run_registry_spec:
  "ok e \<Longrightarrow> entries e = map entry xs \<Longrightarrow>
    ok (run_registry reg unreg ops e) \<and> entries (run_registry reg unreg ops e) = map entry (registry_spec ops xs)"
proof (induction ops arbitrary: e xs)
  case (Cons a ops)
  show ?case
  proof (cases a)
    case (Register x)
    have "ok (reg x e)" "entries (reg x e) = map entry (xs @ [x])"
      using reg_law [OF Cons.prems(1)] Cons.prems(2) by simp_all
    from Cons.IH [OF this] Register show ?thesis by simp
  next
    case (Unregister x)
    have "ok (unreg x e)" "entries (unreg x e) = map entry (remove1 x xs)"
      using unreg_law [OF Cons.prems(1)] Cons.prems(2) by (simp_all add: remove1_map_inj)
    from Cons.IH [OF this] Unregister show ?thesis by simp
  qed
qed simp

end

definition reg_event :: "'r \<times> 'h \<times> int \<Rightarrow> ('r, 'h) Event \<Rightarrow> ('r, 'h) Event" where
  "reg_event x e = (case x of (r, h, i) \<Rightarrow> Event_register e r h i)"

definition unreg_event :: "'r \<times> 'h \<times> int \<Rightarrow> ('r, 'h) Event \<Rightarrow> ('r, 'h) Event" where
  "unreg_event x e = (case x of (r, h, i) \<Rightarrow> Event_unregister e r h i)"

interpretation evreg: registry reg_event unreg_event Event_ok registered "\<lambda>(r, h, i). registration r h i"
  by unfold_locales
    (auto simp: reg_event_def unreg_event_def Event_register_correct Event_unregister_correct
      inj_def registration_def)

text \<open>C30: after any sequence of registrations and unregistrations on a new event, through
  any number of compactions and growths of its array, the handlers in force are those of
  the list of registrations: each appended at the end, each unregistration taking out the
  first equal one.\<close>

theorem Event_registrations:
  "registered (run_registry reg_event unreg_event ops Event_create)
     = map (\<lambda>(r, h, i). registration r h i) (registry_spec ops [])"
  using evreg.run_registry_spec [of Event_create "[]" ops] by (simp add: Event_create_ok)

end
