(* ===== verification/Commands.thy ===== *)
theory Commands
  imports Prelude
begin

text \<open>
  \<open>include/ircbot/irccommand.h\<close> and \<open>src/lib/ircbot/irccommand.c\<close>: the enumeration of IRC
  commands and numeric replies, and its conversions from and to the strings of the
  protocol. The enumerators are the integers the header gives them; the two \<open>switch\<close>
  statements over constants are association lists.
\<close>

section \<open>The enumeration\<close>

type_synonym IrcCommand = int

abbreviation (input) CMD_UNKNOWN :: IrcCommand where "CMD_UNKNOWN \<equiv> 0"
abbreviation (input) RPL_WELCOME :: IrcCommand where "RPL_WELCOME \<equiv> 1"
abbreviation (input) RPL_YOURHOST :: IrcCommand where "RPL_YOURHOST \<equiv> 2"
abbreviation (input) RPL_CREATED :: IrcCommand where "RPL_CREATED \<equiv> 3"
abbreviation (input) RPL_MYINFO :: IrcCommand where "RPL_MYINFO \<equiv> 4"
abbreviation (input) RPL_BOUNCE :: IrcCommand where "RPL_BOUNCE \<equiv> 5"
abbreviation (input) MSG_PASS :: IrcCommand where "MSG_PASS \<equiv> 100"
abbreviation (input) MSG_NICK :: IrcCommand where "MSG_NICK \<equiv> 101"
abbreviation (input) MSG_USER :: IrcCommand where "MSG_USER \<equiv> 102"
abbreviation (input) MSG_OPER :: IrcCommand where "MSG_OPER \<equiv> 103"
abbreviation (input) MSG_MODE :: IrcCommand where "MSG_MODE \<equiv> 104"
abbreviation (input) MSG_SERVICE :: IrcCommand where "MSG_SERVICE \<equiv> 105"
abbreviation (input) MSG_QUIT :: IrcCommand where "MSG_QUIT \<equiv> 106"
abbreviation (input) MSG_SQUIT :: IrcCommand where "MSG_SQUIT \<equiv> 107"
abbreviation (input) MSG_JOIN :: IrcCommand where "MSG_JOIN \<equiv> 108"
abbreviation (input) MSG_PART :: IrcCommand where "MSG_PART \<equiv> 109"
abbreviation (input) MSG_TOPIC :: IrcCommand where "MSG_TOPIC \<equiv> 110"
abbreviation (input) MSG_NAMES :: IrcCommand where "MSG_NAMES \<equiv> 111"
abbreviation (input) MSG_LIST :: IrcCommand where "MSG_LIST \<equiv> 112"
abbreviation (input) MSG_INVITE :: IrcCommand where "MSG_INVITE \<equiv> 113"
abbreviation (input) MSG_KICK :: IrcCommand where "MSG_KICK \<equiv> 114"
abbreviation (input) MSG_PRIVMSG :: IrcCommand where "MSG_PRIVMSG \<equiv> 115"
abbreviation (input) MSG_NOTICE :: IrcCommand where "MSG_NOTICE \<equiv> 116"
abbreviation (input) MSG_MOTD :: IrcCommand where "MSG_MOTD \<equiv> 117"
abbreviation (input) MSG_LUSERS :: IrcCommand where "MSG_LUSERS \<equiv> 118"
abbreviation (input) MSG_VERSION :: IrcCommand where "MSG_VERSION \<equiv> 119"
abbreviation (input) MSG_STATS :: IrcCommand where "MSG_STATS \<equiv> 120"
abbreviation (input) MSG_LINKS :: IrcCommand where "MSG_LINKS \<equiv> 121"
abbreviation (input) MSG_TIME :: IrcCommand where "MSG_TIME \<equiv> 122"
abbreviation (input) MSG_CONNECT :: IrcCommand where "MSG_CONNECT \<equiv> 123"
abbreviation (input) MSG_TRACE :: IrcCommand where "MSG_TRACE \<equiv> 124"
abbreviation (input) MSG_ADMIN :: IrcCommand where "MSG_ADMIN \<equiv> 125"
abbreviation (input) MSG_INFO :: IrcCommand where "MSG_INFO \<equiv> 126"
abbreviation (input) MSG_SERVLIST :: IrcCommand where "MSG_SERVLIST \<equiv> 127"
abbreviation (input) MSG_SQUERY :: IrcCommand where "MSG_SQUERY \<equiv> 128"
abbreviation (input) MSG_WHO :: IrcCommand where "MSG_WHO \<equiv> 129"
abbreviation (input) MSG_WHOIS :: IrcCommand where "MSG_WHOIS \<equiv> 130"
abbreviation (input) MSG_WHOWAS :: IrcCommand where "MSG_WHOWAS \<equiv> 131"
abbreviation (input) MSG_KILL :: IrcCommand where "MSG_KILL \<equiv> 132"
abbreviation (input) MSG_PING :: IrcCommand where "MSG_PING \<equiv> 133"
abbreviation (input) MSG_PONG :: IrcCommand where "MSG_PONG \<equiv> 134"
abbreviation (input) MSG_ERROR :: IrcCommand where "MSG_ERROR \<equiv> 135"
abbreviation (input) MSG_AWAY :: IrcCommand where "MSG_AWAY \<equiv> 136"
abbreviation (input) MSG_REHASH :: IrcCommand where "MSG_REHASH \<equiv> 137"
abbreviation (input) MSG_DIE :: IrcCommand where "MSG_DIE \<equiv> 138"
abbreviation (input) MSG_RESTART :: IrcCommand where "MSG_RESTART \<equiv> 139"
abbreviation (input) MSG_SUMMON :: IrcCommand where "MSG_SUMMON \<equiv> 140"
abbreviation (input) MSG_USERS :: IrcCommand where "MSG_USERS \<equiv> 141"
abbreviation (input) MSG_WALLOPS :: IrcCommand where "MSG_WALLOPS \<equiv> 142"
abbreviation (input) MSG_USERHOST :: IrcCommand where "MSG_USERHOST \<equiv> 143"
abbreviation (input) MSG_ISON :: IrcCommand where "MSG_ISON \<equiv> 144"
abbreviation (input) RPL_TRACELINK :: IrcCommand where "RPL_TRACELINK \<equiv> 200"
abbreviation (input) RPL_TRACECONNECTING :: IrcCommand where "RPL_TRACECONNECTING \<equiv> 201"
abbreviation (input) RPL_TRACEHANDSHAKE :: IrcCommand where "RPL_TRACEHANDSHAKE \<equiv> 202"
abbreviation (input) RPL_TRACEUNKNOWN :: IrcCommand where "RPL_TRACEUNKNOWN \<equiv> 203"
abbreviation (input) RPL_TRACEOPERATOR :: IrcCommand where "RPL_TRACEOPERATOR \<equiv> 204"
abbreviation (input) RPL_TRACEUSER :: IrcCommand where "RPL_TRACEUSER \<equiv> 205"
abbreviation (input) RPL_TRACESERVER :: IrcCommand where "RPL_TRACESERVER \<equiv> 206"
abbreviation (input) RPL_TRACESERVICE :: IrcCommand where "RPL_TRACESERVICE \<equiv> 207"
abbreviation (input) RPL_TRACENEWTYPE :: IrcCommand where "RPL_TRACENEWTYPE \<equiv> 208"
abbreviation (input) RPL_TRACECLASS :: IrcCommand where "RPL_TRACECLASS \<equiv> 209"
abbreviation (input) RPL_TRACECONNECT :: IrcCommand where "RPL_TRACECONNECT \<equiv> 210"
abbreviation (input) RPL_STATSLINKINFO :: IrcCommand where "RPL_STATSLINKINFO \<equiv> 211"
abbreviation (input) RPL_STATSCOMMANDS :: IrcCommand where "RPL_STATSCOMMANDS \<equiv> 212"
abbreviation (input) RPL_STATSCLINE :: IrcCommand where "RPL_STATSCLINE \<equiv> 213"
abbreviation (input) RPL_STATSNLINE :: IrcCommand where "RPL_STATSNLINE \<equiv> 214"
abbreviation (input) RPL_STATSILINE :: IrcCommand where "RPL_STATSILINE \<equiv> 215"
abbreviation (input) RPL_STATSKLINE :: IrcCommand where "RPL_STATSKLINE \<equiv> 216"
abbreviation (input) RPL_STATSQLINE :: IrcCommand where "RPL_STATSQLINE \<equiv> 217"
abbreviation (input) RPL_STATSYLINE :: IrcCommand where "RPL_STATSYLINE \<equiv> 218"
abbreviation (input) RPL_ENDOFSTATS :: IrcCommand where "RPL_ENDOFSTATS \<equiv> 219"
abbreviation (input) RPL_UMODEIS :: IrcCommand where "RPL_UMODEIS \<equiv> 221"
abbreviation (input) RPL_SERVICEINFO :: IrcCommand where "RPL_SERVICEINFO \<equiv> 231"
abbreviation (input) RPL_ENDOFSERVICES :: IrcCommand where "RPL_ENDOFSERVICES \<equiv> 232"
abbreviation (input) RPL_SERVICE :: IrcCommand where "RPL_SERVICE \<equiv> 233"
abbreviation (input) RPL_SERVLIST :: IrcCommand where "RPL_SERVLIST \<equiv> 234"
abbreviation (input) RPL_SERVLISTEND :: IrcCommand where "RPL_SERVLISTEND \<equiv> 235"
abbreviation (input) RPL_STATSVLINE :: IrcCommand where "RPL_STATSVLINE \<equiv> 240"
abbreviation (input) RPL_STATSLLINE :: IrcCommand where "RPL_STATSLLINE \<equiv> 241"
abbreviation (input) RPL_STATSUPTIME :: IrcCommand where "RPL_STATSUPTIME \<equiv> 242"
abbreviation (input) RPL_STATSONLINE :: IrcCommand where "RPL_STATSONLINE \<equiv> 243"
abbreviation (input) RPL_STATSHLINE :: IrcCommand where "RPL_STATSHLINE \<equiv> 244"
abbreviation (input) RPL_STATSSLINE :: IrcCommand where "RPL_STATSSLINE \<equiv> 245"
abbreviation (input) RPL_STATSPING :: IrcCommand where "RPL_STATSPING \<equiv> 246"
abbreviation (input) RPL_STATSBLINE :: IrcCommand where "RPL_STATSBLINE \<equiv> 247"
abbreviation (input) RPL_STATSDLINE :: IrcCommand where "RPL_STATSDLINE \<equiv> 250"
abbreviation (input) RPL_LUSERCLIENT :: IrcCommand where "RPL_LUSERCLIENT \<equiv> 251"
abbreviation (input) RPL_LUSEROP :: IrcCommand where "RPL_LUSEROP \<equiv> 252"
abbreviation (input) RPL_LUSERUNKNOWN :: IrcCommand where "RPL_LUSERUNKNOWN \<equiv> 253"
abbreviation (input) RPL_LUSERCHANNELS :: IrcCommand where "RPL_LUSERCHANNELS \<equiv> 254"
abbreviation (input) RPL_LUSERME :: IrcCommand where "RPL_LUSERME \<equiv> 255"
abbreviation (input) RPL_ADMINME :: IrcCommand where "RPL_ADMINME \<equiv> 256"
abbreviation (input) RPL_ADMINLOC1 :: IrcCommand where "RPL_ADMINLOC1 \<equiv> 257"
abbreviation (input) RPL_ADMINLOC2 :: IrcCommand where "RPL_ADMINLOC2 \<equiv> 258"
abbreviation (input) RPL_ADMINEMAIL :: IrcCommand where "RPL_ADMINEMAIL \<equiv> 259"
abbreviation (input) RPL_TRACELOG :: IrcCommand where "RPL_TRACELOG \<equiv> 261"
abbreviation (input) RPL_TRACEEND :: IrcCommand where "RPL_TRACEEND \<equiv> 262"
abbreviation (input) RPL_TRYAGAIN :: IrcCommand where "RPL_TRYAGAIN \<equiv> 263"
abbreviation (input) RPL_NONE :: IrcCommand where "RPL_NONE \<equiv> 300"
abbreviation (input) RPL_AWAY :: IrcCommand where "RPL_AWAY \<equiv> 301"
abbreviation (input) RPL_USERHOST :: IrcCommand where "RPL_USERHOST \<equiv> 302"
abbreviation (input) RPL_ISON :: IrcCommand where "RPL_ISON \<equiv> 303"
abbreviation (input) RPL_UNAWAY :: IrcCommand where "RPL_UNAWAY \<equiv> 305"
abbreviation (input) RPL_NOWAWAY :: IrcCommand where "RPL_NOWAWAY \<equiv> 306"
abbreviation (input) RPL_WHOISUSER :: IrcCommand where "RPL_WHOISUSER \<equiv> 311"
abbreviation (input) RPL_WHOISSERVER :: IrcCommand where "RPL_WHOISSERVER \<equiv> 312"
abbreviation (input) RPL_WHOISOPERATOR :: IrcCommand where "RPL_WHOISOPERATOR \<equiv> 313"
abbreviation (input) RPL_WHOWASUSER :: IrcCommand where "RPL_WHOWASUSER \<equiv> 314"
abbreviation (input) RPL_ENDOFWHO :: IrcCommand where "RPL_ENDOFWHO \<equiv> 315"
abbreviation (input) RPL_WHOISCHANOP :: IrcCommand where "RPL_WHOISCHANOP \<equiv> 316"
abbreviation (input) RPL_WHOISIDLE :: IrcCommand where "RPL_WHOISIDLE \<equiv> 317"
abbreviation (input) RPL_ENDOFWHOIS :: IrcCommand where "RPL_ENDOFWHOIS \<equiv> 318"
abbreviation (input) RPL_WHOISCHANNELS :: IrcCommand where "RPL_WHOISCHANNELS \<equiv> 319"
abbreviation (input) RPL_LISTSTART :: IrcCommand where "RPL_LISTSTART \<equiv> 321"
abbreviation (input) RPL_LIST :: IrcCommand where "RPL_LIST \<equiv> 322"
abbreviation (input) RPL_LISTEND :: IrcCommand where "RPL_LISTEND \<equiv> 323"
abbreviation (input) RPL_CHANNELMODEIS :: IrcCommand where "RPL_CHANNELMODEIS \<equiv> 324"
abbreviation (input) RPL_UNIQOPIS :: IrcCommand where "RPL_UNIQOPIS \<equiv> 325"
abbreviation (input) RPL_NOTOPIC :: IrcCommand where "RPL_NOTOPIC \<equiv> 331"
abbreviation (input) RPL_TOPIC :: IrcCommand where "RPL_TOPIC \<equiv> 332"
abbreviation (input) RPL_INVITING :: IrcCommand where "RPL_INVITING \<equiv> 341"
abbreviation (input) RPL_SUMMONING :: IrcCommand where "RPL_SUMMONING \<equiv> 342"
abbreviation (input) RPL_INVITELIST :: IrcCommand where "RPL_INVITELIST \<equiv> 346"
abbreviation (input) RPL_ENDOFINVITELIST :: IrcCommand where "RPL_ENDOFINVITELIST \<equiv> 347"
abbreviation (input) RPL_EXCEPTLIST :: IrcCommand where "RPL_EXCEPTLIST \<equiv> 348"
abbreviation (input) RPL_ENDOFEXCEPTLIST :: IrcCommand where "RPL_ENDOFEXCEPTLIST \<equiv> 349"
abbreviation (input) RPL_VERSION :: IrcCommand where "RPL_VERSION \<equiv> 351"
abbreviation (input) RPL_WHOREPLY :: IrcCommand where "RPL_WHOREPLY \<equiv> 352"
abbreviation (input) RPL_NAMREPLY :: IrcCommand where "RPL_NAMREPLY \<equiv> 353"
abbreviation (input) RPL_KILLDONE :: IrcCommand where "RPL_KILLDONE \<equiv> 361"
abbreviation (input) RPL_CLOSING :: IrcCommand where "RPL_CLOSING \<equiv> 362"
abbreviation (input) RPL_CLOSEEND :: IrcCommand where "RPL_CLOSEEND \<equiv> 363"
abbreviation (input) RPL_LINKS :: IrcCommand where "RPL_LINKS \<equiv> 364"
abbreviation (input) RPL_ENDOFLINKS :: IrcCommand where "RPL_ENDOFLINKS \<equiv> 365"
abbreviation (input) RPL_ENDOFNAMES :: IrcCommand where "RPL_ENDOFNAMES \<equiv> 366"
abbreviation (input) RPL_BANLIST :: IrcCommand where "RPL_BANLIST \<equiv> 367"
abbreviation (input) RPL_ENDOFBANLIST :: IrcCommand where "RPL_ENDOFBANLIST \<equiv> 368"
abbreviation (input) RPL_ENDOFWHOWAS :: IrcCommand where "RPL_ENDOFWHOWAS \<equiv> 369"
abbreviation (input) RPL_INFO :: IrcCommand where "RPL_INFO \<equiv> 371"
abbreviation (input) RPL_MOTD :: IrcCommand where "RPL_MOTD \<equiv> 372"
abbreviation (input) RPL_INFOSTART :: IrcCommand where "RPL_INFOSTART \<equiv> 373"
abbreviation (input) RPL_ENDOFINFO :: IrcCommand where "RPL_ENDOFINFO \<equiv> 374"
abbreviation (input) RPL_MOTDSTART :: IrcCommand where "RPL_MOTDSTART \<equiv> 375"
abbreviation (input) RPL_ENDOFMOTD :: IrcCommand where "RPL_ENDOFMOTD \<equiv> 376"
abbreviation (input) RPL_YOUREOPER :: IrcCommand where "RPL_YOUREOPER \<equiv> 381"
abbreviation (input) RPL_REHASHING :: IrcCommand where "RPL_REHASHING \<equiv> 382"
abbreviation (input) RPL_YOURESERVICE :: IrcCommand where "RPL_YOURESERVICE \<equiv> 383"
abbreviation (input) RPL_MYPORTIS :: IrcCommand where "RPL_MYPORTIS \<equiv> 384"
abbreviation (input) RPL_TIME :: IrcCommand where "RPL_TIME \<equiv> 391"
abbreviation (input) RPL_USERSSTART :: IrcCommand where "RPL_USERSSTART \<equiv> 392"
abbreviation (input) RPL_USERS :: IrcCommand where "RPL_USERS \<equiv> 393"
abbreviation (input) RPL_ENDOFUSERS :: IrcCommand where "RPL_ENDOFUSERS \<equiv> 394"
abbreviation (input) RPL_NOUSERS :: IrcCommand where "RPL_NOUSERS \<equiv> 395"
abbreviation (input) ERR_NOSUCHNICK :: IrcCommand where "ERR_NOSUCHNICK \<equiv> 401"
abbreviation (input) ERR_NOSUCHSERVER :: IrcCommand where "ERR_NOSUCHSERVER \<equiv> 402"
abbreviation (input) ERR_NOSUCHCHANNEL :: IrcCommand where "ERR_NOSUCHCHANNEL \<equiv> 403"
abbreviation (input) ERR_CANNOTSENDTOCHAN :: IrcCommand where "ERR_CANNOTSENDTOCHAN \<equiv> 404"
abbreviation (input) ERR_TOOMANYCHANNELS :: IrcCommand where "ERR_TOOMANYCHANNELS \<equiv> 405"
abbreviation (input) ERR_WASNOSUCHNICK :: IrcCommand where "ERR_WASNOSUCHNICK \<equiv> 406"
abbreviation (input) ERR_TOOMANYTARGETS :: IrcCommand where "ERR_TOOMANYTARGETS \<equiv> 407"
abbreviation (input) ERR_NOSUCHSERVICE :: IrcCommand where "ERR_NOSUCHSERVICE \<equiv> 408"
abbreviation (input) ERR_NOORIGIN :: IrcCommand where "ERR_NOORIGIN \<equiv> 409"
abbreviation (input) ERR_NORECIPIENT :: IrcCommand where "ERR_NORECIPIENT \<equiv> 411"
abbreviation (input) ERR_NOTEXTTOSEND :: IrcCommand where "ERR_NOTEXTTOSEND \<equiv> 412"
abbreviation (input) ERR_NOTOPLEVEL :: IrcCommand where "ERR_NOTOPLEVEL \<equiv> 413"
abbreviation (input) ERR_WILDTOPLEVEL :: IrcCommand where "ERR_WILDTOPLEVEL \<equiv> 414"
abbreviation (input) ERR_BADMASK :: IrcCommand where "ERR_BADMASK \<equiv> 415"
abbreviation (input) ERR_UNKNOWNCOMMAND :: IrcCommand where "ERR_UNKNOWNCOMMAND \<equiv> 421"
abbreviation (input) ERR_NOMOTD :: IrcCommand where "ERR_NOMOTD \<equiv> 422"
abbreviation (input) ERR_NOADMININFO :: IrcCommand where "ERR_NOADMININFO \<equiv> 423"
abbreviation (input) ERR_FILEERROR :: IrcCommand where "ERR_FILEERROR \<equiv> 424"
abbreviation (input) ERR_NONICKNAMEGIVEN :: IrcCommand where "ERR_NONICKNAMEGIVEN \<equiv> 431"
abbreviation (input) ERR_ERRONEUSNICKNAME :: IrcCommand where "ERR_ERRONEUSNICKNAME \<equiv> 432"
abbreviation (input) ERR_NICKNAMEINUSE :: IrcCommand where "ERR_NICKNAMEINUSE \<equiv> 433"
abbreviation (input) ERR_NICKCOLLISION :: IrcCommand where "ERR_NICKCOLLISION \<equiv> 436"
abbreviation (input) ERR_UNAVAILRESOURCE :: IrcCommand where "ERR_UNAVAILRESOURCE \<equiv> 437"
abbreviation (input) ERR_USERNOTINCHANNEL :: IrcCommand where "ERR_USERNOTINCHANNEL \<equiv> 441"
abbreviation (input) ERR_NOTONCHANNEL :: IrcCommand where "ERR_NOTONCHANNEL \<equiv> 442"
abbreviation (input) ERR_USERONCHANNEL :: IrcCommand where "ERR_USERONCHANNEL \<equiv> 443"
abbreviation (input) ERR_NOLOGIN :: IrcCommand where "ERR_NOLOGIN \<equiv> 444"
abbreviation (input) ERR_SUMMONDISABLED :: IrcCommand where "ERR_SUMMONDISABLED \<equiv> 445"
abbreviation (input) ERR_USERSDISABLED :: IrcCommand where "ERR_USERSDISABLED \<equiv> 446"
abbreviation (input) ERR_NOTREGISTERED :: IrcCommand where "ERR_NOTREGISTERED \<equiv> 451"
abbreviation (input) ERR_NEEDMOREPARAMS :: IrcCommand where "ERR_NEEDMOREPARAMS \<equiv> 461"
abbreviation (input) ERR_ALREADYREGISTERED :: IrcCommand where "ERR_ALREADYREGISTERED \<equiv> 462"
abbreviation (input) ERR_NOPERMFORHOST :: IrcCommand where "ERR_NOPERMFORHOST \<equiv> 463"
abbreviation (input) ERR_PASSWDMISMATCH :: IrcCommand where "ERR_PASSWDMISMATCH \<equiv> 464"
abbreviation (input) ERR_YOUREBANNEDCREEP :: IrcCommand where "ERR_YOUREBANNEDCREEP \<equiv> 465"
abbreviation (input) ERR_YOUWILLBEBANNED :: IrcCommand where "ERR_YOUWILLBEBANNED \<equiv> 466"
abbreviation (input) ERR_KEYSET :: IrcCommand where "ERR_KEYSET \<equiv> 467"
abbreviation (input) ERR_CHANNELISFULL :: IrcCommand where "ERR_CHANNELISFULL \<equiv> 471"
abbreviation (input) ERR_UNKNOWNMODE :: IrcCommand where "ERR_UNKNOWNMODE \<equiv> 472"
abbreviation (input) ERR_INVITEONLYCHAN :: IrcCommand where "ERR_INVITEONLYCHAN \<equiv> 473"
abbreviation (input) ERR_BANNEDFROMCHAN :: IrcCommand where "ERR_BANNEDFROMCHAN \<equiv> 474"
abbreviation (input) ERR_BADCHANNELKEY :: IrcCommand where "ERR_BADCHANNELKEY \<equiv> 475"
abbreviation (input) ERR_BADCHANMASK :: IrcCommand where "ERR_BADCHANMASK \<equiv> 476"
abbreviation (input) ERR_NOCHANMODES :: IrcCommand where "ERR_NOCHANMODES \<equiv> 477"
abbreviation (input) ERR_BANLISTFULL :: IrcCommand where "ERR_BANLISTFULL \<equiv> 478"
abbreviation (input) ERR_NOPRIVILEGES :: IrcCommand where "ERR_NOPRIVILEGES \<equiv> 481"
abbreviation (input) ERR_CHANOPPRIVSNEEDED :: IrcCommand where "ERR_CHANOPPRIVSNEEDED \<equiv> 482"
abbreviation (input) ERR_CANTKILLSERVER :: IrcCommand where "ERR_CANTKILLSERVER \<equiv> 483"
abbreviation (input) ERR_RESTRICTED :: IrcCommand where "ERR_RESTRICTED \<equiv> 484"
abbreviation (input) ERR_UNIQOPPRIVSNEEDED :: IrcCommand where "ERR_UNIQOPPRIVSNEEDED \<equiv> 485"
abbreviation (input) ERR_NOOPERHOST :: IrcCommand where "ERR_NOOPERHOST \<equiv> 491"
abbreviation (input) ERR_NOSERVICEHOST :: IrcCommand where "ERR_NOSERVICEHOST \<equiv> 492"
abbreviation (input) ERR_UMODEUNKNOWNFLAG :: IrcCommand where "ERR_UMODEUNKNOWNFLAG \<equiv> 501"
abbreviation (input) ERR_USERSDONTMATCH :: IrcCommand where "ERR_USERSDONTMATCH \<equiv> 502"

text \<open>All enumerators, in the order of the header.\<close>

definition IrcCommand_values :: "IrcCommand list" where
  "IrcCommand_values = [
     CMD_UNKNOWN, RPL_WELCOME, RPL_YOURHOST, RPL_CREATED, RPL_MYINFO, RPL_BOUNCE, MSG_PASS,
     MSG_NICK, MSG_USER, MSG_OPER, MSG_MODE, MSG_SERVICE, MSG_QUIT, MSG_SQUIT, MSG_JOIN, MSG_PART,
     MSG_TOPIC, MSG_NAMES, MSG_LIST, MSG_INVITE, MSG_KICK, MSG_PRIVMSG, MSG_NOTICE, MSG_MOTD,
     MSG_LUSERS, MSG_VERSION, MSG_STATS, MSG_LINKS, MSG_TIME, MSG_CONNECT, MSG_TRACE, MSG_ADMIN,
     MSG_INFO, MSG_SERVLIST, MSG_SQUERY, MSG_WHO, MSG_WHOIS, MSG_WHOWAS, MSG_KILL, MSG_PING,
     MSG_PONG, MSG_ERROR, MSG_AWAY, MSG_REHASH, MSG_DIE, MSG_RESTART, MSG_SUMMON, MSG_USERS,
     MSG_WALLOPS, MSG_USERHOST, MSG_ISON, RPL_TRACELINK, RPL_TRACECONNECTING, RPL_TRACEHANDSHAKE,
     RPL_TRACEUNKNOWN, RPL_TRACEOPERATOR, RPL_TRACEUSER, RPL_TRACESERVER, RPL_TRACESERVICE,
     RPL_TRACENEWTYPE, RPL_TRACECLASS, RPL_TRACECONNECT, RPL_STATSLINKINFO, RPL_STATSCOMMANDS,
     RPL_STATSCLINE, RPL_STATSNLINE, RPL_STATSILINE, RPL_STATSKLINE, RPL_STATSQLINE,
     RPL_STATSYLINE, RPL_ENDOFSTATS, RPL_UMODEIS, RPL_SERVICEINFO, RPL_ENDOFSERVICES, RPL_SERVICE,
     RPL_SERVLIST, RPL_SERVLISTEND, RPL_STATSVLINE, RPL_STATSLLINE, RPL_STATSUPTIME,
     RPL_STATSONLINE, RPL_STATSHLINE, RPL_STATSSLINE, RPL_STATSPING, RPL_STATSBLINE,
     RPL_STATSDLINE, RPL_LUSERCLIENT, RPL_LUSEROP, RPL_LUSERUNKNOWN, RPL_LUSERCHANNELS,
     RPL_LUSERME, RPL_ADMINME, RPL_ADMINLOC1, RPL_ADMINLOC2, RPL_ADMINEMAIL, RPL_TRACELOG,
     RPL_TRACEEND, RPL_TRYAGAIN, RPL_NONE, RPL_AWAY, RPL_USERHOST, RPL_ISON, RPL_UNAWAY,
     RPL_NOWAWAY, RPL_WHOISUSER, RPL_WHOISSERVER, RPL_WHOISOPERATOR, RPL_WHOWASUSER, RPL_ENDOFWHO,
     RPL_WHOISCHANOP, RPL_WHOISIDLE, RPL_ENDOFWHOIS, RPL_WHOISCHANNELS, RPL_LISTSTART, RPL_LIST,
     RPL_LISTEND, RPL_CHANNELMODEIS, RPL_UNIQOPIS, RPL_NOTOPIC, RPL_TOPIC, RPL_INVITING,
     RPL_SUMMONING, RPL_INVITELIST, RPL_ENDOFINVITELIST, RPL_EXCEPTLIST, RPL_ENDOFEXCEPTLIST,
     RPL_VERSION, RPL_WHOREPLY, RPL_NAMREPLY, RPL_KILLDONE, RPL_CLOSING, RPL_CLOSEEND, RPL_LINKS,
     RPL_ENDOFLINKS, RPL_ENDOFNAMES, RPL_BANLIST, RPL_ENDOFBANLIST, RPL_ENDOFWHOWAS, RPL_INFO,
     RPL_MOTD, RPL_INFOSTART, RPL_ENDOFINFO, RPL_MOTDSTART, RPL_ENDOFMOTD, RPL_YOUREOPER,
     RPL_REHASHING, RPL_YOURESERVICE, RPL_MYPORTIS, RPL_TIME, RPL_USERSSTART, RPL_USERS,
     RPL_ENDOFUSERS, RPL_NOUSERS, ERR_NOSUCHNICK, ERR_NOSUCHSERVER, ERR_NOSUCHCHANNEL,
     ERR_CANNOTSENDTOCHAN, ERR_TOOMANYCHANNELS, ERR_WASNOSUCHNICK, ERR_TOOMANYTARGETS,
     ERR_NOSUCHSERVICE, ERR_NOORIGIN, ERR_NORECIPIENT, ERR_NOTEXTTOSEND, ERR_NOTOPLEVEL,
     ERR_WILDTOPLEVEL, ERR_BADMASK, ERR_UNKNOWNCOMMAND, ERR_NOMOTD, ERR_NOADMININFO, ERR_FILEERROR,
     ERR_NONICKNAMEGIVEN, ERR_ERRONEUSNICKNAME, ERR_NICKNAMEINUSE, ERR_NICKCOLLISION,
     ERR_UNAVAILRESOURCE, ERR_USERNOTINCHANNEL, ERR_NOTONCHANNEL, ERR_USERONCHANNEL, ERR_NOLOGIN,
     ERR_SUMMONDISABLED, ERR_USERSDISABLED, ERR_NOTREGISTERED, ERR_NEEDMOREPARAMS,
     ERR_ALREADYREGISTERED, ERR_NOPERMFORHOST, ERR_PASSWDMISMATCH, ERR_YOUREBANNEDCREEP,
     ERR_YOUWILLBEBANNED, ERR_KEYSET, ERR_CHANNELISFULL, ERR_UNKNOWNMODE, ERR_INVITEONLYCHAN,
     ERR_BANNEDFROMCHAN, ERR_BADCHANNELKEY, ERR_BADCHANMASK, ERR_NOCHANMODES, ERR_BANLISTFULL,
     ERR_NOPRIVILEGES, ERR_CHANOPPRIVSNEEDED, ERR_CANTKILLSERVER, ERR_RESTRICTED,
     ERR_UNIQOPPRIVSNEEDED, ERR_NOOPERHOST, ERR_NOSERVICEHOST, ERR_UMODEUNKNOWNFLAG,
     ERR_USERSDONTMATCH]"

section \<open>From a command to its string\<close>

definition welcome_strings :: "(IrcCommand \<times> string) list" where
  "welcome_strings = [
     (RPL_WELCOME, ''001''), (RPL_YOURHOST, ''002''), (RPL_CREATED, ''003''), (RPL_MYINFO, ''004''),
     (RPL_BOUNCE, ''005'')]"

definition message_strings :: "(IrcCommand \<times> string) list" where
  "message_strings = [
     (MSG_PASS, ''PASS''), (MSG_NICK, ''NICK''), (MSG_USER, ''USER''), (MSG_OPER, ''OPER''),
     (MSG_MODE, ''MODE''), (MSG_SERVICE, ''SERVICE''), (MSG_QUIT, ''QUIT''),
     (MSG_SQUIT, ''SQUIT''), (MSG_JOIN, ''JOIN''), (MSG_PART, ''PART''), (MSG_TOPIC, ''TOPIC''),
     (MSG_NAMES, ''NAMES''), (MSG_LIST, ''LIST''), (MSG_INVITE, ''INVITE''), (MSG_KICK, ''KICK''),
     (MSG_PRIVMSG, ''PRIVMSG''), (MSG_NOTICE, ''NOTICE''), (MSG_MOTD, ''MOTD''),
     (MSG_LUSERS, ''LUSERS''), (MSG_VERSION, ''VERSION''), (MSG_STATS, ''STATS''),
     (MSG_LINKS, ''LINKS''), (MSG_TIME, ''TIME''), (MSG_CONNECT, ''CONNECT''),
     (MSG_TRACE, ''TRACE''), (MSG_ADMIN, ''ADMIN''), (MSG_INFO, ''INFO''),
     (MSG_SERVLIST, ''SERVLIST''), (MSG_SQUERY, ''SQUERY''), (MSG_WHO, ''WHO''),
     (MSG_WHOIS, ''WHOIS''), (MSG_WHOWAS, ''WHOWAS''), (MSG_KILL, ''KILL''), (MSG_PING, ''PING''),
     (MSG_PONG, ''PONG''), (MSG_ERROR, ''ERROR''), (MSG_AWAY, ''AWAY''), (MSG_REHASH, ''REHASH''),
     (MSG_DIE, ''DIE''), (MSG_RESTART, ''RESTART''), (MSG_SUMMON, ''SUMMON''),
     (MSG_USERS, ''USERS''), (MSG_WALLOPS, ''WALLOPS''), (MSG_USERHOST, ''USERHOST''),
     (MSG_ISON, ''ISON'')]"

definition reply_strings :: "(IrcCommand \<times> string) list" where
  "reply_strings = [
     (RPL_TRACELINK, ''200''),
     (RPL_TRACECONNECTING, ''201''), (RPL_TRACEHANDSHAKE, ''202''), (RPL_TRACEUNKNOWN, ''203''),
     (RPL_TRACEOPERATOR, ''204''), (RPL_TRACEUSER, ''205''), (RPL_TRACESERVER, ''206''),
     (RPL_TRACESERVICE, ''207''), (RPL_TRACENEWTYPE, ''208''), (RPL_TRACECLASS, ''209''),
     (RPL_TRACECONNECT, ''210''), (RPL_STATSLINKINFO, ''211''), (RPL_STATSCOMMANDS, ''212''),
     (RPL_STATSCLINE, ''213''), (RPL_STATSNLINE, ''214''), (RPL_STATSILINE, ''215''),
     (RPL_STATSKLINE, ''216''), (RPL_STATSQLINE, ''217''), (RPL_STATSYLINE, ''218''),
     (RPL_ENDOFSTATS, ''219''), (RPL_UMODEIS, ''221''), (RPL_SERVICEINFO, ''231''),
     (RPL_ENDOFSERVICES, ''232''), (RPL_SERVICE, ''233''), (RPL_SERVLIST, ''234''),
     (RPL_SERVLISTEND, ''235''), (RPL_STATSVLINE, ''240''), (RPL_STATSLLINE, ''241''),
     (RPL_STATSUPTIME, ''242''), (RPL_STATSONLINE, ''243''), (RPL_STATSHLINE, ''244''),
     (RPL_STATSSLINE, ''245''), (RPL_STATSPING, ''246''), (RPL_STATSBLINE, ''247''),
     (RPL_STATSDLINE, ''250''), (RPL_LUSERCLIENT, ''251''), (RPL_LUSEROP, ''252''),
     (RPL_LUSERUNKNOWN, ''253''), (RPL_LUSERCHANNELS, ''254''), (RPL_LUSERME, ''255''),
     (RPL_ADMINME, ''256''), (RPL_ADMINLOC1, ''257''), (RPL_ADMINLOC2, ''258''),
     (RPL_ADMINEMAIL, ''259''), (RPL_TRACELOG, ''261''), (RPL_TRACEEND, ''262''),
     (RPL_TRYAGAIN, ''263''), (RPL_NONE, ''300''), (RPL_AWAY, ''301''), (RPL_USERHOST, ''302''),
     (RPL_ISON, ''303''), (RPL_UNAWAY, ''305''), (RPL_NOWAWAY, ''306''), (RPL_WHOISUSER, ''311''),
     (RPL_WHOISSERVER, ''312''), (RPL_WHOISOPERATOR, ''313''), (RPL_WHOWASUSER, ''314''),
     (RPL_ENDOFWHO, ''315''), (RPL_WHOISCHANOP, ''316''), (RPL_WHOISIDLE, ''317''),
     (RPL_ENDOFWHOIS, ''318''), (RPL_WHOISCHANNELS, ''319''), (RPL_LISTSTART, ''321''),
     (RPL_LIST, ''322''), (RPL_LISTEND, ''323''), (RPL_CHANNELMODEIS, ''324''),
     (RPL_UNIQOPIS, ''325''), (RPL_NOTOPIC, ''331''), (RPL_TOPIC, ''332''),
     (RPL_INVITING, ''341''), (RPL_SUMMONING, ''342''), (RPL_INVITELIST, ''346''),
     (RPL_ENDOFINVITELIST, ''347''), (RPL_EXCEPTLIST, ''348''), (RPL_ENDOFEXCEPTLIST, ''349''),
     (RPL_VERSION, ''351''), (RPL_WHOREPLY, ''352''), (RPL_NAMREPLY, ''353''),
     (RPL_KILLDONE, ''361''), (RPL_CLOSING, ''362''), (RPL_CLOSEEND, ''363''),
     (RPL_LINKS, ''364''), (RPL_ENDOFLINKS, ''365''), (RPL_ENDOFNAMES, ''366''),
     (RPL_BANLIST, ''367''), (RPL_ENDOFBANLIST, ''368''), (RPL_ENDOFWHOWAS, ''369''),
     (RPL_INFO, ''371''), (RPL_MOTD, ''372''), (RPL_INFOSTART, ''373''), (RPL_ENDOFINFO, ''374''),
     (RPL_MOTDSTART, ''375''), (RPL_ENDOFMOTD, ''376''), (RPL_YOUREOPER, ''381''),
     (RPL_REHASHING, ''382''), (RPL_YOURESERVICE, ''383''), (RPL_MYPORTIS, ''384''),
     (RPL_TIME, ''391''), (RPL_USERSSTART, ''392''), (RPL_USERS, ''393''),
     (RPL_ENDOFUSERS, ''394''), (RPL_NOUSERS, ''395'')]"

definition error_strings :: "(IrcCommand \<times> string) list" where
  "error_strings = [
     (ERR_NOSUCHNICK, ''401''), (ERR_NOSUCHSERVER, ''402''), (ERR_NOSUCHCHANNEL, ''403''),
     (ERR_CANNOTSENDTOCHAN, ''404''), (ERR_TOOMANYCHANNELS, ''405''), (ERR_WASNOSUCHNICK, ''406''),
     (ERR_TOOMANYTARGETS, ''407''), (ERR_NOSUCHSERVICE, ''408''), (ERR_NOORIGIN, ''409''),
     (ERR_NORECIPIENT, ''411''), (ERR_NOTEXTTOSEND, ''412''), (ERR_NOTOPLEVEL, ''413''),
     (ERR_WILDTOPLEVEL, ''414''), (ERR_BADMASK, ''415''), (ERR_UNKNOWNCOMMAND, ''421''),
     (ERR_NOMOTD, ''422''), (ERR_NOADMININFO, ''423''), (ERR_FILEERROR, ''424''),
     (ERR_NONICKNAMEGIVEN, ''431''), (ERR_ERRONEUSNICKNAME, ''432''), (ERR_NICKNAMEINUSE, ''433''),
     (ERR_NICKCOLLISION, ''436''), (ERR_UNAVAILRESOURCE, ''437''), (ERR_USERNOTINCHANNEL, ''441''),
     (ERR_NOTONCHANNEL, ''442''), (ERR_USERONCHANNEL, ''443''), (ERR_NOLOGIN, ''444''),
     (ERR_SUMMONDISABLED, ''445''), (ERR_USERSDISABLED, ''446''), (ERR_NOTREGISTERED, ''451''),
     (ERR_NEEDMOREPARAMS, ''461''), (ERR_ALREADYREGISTERED, ''462''), (ERR_NOPERMFORHOST, ''463''),
     (ERR_PASSWDMISMATCH, ''464''), (ERR_YOUREBANNEDCREEP, ''465''),
     (ERR_YOUWILLBEBANNED, ''466''), (ERR_KEYSET, ''467''), (ERR_CHANNELISFULL, ''471''),
     (ERR_UNKNOWNMODE, ''472''), (ERR_INVITEONLYCHAN, ''473''), (ERR_BANNEDFROMCHAN, ''474''),
     (ERR_BADCHANNELKEY, ''475''), (ERR_BADCHANMASK, ''476''), (ERR_NOCHANMODES, ''477''),
     (ERR_BANLISTFULL, ''478''), (ERR_NOPRIVILEGES, ''481''), (ERR_CHANOPPRIVSNEEDED, ''482''),
     (ERR_CANTKILLSERVER, ''483''), (ERR_RESTRICTED, ''484''), (ERR_UNIQOPPRIVSNEEDED, ''485''),
     (ERR_NOOPERHOST, ''491''), (ERR_NOSERVICEHOST, ''492''), (ERR_UMODEUNKNOWNFLAG, ''501''),
     (ERR_USERSDONTMATCH, ''502'')]"
definition command_strings :: "(IrcCommand \<times> string) list" where
  "command_strings = welcome_strings @ message_strings @ reply_strings @ error_strings"

definition IrcCommand_str :: "IrcCommand \<Rightarrow> string option" where
  "IrcCommand_str self = map_of command_strings self"

section \<open>From a string to a command\<close>

text \<open>The character at an index of a terminated string, up to and including the terminator.\<close>

definition char_at :: "string \<Rightarrow> nat \<Rightarrow> char" where
  "char_at s i = (if i < length s then s ! i else NUL)"

definition digit_value :: "char \<Rightarrow> int" where
  "digit_value c = int (of_char c) - 48"

text \<open>\<open>atoi\<close> on a string of digits.\<close>

fun atoi_loop :: "int \<Rightarrow> string \<Rightarrow> int" where
  "atoi_loop n [] = n"
| "atoi_loop n (c # s) = (if c_isdigit c then atoi_loop (10 * n + digit_value c) s else n)"

definition atoi :: "string \<Rightarrow> int" where
  "atoi s = atoi_loop 0 s"

text \<open>The comparisons made for each first character.\<close>

definition command_tests :: "(char \<times> (string \<times> IrcCommand) list) list" where
  "command_tests = [
     (CHR ''A'', [(''ADMIN'', MSG_ADMIN), (''AWAY'', MSG_AWAY)]),
     (CHR ''C'', [(''CONNECT'', MSG_CONNECT)]),
     (CHR ''D'', [(''DIE'', MSG_DIE)]),
     (CHR ''E'', [(''ERROR'', MSG_ERROR)]),
     (CHR ''I'', [(''INFO'', MSG_INFO), (''INVITE'', MSG_INVITE), (''ISON'', MSG_ISON)]),
     (CHR ''J'', [(''JOIN'', MSG_JOIN)]),
     (CHR ''K'', [(''KICK'', MSG_KICK), (''KILL'', MSG_KILL)]),
     (CHR ''L'', [(''LINKS'', MSG_LINKS), (''LIST'', MSG_LIST), (''LUSERS'', MSG_LUSERS)]),
     (CHR ''M'', [(''MODE'', MSG_MODE), (''MOTD'', MSG_MOTD)]),
     (CHR ''N'', [(''NAMES'', MSG_NAMES), (''NICK'', MSG_NICK), (''NOTICE'', MSG_NOTICE)]),
     (CHR ''O'', [(''OPER'', MSG_OPER)]),
     (CHR ''P'', [(''PASS'', MSG_PASS), (''PART'', MSG_PART), (''PING'', MSG_PING), (''PONG'', MSG_PONG), (''PRIVMSG'', MSG_PRIVMSG)]),
     (CHR ''Q'', [(''QUIT'', MSG_QUIT)]),
     (CHR ''R'', [(''REHASH'', MSG_REHASH), (''RESTART'', MSG_RESTART)]),
     (CHR ''S'', [(''SERVICE'', MSG_SERVICE), (''SERVLIST'', MSG_SERVLIST), (''SQUERY'', MSG_SQUERY), (''SQUIT'', MSG_SQUIT), (''STATS'', MSG_STATS), (''SUMMON'', MSG_SUMMON)]),
     (CHR ''T'', [(''TIME'', MSG_TIME), (''TOPIC'', MSG_TOPIC), (''TRACE'', MSG_TRACE)]),
     (CHR ''U'', [(''USER'', MSG_USER), (''USERHOST'', MSG_USERHOST), (''USERS'', MSG_USERS)]),
     (CHR ''V'', [(''VERSION'', MSG_VERSION)]),
     (CHR ''W'', [(''WALLOPS'', MSG_WALLOPS), (''WHO'', MSG_WHO), (''WHOIS'', MSG_WHOIS), (''WHOWAS'', MSG_WHOWAS)])]"

definition IrcCommand_parse :: "string \<Rightarrow> IrcCommand" where
  "IrcCommand_parse cmd =
     (if c_isdigit (char_at cmd 0) \<and> c_isdigit (char_at cmd 1) \<and> c_isdigit (char_at cmd 2) \<and> char_at cmd 3 = NUL
      then (let self = atoi cmd in
            if (self > 99 \<and> self < 200) \<or> IrcCommand_str self = None then CMD_UNKNOWN else self)
      else case map_of command_tests (char_at cmd 0) of
             None \<Rightarrow> CMD_UNKNOWN
           | Some tests \<Rightarrow> (case map_of tests cmd of None \<Rightarrow> CMD_UNKNOWN | Some self \<Rightarrow> self))"

section \<open>The conversions are inverse to each other\<close>

definition three_digits :: "string \<Rightarrow> bool" where
  "three_digits s \<longleftrightarrow> length s = 3 \<and> list_all c_isdigit s"

text \<open>Finite checks, each linear in the tables.\<close>

lemma strings_values: "map fst command_strings = tl IrcCommand_values"
  by (simp add: command_strings_def welcome_strings_def message_strings_def reply_strings_def
      error_strings_def IrcCommand_values_def)

lemma values_hd: "hd IrcCommand_values = CMD_UNKNOWN" "IrcCommand_values \<noteq> []" "\<forall>c\<in>set (tl IrcCommand_values). 0 < c"
  by (simp_all add: IrcCommand_values_def)

lemma strings_numeric:
  "list_all (\<lambda>(c, s). \<not> (99 < c \<and> c < 200) \<and> three_digits s \<and> atoi s = c)
     (welcome_strings @ reply_strings @ error_strings)"
  by code_simp

lemma messages_tested:
  "list_all (\<lambda>(c, s). (99 < c \<and> c < 200) \<and> \<not> c_isdigit (char_at s 0) \<and>
     map_of (the (map_of command_tests (char_at s 0))) s = Some c \<and> map_of command_tests (char_at s 0) \<noteq> None) message_strings"
  by code_simp

lemma tests_have_strings:
  "list_all (\<lambda>(a, tests). list_all (\<lambda>(s, c). (c, s) \<in> set message_strings) tests) command_tests"
  by code_simp

lemma strings_distinct: "distinct (map fst command_strings)"
proof -
  have "successively (<) (tl IrcCommand_values)" by (simp add: IrcCommand_values_def)
  then have "sorted_wrt (<) (tl IrcCommand_values)" by (simp add: successively_conv_sorted_wrt)
  then show ?thesis by (simp add: strings_values strict_sorted_iff)
qed

lemma three_digits_split:
  assumes "three_digits s"
  obtains x y z where "s = [x, y, z]" "c_isdigit x" "c_isdigit y" "c_isdigit z"
  using assms by (auto simp: three_digits_def numeral_3_eq_3 length_Suc_conv)

lemma atoi_three: "c_isdigit x \<Longrightarrow> c_isdigit y \<Longrightarrow> c_isdigit z \<Longrightarrow>
    atoi [x, y, z] = 100 * digit_value x + 10 * digit_value y + digit_value z"
  by (simp add: atoi_def)

lemma digit_value_range: "c_isdigit c \<Longrightarrow> 0 \<le> digit_value c \<and> digit_value c \<le> 9"
  by (auto simp: c_isdigit_def digit_value_def)

lemma digit_value_inj: "digit_value c = digit_value d \<Longrightarrow> c = d"
  by (simp add: digit_value_def)

lemma atoi_inj:
  assumes "three_digits s" "three_digits t" "atoi s = atoi t"
  shows "s = t"
proof -
  obtain x y z where s: "s = [x, y, z]" "c_isdigit x" "c_isdigit y" "c_isdigit z"
    using assms(1) by (rule three_digits_split)
  obtain x' y' z' where t: "t = [x', y', z']" "c_isdigit x'" "c_isdigit y'" "c_isdigit z'"
    using assms(2) by (rule three_digits_split)
  note r = s(2-4) [THEN digit_value_range] t(2-4) [THEN digit_value_range]
  have eq: "100 * digit_value x + 10 * digit_value y + digit_value z
      = 100 * digit_value x' + 10 * digit_value y' + digit_value z'"
    using assms(3) s t by (simp add: atoi_three)
  have 1: "digit_value x = digit_value x'" using r eq by linarith
  have 2: "digit_value y = digit_value y'" using r eq 1 by linarith
  have 3: "digit_value z = digit_value z'" using eq 1 2 by linarith
  show ?thesis using s t 1 2 3 by (auto dest: digit_value_inj)
qed

lemma digits_char_at:
  assumes "is_cstr cmd" "c_isdigit (char_at cmd 0)" "c_isdigit (char_at cmd 1)" "c_isdigit (char_at cmd 2)"
    "char_at cmd 3 = NUL"
  shows "three_digits cmd"
proof -
  have nul: "\<not> c_isdigit NUL" by (simp add: c_isdigit_def)
  have len: "2 < length cmd" using assms(4) nul by (auto simp: char_at_def split: if_splits)
  have "\<not> 3 < length cmd"
  proof
    assume "3 < length cmd"
    then have "cmd ! 3 \<in> set cmd" by simp
    with assms(1,5) \<open>3 < length cmd\<close> show False by (simp add: char_at_def is_cstr_def)
  qed
  with len have l: "length cmd = 3" by simp
  then obtain x y z where "cmd = [x, y, z]" by (auto simp: numeral_3_eq_3 length_Suc_conv)
  with assms(2-4) show ?thesis by (simp add: three_digits_def char_at_def)
qed

lemma str_iff: "IrcCommand_str c = Some s \<longleftrightarrow> (c, s) \<in> set command_strings"
  by (simp add: IrcCommand_str_def strings_distinct)

lemma str_None: "IrcCommand_str c = None \<longleftrightarrow> c \<notin> set (tl IrcCommand_values)"
  unfolding IrcCommand_str_def map_of_eq_None_iff by (simp flip: set_map add: strings_values)

lemma parse_string:
  assumes "(c, s) \<in> set command_strings"
  shows "IrcCommand_parse s = c \<and> c \<noteq> CMD_UNKNOWN"
proof -
  have c: "c \<in> set (tl IrcCommand_values)"
    using assms strings_values by (metis fst_conv image_eqI set_map)
  then have "c \<noteq> CMD_UNKNOWN" "IrcCommand_str c \<noteq> None" using values_hd(3) str_None by auto
  moreover consider "(c, s) \<in> set message_strings" | "(c, s) \<in> set (welcome_strings @ reply_strings @ error_strings)"
    using assms by (auto simp: command_strings_def)
  then have "IrcCommand_parse s = c \<or> IrcCommand_str c = None"
  proof cases
    case 1
    then have "\<not> c_isdigit (char_at s 0)" "map_of (the (map_of command_tests (char_at s 0))) s = Some c"
        "map_of command_tests (char_at s 0) \<noteq> None"
      using messages_tested by (auto simp: list_all_iff)
    then show ?thesis by (auto simp: IrcCommand_parse_def)
  next
    case 2
    then have n: "\<not> (99 < c \<and> c < 200)" "three_digits s" "atoi s = c"
      using strings_numeric by (auto simp: list_all_iff)
    from n(2) obtain x y z where "s = [x, y, z]" "c_isdigit x" "c_isdigit y" "c_isdigit z"
      by (rule three_digits_split)
    then have "c_isdigit (char_at s 0) \<and> c_isdigit (char_at s 1) \<and> c_isdigit (char_at s 2) \<and> char_at s 3 = NUL"
      by (simp add: char_at_def)
    then have "IrcCommand_parse s = (if IrcCommand_str c = None then CMD_UNKNOWN else c)"
      unfolding IrcCommand_parse_def using n(1,3) by (auto simp: Let_def)
    then show ?thesis by auto
  qed
  ultimately show ?thesis by auto
qed

text \<open>C37: for every C string and every integer, parsing the string gives that command (and
  not the unknown one) exactly when the command's string is that string: the two
  conversions are inverse to each other, on numeric replies (always three digits) and on
  messages alike.\<close>

theorem IrcCommand_parse_str:
  assumes "is_cstr s"
  shows "(IrcCommand_parse s = c \<and> c \<noteq> CMD_UNKNOWN) = (IrcCommand_str c = Some s)"
proof
  assume "IrcCommand_str c = Some s"
  then show "IrcCommand_parse s = c \<and> c \<noteq> CMD_UNKNOWN"
    by (intro parse_string) (simp add: str_iff)
next
  assume r: "IrcCommand_parse s = c \<and> c \<noteq> CMD_UNKNOWN"
  let ?num = "c_isdigit (char_at s 0) \<and> c_isdigit (char_at s 1) \<and> c_isdigit (char_at s 2) \<and> char_at s 3 = NUL"
  show "IrcCommand_str c = Some s"
  proof (cases ?num)
    case True
    then have d: "three_digits s" using digits_char_at assms by blast
    have c: "atoi s = c" "\<not> (c > 99 \<and> c < 200)" "IrcCommand_str c \<noteq> None"
      using r True unfolding IrcCommand_parse_def by (auto simp: Let_def split: if_splits)
    then obtain t where t: "IrcCommand_str c = Some t" by blast
    then have "(c, t) \<in> set command_strings" by (simp add: str_iff)
    moreover have "(c, t) \<notin> set message_strings" using messages_tested c(2) by (auto simp: list_all_iff)
    ultimately have "(c, t) \<in> set (welcome_strings @ reply_strings @ error_strings)"
      by (auto simp: command_strings_def)
    then have "three_digits t \<and> atoi t = c" using strings_numeric by (auto simp: list_all_iff)
    with d c(1) t atoi_inj show ?thesis by metis
  next
    case False
    then obtain tests where tests: "map_of command_tests (char_at s 0) = Some tests" "map_of tests s = Some c"
      using r unfolding IrcCommand_parse_def by (auto split: option.splits)
    then have "(char_at s 0, tests) \<in> set command_tests" "(s, c) \<in> set tests"
      by (auto dest: map_of_SomeD)
    then have "(c, s) \<in> set message_strings" using tests_have_strings by (fastforce simp: list_all_iff)
    then show ?thesis by (simp add: str_iff command_strings_def)
  qed
qed

theorem IrcCommand_parse_str_witness:
  "IrcCommand_parse ''001'' = RPL_WELCOME \<and> IrcCommand_parse ''PRIVMSG'' = MSG_PRIVMSG"
proof -
  have "IrcCommand_str RPL_WELCOME = Some ''001''" "IrcCommand_str MSG_PRIVMSG = Some ''PRIVMSG''"
    by code_simp+
  then show ?thesis
    using IrcCommand_parse_str [of "''001''" RPL_WELCOME] IrcCommand_parse_str [of "''PRIVMSG''" MSG_PRIVMSG]
    by simp
qed

text \<open>Exactly the enumerators of the header other than \<open>CMD_UNKNOWN\<close> have a string, so
  no enumerator was forgotten in \<open>IrcCommand_str\<close> and no other number is printed.\<close>

theorem IrcCommand_str_values:
  "(IrcCommand_str c \<noteq> None) = (c \<in> set IrcCommand_values \<and> c \<noteq> CMD_UNKNOWN)"
proof -
  have "set IrcCommand_values = insert CMD_UNKNOWN (set (tl IrcCommand_values))"
    using values_hd(1,2) by (metis list.exhaust_sel list.simps(15))
  then show ?thesis using str_None [of c] values_hd(3) by auto
qed

end
