(* ===== verification/Messages.thy ===== *)
theory Messages
  imports ObjList Commands
begin

text \<open>
  \<open>src/lib/ircbot/ircmessage.c\<close>: the parser that takes one message from a receive buffer.
  Reads outside the buffer are faults, so that the parser's safety is a theorem. The code's
  16-bit positions never exceed the buffer's 16-bit size (the sums \<open>endpos + 2\<close> and \<open>s + 1\<close>
  included), so they are modelled by naturals.
\<close>

section \<open>State\<close>

record 'd IrcMessage =
  m_prefix :: "string option"
  m_rawCmd :: string
  m_rawParams :: "string option"
  m_params :: "(string, 'd) IBList"
  m_command :: IrcCommand

section \<open>Parsing\<close>

abbreviation (input) SPACE :: char where "SPACE \<equiv> CHR 0x20"
abbreviation (input) COLON :: char where "COLON \<equiv> CHR 0x3A"

definition rd :: "char list \<Rightarrow> nat \<Rightarrow> char result" where
  "rd buf i = (if i < length buf then Inr (buf ! i) else Inl OutOfBounds)"

text \<open>The bytes from \<open>a\<close> up to \<open>b\<close>, as \<open>memcpy\<close> into a fresh buffer takes them.\<close>

definition copy_range :: "char list \<Rightarrow> nat \<Rightarrow> nat \<Rightarrow> char list result" where
  "copy_range buf a b = (if a \<le> b \<and> b \<le> length buf then Inr (take (b - a) (drop a buf)) else Inl OutOfBounds)"

text \<open>The first loop: the position of the next CR LF, if any.\<close>

function find_crlf :: "char list \<Rightarrow> nat \<Rightarrow> nat \<Rightarrow> nat option result" where
  "find_crlf buf sz s =
     (if s + 1 < sz
      then bind_result (rd buf s) (\<lambda>c.
             if c = CR
             then bind_result (rd buf (s + 1)) (\<lambda>d. if d = LF then Inr (Some s) else find_crlf buf sz (s + 1))
             else find_crlf buf sz (s + 1))
      else Inr None)"
  by pat_completeness auto
termination
  by (relation "measure (\<lambda>(buf, sz, s). sz - s)") auto

declare find_crlf.simps [simp del]

text \<open>The loops that look for the next blank before \<open>endpos\<close>.\<close>

function find_space :: "char list \<Rightarrow> nat \<Rightarrow> nat \<Rightarrow> nat result" where
  "find_space buf endpos e =
     (if e < endpos
      then bind_result (rd buf e) (\<lambda>c. if c = SPACE then Inr e else find_space buf endpos (e + 1))
      else Inr e)"
  by pat_completeness auto
termination
  by (relation "measure (\<lambda>(buf, endpos, e). endpos - e)") auto

declare find_space.simps [simp del]

text \<open>The step over a blank at the current position.\<close>

definition skip_space :: "char list \<Rightarrow> nat \<Rightarrow> nat result" where
  "skip_space buf currpos = bind_result (rd buf currpos) (\<lambda>c. Inr (if c = SPACE then currpos + 1 else currpos))"

text \<open>The loop over \<open>rawParams\<close>: a parameter that starts with a colon takes all the rest.\<close>

function params_loop :: "'d \<Rightarrow> string option \<Rightarrow> (string, 'd) IBList \<Rightarrow> (string, 'd) IBList" where
  "params_loop free None params = params"
| "params_loop free (Some p) params =
     (if p \<noteq> [] \<and> hd p = COLON then IBList_append params (the (IB_copystr (Some (tl p)))) (Some free)
      else (case strsep p [SPACE] of (word, p') \<Rightarrow>
              params_loop free p' (IBList_append params (the (IB_copystr (Some word))) (Some free))))"
  by pat_completeness auto
termination
  by (relation "measure (\<lambda>(free, p, params). case p of None \<Rightarrow> 0 | Some s \<Rightarrow> Suc (length s))")
    (auto split: option.splits dest: strsep_pair_length)

declare params_loop.simps(2) [simp del]

definition parse_prefix :: "char list \<Rightarrow> nat \<Rightarrow> nat \<Rightarrow> (string option \<times> nat) result" where
  "parse_prefix buf endpos currpos =
     bind_result (rd buf currpos) (\<lambda>c.
       if c = COLON
       then bind_result (find_space buf endpos (currpos + 1)) (\<lambda>e.
              bind_result (if e > currpos + 1
                           then bind_result (copy_range buf (currpos + 1) e) (\<lambda>b. Inr (Some (cstr b)))
                           else Inr None) (\<lambda>prefix.
                bind_result (skip_space buf e) (\<lambda>currpos. Inr (prefix, currpos))))
       else Inr (None, currpos))"

definition parse_params :: "'d \<Rightarrow> char list \<Rightarrow> nat \<Rightarrow> nat \<Rightarrow> (string option \<times> (string, 'd) IBList) result" where
  "parse_params free buf endpos currpos =
     (if currpos < endpos
      then bind_result (copy_range buf currpos endpos) (\<lambda>b.
             let rawParams = cstr b in Inr (Some rawParams, params_loop free (Some rawParams) IBList_create))
      else Inr (None, IBList_create))"

definition IrcMessage_create :: "'d \<Rightarrow> char list \<Rightarrow> nat \<Rightarrow> nat \<Rightarrow> ('d IrcMessage option \<times> nat) result" where
  "IrcMessage_create free buf sz pos =
     bind_result (find_crlf buf sz pos) (\<lambda>found.
       case found of
         None \<Rightarrow> Inr (None, pos)
       | Some endpos \<Rightarrow>
           if endpos = pos then Inr (None, endpos + 2)
           else bind_result (parse_prefix buf endpos pos) (\<lambda>(prefix, currpos).
                bind_result (find_space buf endpos currpos) (\<lambda>e.
                bind_result (copy_range buf currpos e) (\<lambda>cmd.
                bind_result (skip_space buf e) (\<lambda>currpos.
                bind_result (parse_params free buf endpos currpos) (\<lambda>(rawParams, params).
                  Inr (Some \<lparr>m_prefix = prefix, m_rawCmd = cstr cmd, m_rawParams = rawParams,
                             m_params = params, m_command = IrcCommand_parse (cstr cmd)\<rparr>, endpos + 2)))))))"

section \<open>The reference parser on a line\<close>

definition until_space :: "string \<Rightarrow> string" where
  "until_space s = takeWhile (\<lambda>c. c \<noteq> SPACE) s"

definition after_space :: "string \<Rightarrow> string" where
  "after_space s = drop 1 (dropWhile (\<lambda>c. c \<noteq> SPACE) s)"

text \<open>The parameters: the blank-separated fields up to one that starts with a colon.\<close>

definition middle_params :: "string \<Rightarrow> string list" where
  "middle_params s = takeWhile (\<lambda>f. f = [] \<or> hd f \<noteq> COLON) (split_fields [SPACE] s)"

definition params_spec :: "string \<Rightarrow> string list" where
  "params_spec s =
     (let fields = split_fields [SPACE] s; rest = drop (length (middle_params s)) fields
      in middle_params s @ (if rest = [] then [] else [tl (joined_with [SPACE] rest)]))"

text \<open>A line without its CR LF, split into prefix, command and raw parameters.\<close>

definition split_line :: "string \<Rightarrow> string option \<times> string \<times> string" where
  "split_line l =
     (let prefixed = (l \<noteq> [] \<and> hd l = COLON);
          prefix = (if prefixed \<and> until_space (tl l) \<noteq> [] then Some (cstr (until_space (tl l))) else None);
          rest = (if prefixed then after_space (tl l) else l)
      in (prefix, until_space rest, after_space rest))"

text \<open>What the message must hold for a line.\<close>

definition message_of_line :: "'d IrcMessage \<Rightarrow> string \<Rightarrow> bool" where
  "message_of_line m l =
     (case split_line l of (prefix, cmd, raw) \<Rightarrow>
        m_prefix m = prefix \<and> m_rawCmd m = cstr cmd \<and> m_command m = IrcCommand_parse (cstr cmd)
        \<and> m_rawParams m = (if raw = [] then None else Some (cstr raw))
        \<and> IBList_ok (m_params m)
        \<and> objs (m_params m) = (if raw = [] then [] else params_spec (cstr raw)))"

section \<open>The loops against the reference\<close>

definition line_at :: "char list \<Rightarrow> nat \<Rightarrow> nat \<Rightarrow> string" where
  "line_at buf a b = take (b - a) (drop a buf)"

lemma line_at_Cons: "a < b \<Longrightarrow> b \<le> length buf \<Longrightarrow> line_at buf a b = buf ! a # line_at buf (Suc a) b"
  by (simp add: line_at_def Cons_nth_drop_Suc [symmetric] take_Cons' del: Cons_nth_drop_Suc)

lemma line_at_Nil [simp]: "b \<le> a \<Longrightarrow> line_at buf a b = []"
  by (simp add: line_at_def)

lemma length_line_at: "b \<le> length buf \<Longrightarrow> length (line_at buf a b) = b - a"
  by (simp add: line_at_def)

lemma line_at_empty: "b \<le> length buf \<Longrightarrow> line_at buf a b = [] \<longleftrightarrow> b \<le> a"
  by (metis diff_is_0_eq length_0_conv length_line_at)

lemma find_space_correct:
  "endpos \<le> length buf \<Longrightarrow> e \<le> endpos \<Longrightarrow>
    find_space buf endpos e = Inr (e + length (until_space (line_at buf e endpos)))"
proof (induction buf endpos e rule: find_space.induct)
  case (1 buf endpos e)
  show ?case
  proof (cases "e < endpos")
    case True
    with 1 show ?thesis
      by (simp add: find_space.simps [of buf endpos e] rd_def line_at_Cons until_space_def)
  next
    case False
    with 1 show ?thesis by (simp add: find_space.simps until_space_def)
  qed
qed

lemma until_space_le: "length (until_space s) \<le> length s"
  by (simp add: until_space_def length_takeWhile_le)

lemma take_until_space: "take (length (until_space s)) s = until_space s"
  by (simp add: until_space_def takeWhile_eq_take [symmetric])

lemma after_until_space: "after_space s = drop 1 (drop (length (until_space s)) s)"
  by (simp add: after_space_def until_space_def dropWhile_eq_drop)

lemma line_at_drop: "k \<le> b - a \<Longrightarrow> line_at buf (a + k) b = drop k (line_at buf a b)"
  by (simp add: line_at_def drop_take add.commute)

text \<open>One word: found, copied, and the blank behind it stepped over.\<close>

lemma word_step:
  assumes "endpos < length buf" "buf ! endpos \<noteq> SPACE" "a \<le> endpos"
  defines "l \<equiv> line_at buf a endpos"
  defines "n \<equiv> length (until_space l)"
  shows "find_space buf endpos a = Inr (a + n)" "copy_range buf a (a + n) = Inr (until_space l)"
    and "\<exists>k. skip_space buf (a + n) = Inr k \<and> k \<le> endpos \<and> line_at buf k endpos = after_space l"
proof -
  have len: "length l = endpos - a" using assms(1) by (simp add: l_def length_line_at)
  have n: "n \<le> endpos - a" unfolding n_def using until_space_le [of l] len by simp
  show "find_space buf endpos a = Inr (a + n)"
    using find_space_correct [of endpos buf a] assms(1,3) by (simp add: l_def n_def)
  have "take n (drop a buf) = take n l"
    using n by (simp add: l_def line_at_def min_def)
  also have "\<dots> = until_space l" by (simp add: n_def take_until_space)
  finally show "copy_range buf a (a + n) = Inr (until_space l)"
    using n assms(1,3) by (simp add: copy_range_def)
  have drop: "line_at buf (a + k) endpos = drop k l" if "k \<le> endpos - a" for k
    using line_at_drop [OF that] by (simp add: l_def)
  show "\<exists>k. skip_space buf (a + n) = Inr k \<and> k \<le> endpos \<and> line_at buf k endpos = after_space l"
  proof (cases "n < length l")
    case True
    then have "l ! n = SPACE" unfolding n_def until_space_def using nth_length_takeWhile by fastforce
    then have "buf ! (a + n) = SPACE" using True len assms(1) by (simp add: l_def line_at_def)
    moreover have "line_at buf (a + n + 1) endpos = after_space l"
      using drop [of "n + 1"] True len by (simp add: after_until_space n_def)
    moreover have "a + n < endpos" using True len by simp
    ultimately show ?thesis using assms(1) by (intro exI [of _ "a + n + 1"]) (simp add: skip_space_def rd_def)
  next
    case False
    then have e: "a + n = endpos" using n len assms(3) by simp
    moreover have "after_space l = []" using False by (simp add: after_until_space n_def)
    ultimately show ?thesis using assms(1,2) by (intro exI [of _ endpos]) (simp add: skip_space_def rd_def)
  qed
qed

definition crlf_at :: "char list \<Rightarrow> nat \<Rightarrow> bool" where
  "crlf_at buf i \<longleftrightarrow> buf ! i = CR \<and> buf ! (i + 1) = LF"

lemma find_crlf_correct:
  "sz \<le> length buf \<Longrightarrow> find_crlf buf sz s = Inr (find (crlf_at buf) [s..<sz - 1])"
proof (induction buf sz s rule: find_crlf.induct)
  case (1 buf sz s)
  show ?case
  proof (cases "s + 1 < sz")
    case True
    then have "[s..<sz - 1] = s # [Suc s..<sz - 1]" by (simp add: upt_conv_Cons)
    with 1 True show ?thesis
      by (simp add: find_crlf.simps [of buf sz s] rd_def crlf_at_def)
  next
    case False
    then show ?thesis by (simp add: find_crlf.simps)
  qed
qed

lemma find_crlf_Some:
  assumes "find (crlf_at buf) [s..<sz - 1] = Some e"
  shows "s \<le> e" "e + 1 < sz" "crlf_at buf e" "\<forall>i. s \<le> i \<and> i < e \<longrightarrow> \<not> crlf_at buf i"
proof -
  from assms obtain i where i: "i < length [s..<sz - 1]" "crlf_at buf e" "e = [s..<sz - 1] ! i"
      "\<forall>j<i. \<not> crlf_at buf ([s..<sz - 1] ! j)"
    by (auto simp: find_Some_iff)
  then show "s \<le> e" "e + 1 < sz" "crlf_at buf e" by simp_all
  show "\<forall>i. s \<le> i \<and> i < e \<longrightarrow> \<not> crlf_at buf i"
  proof (intro allI impI)
    fix k assume "s \<le> k \<and> k < e"
    then have "k - s < i" using i(1,3) by simp linarith
    with i(1,3) i(4) [THEN spec, of "k - s"] \<open>s \<le> k \<and> k < e\<close> show "\<not> crlf_at buf k" by simp
  qed
qed

lemma joined_split: "joined_with [d] (split_fields [d] s) = s"
proof (induction s)
  case (Cons c s)
  obtain f fs where f: "split_fields [d] s = f # fs" by (meson list.exhaust split_fields_nonempty)
  with Cons show ?case by (cases fs) auto
qed simp

lemma split_fields_hd: "hd (split_fields delim s) = fst (strsep s delim)"
  by (subst split_fields_strsep) simp

lemma strsep_hd: "fst (strsep s delim) = f \<Longrightarrow> f \<noteq> [] \<Longrightarrow> s \<noteq> [] \<and> hd s = hd f"
  by (cases s) (auto simp: strsep_def split: if_splits)

lemma params_spec_colon: "params_spec (COLON # s) = [s]"
proof -
  obtain f fs where "split_fields [SPACE] s = f # fs" by (meson list.exhaust split_fields_nonempty)
  then have f: "split_fields [SPACE] (COLON # s) = (COLON # f) # fs" by simp
  have "tl (joined_with [SPACE] (split_fields [SPACE] (COLON # s))) = s" by (simp only: joined_split list.sel)
  then have "tl (joined_with [SPACE] ((COLON # f) # fs)) = s" by (simp only: f)
  moreover have "takeWhile (\<lambda>f. f = [] \<or> hd f \<noteq> COLON) ((COLON # f) # fs) = []" by simp
  ultimately show ?thesis unfolding params_spec_def middle_params_def f by simp
qed

lemma params_spec_word:
  assumes "\<not> (s \<noteq> [] \<and> hd s = COLON)"
  shows "params_spec s = fst (strsep s [SPACE]) #
    (case snd (strsep s [SPACE]) of None \<Rightarrow> [] | Some rest \<Rightarrow> params_spec rest)"
proof -
  let ?w = "fst (strsep s [SPACE])"
  have w: "?w = [] \<or> hd ?w \<noteq> COLON" using assms strsep_hd [OF refl, of s "[SPACE]"] by metis
  define fs where "fs = (case snd (strsep s [SPACE]) of None \<Rightarrow> [] | Some rest \<Rightarrow> split_fields [SPACE] rest)"
  have fields: "split_fields [SPACE] s = ?w # fs" unfolding fs_def by (rule split_fields_strsep)
  have "params_spec s = ?w # (let m = takeWhile (\<lambda>f. f = [] \<or> hd f \<noteq> COLON) fs; rest = drop (length m) fs
      in m @ (if rest = [] then [] else [tl (joined_with [SPACE] rest)]))"
    using w by (simp add: params_spec_def middle_params_def fields Let_def)
  then show ?thesis
    by (simp add: fs_def params_spec_def middle_params_def Let_def split: option.split)
qed

lemma params_loop_correct:
  "IBList_ok l \<Longrightarrow> IBList_ok (params_loop free p l) \<and>
    objs (params_loop free p l) = objs l @ (case p of None \<Rightarrow> [] | Some s \<Rightarrow> params_spec s)"
proof (induction free p l rule: params_loop.induct)
  case (2 free p l)
  show ?case
  proof (cases "p \<noteq> [] \<and> hd p = COLON")
    case True
    then have "p = COLON # tl p" by (metis list.collapse)
    then have "params_spec p = [tl p]" by (metis params_spec_colon)
    with True "2.prems" show ?thesis
      by (simp add: params_loop.simps(2) IBList_append_ok objs_append)
  next
    case False
    obtain word rest where w: "strsep p [SPACE] = (word, rest)" by fastforce
    note ih = "2.IH" [OF False w [symmetric] IBList_append_ok [OF "2.prems"], simplified]
    have "params_loop free (Some p) l = params_loop free rest (IBList_append l word (Some free))"
      using False w by (auto simp: params_loop.simps(2))
    with ih params_spec_word [OF False] w "2.prems" show ?thesis
      by (simp add: objs_append)
  qed
qed simp

section \<open>Correctness of the parser\<close>

lemma parse_prefix_correct:
  assumes "endpos < length buf" "buf ! endpos \<noteq> SPACE" "pos < endpos"
  defines "l \<equiv> line_at buf pos endpos"
  shows "\<exists>k. parse_prefix buf endpos pos = Inr (fst (split_line l), k) \<and> k \<le> endpos
    \<and> line_at buf k endpos = (if hd l = COLON then after_space (tl l) else l)"
proof -
  have l: "l = buf ! pos # line_at buf (Suc pos) endpos"
    using assms(1,3) by (simp add: l_def line_at_Cons)
  show ?thesis
  proof (cases "buf ! pos = COLON")
    case False
    with assms(1,3) l show ?thesis
      by (intro exI [of _ pos]) (simp add: parse_prefix_def rd_def split_line_def Let_def l_def [symmetric])
  next
    case True
    have a: "Suc pos \<le> endpos" using assms(3) by simp
    from word_step [OF assms(1,2) a] obtain k where w:
      "find_space buf endpos (Suc pos) = Inr (Suc pos + length (until_space (tl l)))"
      "copy_range buf (Suc pos) (Suc pos + length (until_space (tl l))) = Inr (until_space (tl l))"
      "skip_space buf (Suc pos + length (until_space (tl l))) = Inr k" "k \<le> endpos"
      "line_at buf k endpos = after_space (tl l)"
      unfolding l by auto
    have "rd buf pos = Inr COLON" using True assms(1,3) by (simp add: rd_def)
    moreover have "fst (split_line l) = (if until_space (tl l) \<noteq> [] then Some (cstr (until_space (tl l))) else None)"
      using l True by (simp add: split_line_def Let_def)
    ultimately show ?thesis
      using w l True by (auto simp: parse_prefix_def)
  qed
qed

text \<open>The message a line gives, as a function of the line alone.\<close>

definition parse_line :: "'d \<Rightarrow> string \<Rightarrow> 'd IrcMessage" where
  "parse_line free l =
     (case split_line l of (prefix, cmd, raw) \<Rightarrow>
        \<lparr>m_prefix = prefix, m_rawCmd = cstr cmd, m_rawParams = (if raw = [] then None else Some (cstr raw)),
         m_params = (if raw = [] then IBList_create else params_loop free (Some (cstr raw)) IBList_create),
         m_command = IrcCommand_parse (cstr cmd)\<rparr>)"

lemma parse_line_correct: "message_of_line (parse_line free l) l"
  using params_loop_correct [of IBList_create free]
  by (auto simp: message_of_line_def parse_line_def split: prod.split)

lemma IrcMessage_create_line:
  assumes "sz \<le> length buf" "find (crlf_at buf) [pos..<sz - 1] = Some e" "e \<noteq> pos"
  shows "IrcMessage_create free buf sz pos = Inr (Some (parse_line free (line_at buf pos e)), e + 2)"
proof -
  note f = find_crlf_Some [OF assms(2)]
  have e: "e < length buf" "buf ! e \<noteq> SPACE" "pos < e" using f assms(1,3) by (auto simp: crlf_at_def)
  let ?l = "line_at buf pos e"
  define rest where "rest = (if hd ?l = COLON then after_space (tl ?l) else ?l)"
  have ne: "?l \<noteq> []" using e by (simp add: line_at_empty)
  from parse_prefix_correct [OF e] obtain k1 where p: "parse_prefix buf e pos = Inr (fst (split_line ?l), k1)"
      "k1 \<le> e" "line_at buf k1 e = rest" by (auto simp: rest_def)
  from word_step [OF e(1,2) p(2)] p(3) obtain k2 where w:
      "find_space buf e k1 = Inr (k1 + length (until_space rest))"
      "copy_range buf k1 (k1 + length (until_space rest)) = Inr (until_space rest)"
      "skip_space buf (k1 + length (until_space rest)) = Inr k2" "k2 \<le> e" "line_at buf k2 e = after_space rest"
    by auto
  have raw: "copy_range buf k2 e = Inr (after_space rest)"
    using w(4,5) e(1) by (simp add: copy_range_def line_at_def)
  have empty: "k2 < e \<longleftrightarrow> after_space rest \<noteq> []" using w(4,5) e(1) line_at_empty [of e buf k2] by auto
  have split: "split_line ?l = (fst (split_line ?l), until_space rest, after_space rest)"
    using ne by (simp add: split_line_def Let_def rest_def)
  have "parse_params free buf e k2 = Inr (m_rawParams (parse_line free ?l), m_params (parse_line free ?l))"
    unfolding parse_line_def using raw empty by (subst (1 2) split) (auto simp: parse_params_def Let_def)
  moreover have "m_prefix (parse_line free ?l) = fst (split_line ?l)" "m_rawCmd (parse_line free ?l) = cstr (until_space rest)"
      "m_command (parse_line free ?l) = IrcCommand_parse (cstr (until_space rest))"
    unfolding parse_line_def by (subst split; simp)+
  ultimately show ?thesis
    using find_crlf_correct [OF assms(1), of pos] assms(2,3) p(1) w(1-3)
    by (cases "parse_line free ?l") (simp add: IrcMessage_create_def)
qed

text \<open>C14: for every buffer and position, taking a message never reads outside the buffer.
  Without a CR LF in the received part there is no message and the position stays. Otherwise
  the position moves behind the first CR LF, never past the received bytes; an empty line
  gives no message, and any other line gives the message of the reference parser: prefix,
  command with its number, raw parameters and parameter list.\<close>

theorem IrcMessage_create_correct:
  assumes "sz \<le> length buf"
  shows "case find (crlf_at buf) [pos..<sz - 1] of
      None \<Rightarrow> IrcMessage_create free buf sz pos = Inr (None, pos)
    | Some e \<Rightarrow> e + 2 \<le> sz \<and>
        (if e = pos then IrcMessage_create free buf sz pos = Inr (None, e + 2)
         else \<exists>m. IrcMessage_create free buf sz pos = Inr (Some m, e + 2) \<and> message_of_line m (line_at buf pos e))"
proof (cases "find (crlf_at buf) [pos..<sz - 1]")
  case None
  with find_crlf_correct [OF assms, of pos] show ?thesis by (simp add: IrcMessage_create_def)
next
  case (Some e)
  show ?thesis
  proof (cases "e = pos")
    case True
    with Some find_crlf_correct [OF assms, of pos] find_crlf_Some(2) [OF Some] show ?thesis
      by (simp add: IrcMessage_create_def)
  next
    case False
    then have "IrcMessage_create free buf sz pos = Inr (Some (parse_line free (line_at buf pos e)), e + 2)"
      by (rule IrcMessage_create_line [OF assms Some])
    with Some find_crlf_Some(2) [OF Some] False parse_line_correct [of free "line_at buf pos e"]
    show ?thesis by auto
  qed
qed

definition ping_bytes :: "char list" where
  "ping_bytes = ''PING :a b'' @ CRLF"

lemma ping_line: "find (crlf_at ping_bytes) [0..<11 - 1] = Some 9" "line_at ping_bytes 0 9 = ''PING :a b''"
    "split_line ''PING :a b'' = (None, ''PING'', '':a b'')" "params_spec '':a b'' = [''a b'']"
    "length ping_bytes = 11" "IrcCommand_parse ''PING'' = MSG_PING" "cstr '':a b'' = '':a b''" "cstr ''PING'' = ''PING''"
  by code_simp+

theorem IrcMessage_create_correct_witness:
  "\<exists>m. IrcMessage_create () ping_bytes 11 0 = Inr (Some m, 11) \<and> objs (m_params m) = [''a b''] \<and> m_command m = MSG_PING"
proof -
  obtain m where "IrcMessage_create () ping_bytes 11 0 = Inr (Some m, 11)" "message_of_line m ''PING :a b''"
    using IrcMessage_create_correct [of 11 ping_bytes "()" 0] ping_line by auto
  then show ?thesis using ping_line by (auto simp: message_of_line_def)
qed

section \<open>Round trip with the wire format\<close>

text \<open>A message as it stands on the wire (without CR LF): optional prefix, command, parameters
  and an optional trailing parameter.\<close>

definition wire_fields :: "string list \<Rightarrow> string option \<Rightarrow> string list" where
  "wire_fields middle trailing = middle @ (case trailing of None \<Rightarrow> [] | Some t \<Rightarrow> [COLON # t])"

definition wire_line :: "string option \<Rightarrow> string \<Rightarrow> string list \<Rightarrow> string option \<Rightarrow> string" where
  "wire_line prefix cmd middle trailing =
     (case prefix of None \<Rightarrow> [] | Some p \<Rightarrow> COLON # p @ [SPACE])
     @ joined_with [SPACE] (cmd # wire_fields middle trailing)"

definition plain :: "string \<Rightarrow> bool" where
  "plain s \<longleftrightarrow> NUL \<notin> set s \<and> CR \<notin> set s"

definition wire_word :: "string \<Rightarrow> bool" where
  "wire_word s \<longleftrightarrow> s \<noteq> [] \<and> SPACE \<notin> set s \<and> plain s"

definition wire_ok :: "string option \<Rightarrow> string \<Rightarrow> string list \<Rightarrow> string option \<Rightarrow> bool" where
  "wire_ok prefix cmd middle trailing \<longleftrightarrow> pred_option wire_word prefix \<and> wire_word cmd \<and> hd cmd \<noteq> COLON
     \<and> list_all (\<lambda>m. wire_word m \<and> hd m \<noteq> COLON) middle \<and> pred_option plain trailing"

lemma word_space [simp]:
  "SPACE \<notin> set w \<Longrightarrow> until_space (w @ SPACE # r) = w" "SPACE \<notin> set w \<Longrightarrow> until_space w = w"
  "SPACE \<notin> set w \<Longrightarrow> after_space (w @ SPACE # r) = r" "SPACE \<notin> set w \<Longrightarrow> after_space w = []"
  unfolding until_space_def after_space_def by (induction w) auto

lemma joined_head: "joined_with d (s # ss) = s @ (if ss = [] then [] else d @ joined_with d ss)"
  by (cases ss) simp_all

lemma strsep_word:
  "SPACE \<notin> set w \<Longrightarrow> strsep (w @ SPACE # r) [SPACE] = (w, Some r)"
  "SPACE \<notin> set w \<Longrightarrow> strsep w [SPACE] = (w, None)"
  unfolding strsep_def by (induction w) auto

lemma params_spec_joined:
  "list_all (\<lambda>m. wire_word m \<and> hd m \<noteq> COLON) middle \<Longrightarrow> wire_fields middle trailing \<noteq> [] \<Longrightarrow>
    params_spec (joined_with [SPACE] (wire_fields middle trailing)) = middle @ (case trailing of None \<Rightarrow> [] | Some t \<Rightarrow> [t])"
proof (induction middle)
  case Nil
  then obtain t where "trailing = Some t" by (auto simp: wire_fields_def split: option.splits)
  then show ?case by (simp add: wire_fields_def params_spec_colon)
next
  case (Cons m middle)
  let ?s = "joined_with [SPACE] (wire_fields (m # middle) trailing)" and ?fs = "wire_fields middle trailing"
  have m: "wire_word m" "hd m \<noteq> COLON" using Cons.prems by simp_all
  have s: "?s = m @ (if ?fs = [] then [] else SPACE # joined_with [SPACE] ?fs)"
    using joined_head [of "[SPACE]" m ?fs] by (simp add: wire_fields_def)
  have sep: "strsep ?s [SPACE] = (m, if ?fs = [] then None else Some (joined_with [SPACE] ?fs))"
    using m(1) strsep_word by (simp add: s wire_word_def)
  have "\<not> (?s \<noteq> [] \<and> hd ?s = COLON)" using m s by (simp add: wire_word_def)
  note step = params_spec_word [OF this, unfolded sep]
  show ?case
  proof (cases "?fs = []")
    case True
    with step show ?thesis by (auto simp: wire_fields_def split: option.splits)
  next
    case False
    with step Cons show ?thesis by simp
  qed
qed

lemma plain_joined: "list_all plain ss \<Longrightarrow> plain (joined_with [SPACE] ss)"
proof (induction ss)
  case (Cons s ss)
  then show ?case by (auto simp: joined_head plain_def)
qed (simp add: plain_def)

lemma plain_cstr: "plain s \<Longrightarrow> cstr s = s"
  by (rule cstr_id) (simp add: plain_def is_cstr_def)

lemma joined_empty: "joined_with [SPACE] (wire_fields middle trailing) = [] \<Longrightarrow>
    list_all (\<lambda>m. wire_word m \<and> hd m \<noteq> COLON) middle \<Longrightarrow> wire_fields middle trailing = []"
  by (cases middle) (auto simp: wire_fields_def joined_head wire_word_def split: option.splits)

lemma plain_wire_fields:
  assumes "wire_ok prefix cmd middle trailing"
  shows "list_all plain (wire_fields middle trailing)"
  using assms by (auto simp: wire_ok_def wire_fields_def wire_word_def list_all_iff plain_def split: option.splits)

lemma split_wire_line:
  assumes "wire_ok prefix cmd middle trailing"
  defines "raw \<equiv> joined_with [SPACE] (wire_fields middle trailing)"
  shows "split_line (wire_line prefix cmd middle trailing)
    = (prefix, cmd, if wire_fields middle trailing = [] then [] else raw)"
proof -
  let ?rest = "joined_with [SPACE] (cmd # wire_fields middle trailing)"
  have cmd: "cmd \<noteq> []" "SPACE \<notin> set cmd" "hd cmd \<noteq> COLON" using assms(1) by (auto simp: wire_ok_def wire_word_def)
  have rest: "until_space ?rest = cmd" "after_space ?rest = (if wire_fields middle trailing = [] then [] else raw)"
      "?rest \<noteq> []" "hd ?rest \<noteq> COLON"
    using cmd by (simp_all add: joined_head raw_def)
  show ?thesis
  proof (cases prefix)
    case None
    with rest show ?thesis by (simp add: wire_line_def split_line_def Let_def del: joined_with.simps)
  next
    case (Some p)
    then have p: "p \<noteq> []" "SPACE \<notin> set p" "plain p" using assms(1) by (auto simp: wire_ok_def wire_word_def)
    with Some rest show ?thesis
      by (simp add: wire_line_def split_line_def Let_def plain_cstr del: joined_with.simps)
  qed
qed

lemma plain_wire_line:
  assumes "wire_ok prefix cmd middle trailing"
  shows "plain (wire_line prefix cmd middle trailing)"
proof -
  have "plain (joined_with [SPACE] (cmd # wire_fields middle trailing))"
    using plain_wire_fields [OF assms] assms by (intro plain_joined) (simp add: wire_ok_def wire_word_def)
  then show ?thesis
    using assms by (auto simp: wire_line_def wire_ok_def wire_word_def plain_def split: option.split)
qed

lemma wire_line_nonempty: "wire_ok prefix cmd middle trailing \<Longrightarrow> wire_line prefix cmd middle trailing \<noteq> []"
  by (auto simp: wire_line_def wire_ok_def wire_word_def joined_head split: option.splits)

lemma find_first_crlf:
  fixes pre line post :: "char list"
  assumes "CR \<notin> set line"
  defines "buf \<equiv> pre @ line @ CRLF @ post"
  shows "find (crlf_at buf) [length pre..<length buf - 1] = Some (length pre + length line)"
proof -
  let ?a = "length pre" and ?e = "length pre + length line"
  have at: "crlf_at buf ?e" by (simp add: crlf_at_def buf_def nth_append)
  have no: "\<not> crlf_at buf (?a + j)" if "j < length line" for j
  proof -
    have "buf ! (?a + j) = line ! j" using that by (simp add: buf_def nth_append)
    then show ?thesis using that assms(1) by (metis crlf_at_def nth_mem)
  qed
  have up: "[?a..<length buf - 1] ! k = ?a + k" if "k \<le> length line" for k
    using that by (simp add: buf_def nth_upt del: upt_Suc)
  have "length line < length [?a..<length buf - 1] \<and> crlf_at buf ([?a..<length buf - 1] ! length line)
      \<and> Some ?e = Some ([?a..<length buf - 1] ! length line)
      \<and> (\<forall>j<length line. \<not> crlf_at buf ([?a..<length buf - 1] ! j))"
    using at no up by (simp add: buf_def del: upt_Suc)
  then show ?thesis unfolding find_Some_iff by (intro exI [of _ "length line"]) simp
qed

text \<open>C9: parsing inverts the wire format. A well-formed message standing between any bytes
  before it and behind it is taken whole: the parser returns its prefix, command, number of
  the command and parameters, the trailing one with its blanks, and moves exactly behind
  its CR LF.\<close>

theorem IrcMessage_roundtrip:
  assumes "wire_ok prefix cmd middle trailing"
  shows "\<exists>m. IrcMessage_create free (pre @ wire_line prefix cmd middle trailing @ CRLF @ post)
        (length pre + length (wire_line prefix cmd middle trailing) + 2 + length post) (length pre)
      = Inr (Some m, length pre + length (wire_line prefix cmd middle trailing) + 2)
    \<and> m_prefix m = prefix \<and> m_rawCmd m = cmd \<and> m_command m = IrcCommand_parse cmd
    \<and> objs (m_params m) = middle @ (case trailing of None \<Rightarrow> [] | Some t \<Rightarrow> [t])"
proof -
  let ?line = "wire_line prefix cmd middle trailing" and ?fs = "wire_fields middle trailing"
  let ?buf = "pre @ ?line @ CRLF @ post"
  let ?e = "length pre + length ?line"
  note plain = plain_wire_line [OF assms]
  have f: "find (crlf_at ?buf) [length pre..<length ?buf - 1] = Some ?e"
    using find_first_crlf [of ?line pre post] plain by (simp add: plain_def)
  have ne: "?e \<noteq> length pre" using wire_line_nonempty [OF assms] by simp
  have at: "line_at ?buf (length pre) ?e = ?line" by (simp add: line_at_def)
  define m where "m = parse_line free ?line"
  have m: "IrcMessage_create free ?buf (length ?buf) (length pre) = Inr (Some m, ?e + 2)" "message_of_line m ?line"
    using IrcMessage_create_line [OF order_refl f ne, of free] unfolding at m_def by (auto intro: parse_line_correct)
  have raw: "cstr (joined_with [SPACE] ?fs) = joined_with [SPACE] ?fs"
    using plain_joined [OF plain_wire_fields [OF assms]] by (rule plain_cstr)
  have mid: "list_all (\<lambda>m. wire_word m \<and> hd m \<noteq> COLON) middle" using assms by (simp add: wire_ok_def)
  have cmd: "cstr cmd = cmd" using assms by (intro plain_cstr) (simp add: wire_ok_def wire_word_def)
  have "objs (m_params m) = middle @ (case trailing of None \<Rightarrow> [] | Some t \<Rightarrow> [t])"
  proof (cases "?fs = []")
    case True
    then have "split_line ?line = (prefix, cmd, [])" using split_wire_line [OF assms] by simp
    then have "objs (m_params m) = []" using m(2) by (simp add: message_of_line_def)
    with True show ?thesis by (auto simp: wire_fields_def split: option.splits)
  next
    case False
    then have "joined_with [SPACE] ?fs \<noteq> []" using joined_empty mid by blast
    with False m(2) raw params_spec_joined [OF mid False] show ?thesis
      by (simp add: message_of_line_def split_wire_line [OF assms])
  qed
  moreover have "m_prefix m = prefix" "m_rawCmd m = cmd" "m_command m = IrcCommand_parse cmd"
    using m(2) cmd by (auto simp: message_of_line_def split_wire_line [OF assms])
  moreover have "length ?buf = length pre + length ?line + 2 + length post" by simp
  ultimately show ?thesis using m(1) by (intro exI [of _ m]) (simp add: add.assoc)
qed

theorem IrcMessage_roundtrip_witness:
  "\<exists>m. IrcMessage_create () ('':n!u@h PRIVMSG #c :hi you'' @ CRLF @ ''PING'') 31 0 = Inr (Some m, 27)
    \<and> m_prefix m = Some ''n!u@h'' \<and> m_rawCmd m = ''PRIVMSG'' \<and> objs (m_params m) = [''#c'', ''hi you'']"
proof -
  have "wire_ok (Some ''n!u@h'') ''PRIVMSG'' [''#c''] (Some ''hi you'')"
    by (simp add: wire_ok_def wire_word_def plain_def)
  from IrcMessage_roundtrip [OF this, of "()" "[]" "''PING''"] show ?thesis
    by (simp add: wire_line_def wire_fields_def eval_nat_numeral) blast
qed

end
