(* ===== verification/MessageTypes.thy ===== *)
theory MessageTypes
  imports Messages
begin

text \<open>
  What values a parsed message (\<open>ircmessage.c\<close>) can have, whatever the server sends: its fields as
  words, parameters and C strings, and that none of them can hold the end of a line.
\<close>

section \<open>Parts of a line\<close>

definition part_of :: "string \<Rightarrow> string \<Rightarrow> bool" where
  "part_of p s \<longleftrightarrow> (\<exists>a b. s = a @ p @ b)"

lemma part_of_refl [simp]: "part_of s s"
  unfolding part_of_def by (intro exI [of _ "[]"]) simp

lemma part_of_trans: "part_of p q \<Longrightarrow> part_of q s \<Longrightarrow> part_of p s"
  unfolding part_of_def by (metis append.assoc)

lemma part_of_append: "part_of p (p @ r)" "part_of r (p @ r)"
  unfolding part_of_def by (metis append.assoc append_Nil append_Nil2)+

lemma part_of_nil: "part_of p [] \<longleftrightarrow> p = []"
  by (auto simp: part_of_def)

lemma part_of_takeWhile: "part_of (takeWhile P s) s"
  by (metis takeWhile_dropWhile_id part_of_append(1))

lemma part_of_drop: "part_of (drop n s) s"
  by (metis append_take_drop_id part_of_append(2))

lemma part_of_tl: "part_of (tl s) s"
  by (metis drop_Suc drop_0 part_of_drop)

lemma part_of_cstr: "part_of (cstr s) s"
  by (simp add: cstr_def part_of_takeWhile)

lemma part_of_until: "part_of (until_space s) s"
  by (simp add: until_space_def part_of_takeWhile)

lemma part_of_after: "part_of (after_space s) s"
  by (metis after_until_space part_of_drop part_of_trans)

lemma NUL_cstr [simp]: "NUL \<notin> set (cstr s)"
  by (auto simp: cstr_def dest: set_takeWhileD)

lemma SPACE_until [simp]: "SPACE \<notin> set (until_space s)"
  by (auto simp: until_space_def dest: set_takeWhileD)

lemma SPACE_part: "part_of p s \<Longrightarrow> SPACE \<notin> set s \<Longrightarrow> SPACE \<notin> set p"
  by (auto simp: part_of_def)

lemma NUL_part: "part_of p s \<Longrightarrow> NUL \<notin> set s \<Longrightarrow> NUL \<notin> set p"
  by (auto simp: part_of_def)

lemma line_no_crlf:
  assumes "e \<le> length buf" "\<forall>i. pos \<le> i \<and> i < e \<longrightarrow> \<not> crlf_at buf i"
  shows "\<not> part_of CRLF (line_at buf pos e)"
proof
  assume "part_of CRLF (line_at buf pos e)"
  then obtain a b where l: "line_at buf pos e = a @ CR # LF # b" by (auto simp: part_of_def)
  then have len: "length a + 2 \<le> e - pos" using length_line_at [OF assms(1), of pos] by simp
  have at: "line_at buf pos e ! k = buf ! (pos + k)" if "k < e - pos" for k
    using that assms(1) by (simp add: line_at_def)
  have "buf ! (pos + length a) = CR" "buf ! (pos + length a + 1) = LF"
    using at [of "length a"] at [of "length a + 1"] len unfolding l by (simp_all add: nth_append)
  then have "crlf_at buf (pos + length a)" by (simp add: crlf_at_def)
  with assms(2) len show False by simp
qed

section \<open>Parameters\<close>

definition middle_word :: "string \<Rightarrow> bool" where
  "middle_word w \<longleftrightarrow> SPACE \<notin> set w \<and> (w = [] \<or> hd w \<noteq> COLON)"

lemma params_spec_parts:
  "params_spec s \<noteq> [] \<and> list_all (\<lambda>p. part_of p s) (params_spec s) \<and> list_all middle_word (butlast (params_spec s))"
proof (induction s rule: length_induct)
  case (1 s)
  show ?case
  proof (cases "s \<noteq> [] \<and> hd s = COLON")
    case True
    then have "params_spec s = [tl s]" by (metis list.collapse params_spec_colon)
    then show ?thesis using part_of_tl by simp
  next
    case False
    obtain w rest where sep: "strsep s [SPACE] = (w, rest)" by fastforce
    have sw: "w = takeWhile (\<lambda>c. c \<noteq> SPACE) s" using sep by (auto simp: strsep_def Let_def split: if_splits)
    have w: "part_of w s" "middle_word w"
      using part_of_takeWhile False strsep_hd [of s "[SPACE]" w] sep
      by (auto simp: sw middle_word_def dest: set_takeWhileD)
    note step = params_spec_word [OF False, unfolded sep fst_conv snd_conv]
    show ?thesis
    proof (cases rest)
      case None
      with step w show ?thesis by simp
    next
      case (Some r)
      then have sep': "strsep s [SPACE] = (w, Some r)" using sep by simp
      then obtain c where "dropWhile (\<lambda>c. c \<noteq> SPACE) s = c # r" by (auto simp: strsep_def split: list.splits)
      then have "s = (w @ [c]) @ r @ []" unfolding sw by (metis append.assoc append_Cons append_Nil append_Nil2 takeWhile_dropWhile_id)
      then have r: "length r < length s" "part_of r s" using strsep_pair_length(1) [OF sep'] unfolding part_of_def by blast+
      from 1 r(1) have ih: "params_spec r \<noteq> []" "list_all (\<lambda>p. part_of p r) (params_spec r)"
          "list_all middle_word (butlast (params_spec r))"
        by blast+
      then have "list_all (\<lambda>p. part_of p s) (params_spec r)"
        using part_of_trans [OF _ r(2)] by (auto simp: list_all_iff)
      with ih w step Some show ?thesis by simp
    qed
  qed
qed

section \<open>The type of a message\<close>

definition safe_field :: "string \<Rightarrow> bool" where
  "safe_field s \<longleftrightarrow> NUL \<notin> set s \<and> \<not> part_of CRLF s"

definition message_typed :: "'d IrcMessage \<Rightarrow> bool" where
  "message_typed m \<longleftrightarrow>
     pred_option (\<lambda>p. SPACE \<notin> set p \<and> safe_field p) (m_prefix m)
     \<and> SPACE \<notin> set (m_rawCmd m) \<and> safe_field (m_rawCmd m) \<and> m_command m = IrcCommand_parse (m_rawCmd m)
     \<and> pred_option safe_field (m_rawParams m) \<and> IBList_ok (m_params m)
     \<and> (objs (m_params m) = [] \<longleftrightarrow> m_rawParams m = None)
     \<and> list_all safe_field (objs (m_params m)) \<and> list_all middle_word (butlast (objs (m_params m)))"

lemma safe_part: "part_of p s \<Longrightarrow> safe_field s \<Longrightarrow> safe_field p"
  using part_of_trans NUL_part by (auto simp: safe_field_def)

lemma safe_cstr: "part_of p l \<Longrightarrow> \<not> part_of CRLF l \<Longrightarrow> safe_field (cstr p)"
  using part_of_trans [OF part_of_trans [OF _ part_of_cstr]] by (auto simp: safe_field_def)

lemma line_typed:
  assumes "message_of_line m l" "\<not> part_of CRLF l"
  shows "message_typed m"
proof -
  obtain pre cmd raw where s: "split_line l = (pre, cmd, raw)" by (metis prod_cases3)
  have parts: "part_of cmd l" "part_of raw l" "pre = None \<or> pre = Some (cstr (until_space (tl l)))" "SPACE \<notin> set cmd"
    using s part_of_until part_of_after part_of_tl part_of_trans
    by (auto simp: split_line_def Let_def) meson+
  have "part_of (until_space (tl l)) l" using part_of_until part_of_tl part_of_trans by blast
  note safe = safe_cstr [OF this assms(2)] safe_cstr [OF parts(1) assms(2)] safe_cstr [OF parts(2) assms(2)]
  have nosp: "SPACE \<notin> set (cstr (until_space (tl l)))" "SPACE \<notin> set (cstr cmd)"
    using SPACE_part [OF part_of_cstr] parts(4) by auto
  have "list_all safe_field (params_spec (cstr raw))"
    using params_spec_parts [of "cstr raw"] safe_part [OF _ safe(3)] by (auto simp: list_all_iff)
  then show ?thesis
    using assms(1) s parts(3) safe nosp params_spec_parts [of "cstr raw"]
    by (auto simp: message_of_line_def message_typed_def)
qed

text \<open>
  C15: whatever bytes a server sends, a message taken from them is well typed: prefix and command are
  words, every parameter but the last is a word that does not start with a colon, there are
  parameters exactly when there are raw ones, the number of the command is that of its text,
  and no field holds a zero byte or the end of a line, so that none can smuggle a second line
  into what is sent with it.
\<close>

theorem IrcMessage_typed:
  assumes "sz \<le> length buf" "IrcMessage_create free buf sz pos = Inr (Some m, pos')"
  shows "message_typed m"
proof (cases "find (crlf_at buf) [pos..<sz - 1]")
  case None
  with find_crlf_correct [OF assms(1), of pos] assms(2) show ?thesis by (simp add: IrcMessage_create_def)
next
  case (Some e)
  show ?thesis
  proof (cases "e = pos")
    case True
    with find_crlf_correct [OF assms(1), of pos] assms(2) Some show ?thesis by (simp add: IrcMessage_create_def)
  next
    case False
    have m: "m = parse_line free (line_at buf pos e)"
      using IrcMessage_create_line [OF assms(1) Some False, of free] assms(2) by simp
    note f = find_crlf_Some [OF Some]
    show ?thesis
      unfolding m
      by (rule line_typed [OF parse_line_correct line_no_crlf]) (use f assms(1) in auto)
  qed
qed

theorem IrcMessage_typed_witness:
  "\<exists>m. IrcMessage_create () ping_bytes 11 0 = Inr (Some m, 11) \<and> message_typed m"
proof -
  have "IrcMessage_create () ping_bytes 11 0 = Inr (Some (parse_line () ''PING :a b''), 11)"
    using IrcMessage_create_line [of 11 ping_bytes 0 9 "()"] ping_line by simp
  with IrcMessage_typed [OF _ this] ping_line(5) show ?thesis by auto
qed

end
