(* ===== verification/Service.thy ===== *)
theory Service
  imports Prelude
begin

text \<open>
  \<open>src/lib/ircbot/service.c\<close>: the service's static state (the watched file descriptors, the
  shutdown counters, the tick timer, the panic handlers) and its main loop. The static
  variables are a record; its extension is the state of the rest of the program, which the
  handlers of the service's events change together with it (parameter \<open>raise\<close>). What
  the kernel does in one round (the signals delivered, the result of \<open>pselect\<close>) is a value
  of the record \<open>poll\<close>.
\<close>

section \<open>State\<close>

abbreviation (input) FD_SETSIZE :: nat where "FD_SETSIZE \<equiv> 1024"
abbreviation (input) MAXPANICHANDLERS :: nat where "MAXPANICHANDLERS \<equiv> 8"
abbreviation (input) EXIT_SUCCESS :: int where "EXIT_SUCCESS \<equiv> 0"
abbreviation (input) EXIT_FAILURE :: int where "EXIT_FAILURE \<equiv> 1"

record timeval =
  tv_sec :: "32 word"
  tv_usec :: "32 word"

record 'h Service =
  opts_given :: bool
  readfds :: "nat set"
  writefds :: "nat set"
  nread :: nat
  nwrite :: nat
  nfds :: nat
  running :: bool
  shutdownRequest :: bool
  timerTick :: bool
  shutdownRef :: int
  shutdownTicks :: int
  timer_interval :: timeval
  timer_value :: timeval
  panicHandlers :: "'h array"
  numPanicHandlers :: nat

datatype svc_event = ReadyRead | ReadyWrite | Startup | Shutdown | Tick | EventsDone

definition Service_init :: "('h, 'x) Service_scheme \<Rightarrow> int \<times> ('h, 'x) Service_scheme" where
  "Service_init s =
     (if opts_given s then (-1, s)
      else (0, s\<lparr>opts_given := True, readfds := {}, writefds := {}, nread := 0, nwrite := 0, nfds := 0,
                 running := False, shutdownRequest := False, timerTick := False, shutdownRef := -1,
                 shutdownTicks := -1, timer_interval := \<lparr>tv_sec = 0, tv_usec = 0\<rparr>,
                 timer_value := \<lparr>tv_sec = 0, tv_usec = 0\<rparr>\<rparr>))"

section \<open>Watching file descriptors\<close>

text \<open>The loop \<open>for (fd = id; fd >= 0; --fd)\<close> that looks for a watched descriptor: \<open>fd + 1\<close>.\<close>

fun highest_from :: "nat set \<Rightarrow> nat set \<Rightarrow> nat \<Rightarrow> nat" where
  "highest_from r w 0 = (if 0 \<in> r \<or> 0 \<in> w then 1 else 0)"
| "highest_from r w (Suc fd) = (if Suc fd \<in> r \<or> Suc fd \<in> w then Suc (Suc fd) else highest_from r w fd)"

definition tryReduceNfds :: "nat \<Rightarrow> ('h, 'x) Service_scheme \<Rightarrow> ('h, 'x) Service_scheme" where
  "tryReduceNfds fd s =
     (if nread s = 0 \<and> nwrite s = 0 then s\<lparr>nfds := 0\<rparr>
      else if fd + 1 \<ge> nfds s then s\<lparr>nfds := highest_from (readfds s) (writefds s) fd\<rparr>
      else s)"

text \<open>A descriptor outside an \<open>fd_set\<close> is an access outside the object.\<close>

definition Service_registerRead :: "nat \<Rightarrow> ('h, 'x) Service_scheme \<Rightarrow> ('h, 'x) Service_scheme result" where
  "Service_registerRead fd s =
     (if fd \<ge> FD_SETSIZE then Inl OutOfBounds
      else if fd \<in> readfds s then Inr s
      else let s = s\<lparr>readfds := insert fd (readfds s), nread := nread s + 1\<rparr>
           in Inr (if fd \<ge> nfds s then s\<lparr>nfds := fd + 1\<rparr> else s))"

definition Service_unregisterRead :: "nat \<Rightarrow> ('h, 'x) Service_scheme \<Rightarrow> ('h, 'x) Service_scheme result" where
  "Service_unregisterRead fd s =
     (if fd \<ge> FD_SETSIZE then Inl OutOfBounds
      else if fd \<notin> readfds s then Inr s
      else Inr (tryReduceNfds fd (s\<lparr>readfds := readfds s - {fd}, nread := nread s - 1\<rparr>)))"

definition Service_registerWrite :: "nat \<Rightarrow> ('h, 'x) Service_scheme \<Rightarrow> ('h, 'x) Service_scheme result" where
  "Service_registerWrite fd s =
     (if fd \<ge> FD_SETSIZE then Inl OutOfBounds
      else if fd \<in> writefds s then Inr s
      else let s = s\<lparr>writefds := insert fd (writefds s), nwrite := nwrite s + 1\<rparr>
           in Inr (if fd \<ge> nfds s then s\<lparr>nfds := fd + 1\<rparr> else s))"

definition Service_unregisterWrite :: "nat \<Rightarrow> ('h, 'x) Service_scheme \<Rightarrow> ('h, 'x) Service_scheme result" where
  "Service_unregisterWrite fd s =
     (if fd \<ge> FD_SETSIZE then Inl OutOfBounds
      else if fd \<notin> writefds s then Inr s
      else Inr (tryReduceNfds fd (s\<lparr>writefds := writefds s - {fd}, nwrite := nwrite s - 1\<rparr>)))"

section \<open>Panic handlers, timer and shutdown counters\<close>

definition Service_registerPanic :: "'h \<Rightarrow> ('h, 'x) Service_scheme \<Rightarrow> ('h, 'x) Service_scheme" where
  "Service_registerPanic handler s =
     (if numPanicHandlers s \<ge> MAXPANICHANDLERS then s
      else s\<lparr>panicHandlers := (panicHandlers s)[numPanicHandlers s := Some handler],
             numPanicHandlers := numPanicHandlers s + 1\<rparr>)"

function unregisterPanic_loop :: "'h \<Rightarrow> nat \<Rightarrow> ('h, 'x) Service_scheme \<Rightarrow> ('h, 'x) Service_scheme" where
  "unregisterPanic_loop handler i s =
     (if i < numPanicHandlers s
      then (if panicHandlers s ! i = Some handler
            then (let n = numPanicHandlers s - 1 in
                  if n > i
                  then s\<lparr>numPanicHandlers := n, panicHandlers := memmove (panicHandlers s) i (i + 1) (n - i)\<rparr>
                  else s\<lparr>numPanicHandlers := n\<rparr>)
            else unregisterPanic_loop handler (i + 1) s)
      else s)"
  by pat_completeness auto
termination
  by (relation "measure (\<lambda>(h, i, s). numPanicHandlers s - i)") auto

declare unregisterPanic_loop.simps [simp del]

definition Service_unregisterPanic :: "'h \<Rightarrow> ('h, 'x) Service_scheme \<Rightarrow> ('h, 'x) Service_scheme" where
  "Service_unregisterPanic handler s = unregisterPanic_loop handler 0 s"

text \<open>\<open>setitimer\<close> is called while the service runs; \<open>set_ok\<close> is its result.\<close>

definition Service_setTickInterval :: "int \<Rightarrow> 32 word \<Rightarrow> ('h, 'x) Service_scheme \<Rightarrow> int \<times> ('h, 'x) Service_scheme" where
  "Service_setTickInterval set_rc msec s =
     (let tv = \<lparr>tv_sec = msec div 1000, tv_usec = 1000 * (msec mod 1000)\<rparr>;
          s = s\<lparr>timer_interval := tv, timer_value := tv\<rparr>
      in (if running s then set_rc else 0, s))"

definition handlesig :: "bool \<Rightarrow> ('h, 'x) Service_scheme \<Rightarrow> ('h, 'x) Service_scheme" where
  "handlesig is_alrm s = (if is_alrm then s\<lparr>timerTick := True\<rparr> else s\<lparr>shutdownRequest := True\<rparr>)"

definition Service_quit :: "('h, 'x) Service_scheme \<Rightarrow> ('h, 'x) Service_scheme" where
  "Service_quit s = s\<lparr>shutdownRequest := True\<rparr>"

definition Service_shutdownLock :: "int \<Rightarrow> ('h, 'x) Service_scheme \<Rightarrow> ('h, 'x) Service_scheme" where
  "Service_shutdownLock set_rc s =
     (let s = (if shutdownRef s = 0 then snd (Service_setTickInterval set_rc 1000 s) else s)
      in if shutdownRef s \<ge> 0 then s\<lparr>shutdownRef := shutdownRef s + 1\<rparr> else s)"

definition Service_shutdownUnlock :: "('h, 'x) Service_scheme \<Rightarrow> ('h, 'x) Service_scheme" where
  "Service_shutdownUnlock s = (if shutdownRef s > 0 then s\<lparr>shutdownRef := shutdownRef s - 1\<rparr> else s)"

text \<open>
  \<open>Service_done\<close>: the events that are destroyed. The pointers to \<open>tick\<close> and \<open>eventsDone\<close> are not reset,
  but \<open>Service_init\<close> creates all events again.
\<close>

definition Service_done :: "('h, 'x) Service_scheme \<Rightarrow> svc_event list \<times> ('h, 'x) Service_scheme" where
  "Service_done s =
     (if \<not> opts_given s then ([], s)
      else ([EventsDone, Tick, Shutdown, Startup, ReadyWrite, ReadyRead], s\<lparr>opts_given := False\<rparr>))"

text \<open>A service is initialised once, and again only when it was ended.\<close>

lemma Service_init_once:
  "fst (Service_init (snd (Service_init s))) = -1" "fst (Service_init (snd (Service_done s))) = 0"
  "Service_done (snd (Service_done s)) = ([], snd (Service_done s))"
  by (simp_all add: Service_init_def Service_done_def)

section \<open>The main loop\<close>

record poll =
  p_term :: bool        \<comment> \<open>SIGTERM or SIGINT was delivered\<close>
  p_alrm :: bool        \<comment> \<open>SIGALRM was delivered\<close>
  p_src :: int          \<comment> \<open>the result of \<open>pselect\<close>\<close>
  p_read :: "nat set"   \<comment> \<open>the descriptors left in \<open>rfds\<close>\<close>
  p_write :: "nat set"  \<comment> \<open>the descriptors left in \<open>wfds\<close>\<close>

datatype flow = Again | Leave int

definition deliver :: "poll \<Rightarrow> ('h, 'x) Service_scheme \<Rightarrow> ('h, 'x) Service_scheme" where
  "deliver p s =
     (let s = (if p_term p then handlesig False s else s)
      in if p_alrm p then handlesig True s else s)"

text \<open>
  The loop \<open>for (int i = 0; src > 0 && i < nfds; ++i)\<close> that raises an event per ready
  descriptor; \<open>nfds\<close> is read anew each time, the handlers can change it.
\<close>

function dispatch :: "(svc_event \<Rightarrow> nat \<Rightarrow> ('h, 'x) Service_scheme \<Rightarrow> ('h, 'x) Service_scheme) \<Rightarrow>
    svc_event \<Rightarrow> nat set \<Rightarrow> nat \<Rightarrow> int \<Rightarrow> ('h, 'x) Service_scheme \<Rightarrow> ('h, 'x) Service_scheme \<times> int" where
  "dispatch raise ev fds i src s =
     (if src > 0 \<and> i < nfds s
      then (if i \<in> fds then dispatch raise ev fds (i + 1) (src - 1) (raise ev i s)
            else dispatch raise ev fds (i + 1) src s)
      else (s, src))"
  by pat_completeness auto
termination
  by (relation "measures [\<lambda>(raise, ev, fds, i, src, s). nat src, \<lambda>(raise, ev, fds, i, src, s). nfds s - i]") auto

declare dispatch.simps [simp del]

definition loop_body :: "(svc_event \<Rightarrow> nat \<Rightarrow> ('h, 'x) Service_scheme \<Rightarrow> ('h, 'x) Service_scheme) \<Rightarrow>
    poll \<Rightarrow> int \<Rightarrow> ('h, 'x) Service_scheme \<Rightarrow> ('h, 'x) Service_scheme \<times> flow" where
  "loop_body raise p rc s =
     (let s = raise EventsDone 0 s;
          r = (nread s \<noteq> 0);
          w = (nwrite s \<noteq> 0);
          s = (if \<not> shutdownRequest s then deliver p s else s)
      in if shutdownRequest s
         then (raise Shutdown 0 (s\<lparr>shutdownRequest := False, shutdownRef := 0, shutdownTicks := 5\<rparr>), Again)
         else if timerTick s
         then (let s = s\<lparr>timerTick := False\<rparr> in
               if shutdownTicks s > 0
               then (let s = s\<lparr>shutdownTicks := shutdownTicks s - 1\<rparr> in
                     if shutdownTicks s = 0 then (s\<lparr>shutdownRef := 0\<rparr>, Leave rc)
                     else (raise Tick 0 s, Again))
               else (raise Tick 0 s, Again))
         else if p_src p < 0 then (s, Leave EXIT_FAILURE)
         else (let (s, src) = (if w then dispatch raise ReadyWrite (p_write p) 0 (p_src p) s else (s, p_src p));
                   (s, src) = (if r then dispatch raise ReadyRead (p_read p) 0 src s else (s, src))
               in (s, Again)))"

text \<open>
  The loop for the rounds the kernel plays: \<open>None\<close> when it still runs after them.
\<close>

fun svc_loop :: "(svc_event \<Rightarrow> nat \<Rightarrow> ('h, 'x) Service_scheme \<Rightarrow> ('h, 'x) Service_scheme) \<Rightarrow>
    poll list \<Rightarrow> int \<Rightarrow> ('h, 'x) Service_scheme \<Rightarrow> (int \<times> ('h, 'x) Service_scheme) option" where
  "svc_loop raise [] rc s = (if shutdownRef s \<noteq> 0 then None else Some (rc, s))"
| "svc_loop raise (p # ps) rc s =
     (if shutdownRef s \<noteq> 0
      then (case loop_body raise p rc s of
              (s, Again) \<Rightarrow> svc_loop raise ps rc s
            | (s, Leave rc) \<Rightarrow> Some (rc, s))
      else Some (rc, s))"

section \<open>Running the service\<close>

text \<open>The results of the system calls around the loop, and the privileges asked for.\<close>

record run_env =
  e_uid :: int
  e_gid :: int
  e_root :: bool
  setgroups_ok :: bool
  setgid_ok :: bool
  setuid_ok :: bool
  block_ok :: bool
  sigactions_ok :: "bool list"
  settimer_ok :: bool
  unblock_ok :: bool
  resettimer_ok :: bool

definition drop_privileges :: "run_env \<Rightarrow> bool" where
  "drop_privileges e =
     (if e_uid e \<noteq> -1 \<and> e_root e
      then (if e_gid e \<noteq> -1 \<and> (\<not> setgroups_ok e \<or> \<not> setgid_ok e) then False else setuid_ok e)
      else True)"

text \<open>The label \<open>done\<close>.\<close>

definition run_done :: "run_env \<Rightarrow> int \<Rightarrow> int" where
  "run_done e rc =
     (let rc = (if \<not> unblock_ok e then EXIT_FAILURE else rc)
      in if \<not> resettimer_ok e then EXIT_FAILURE else rc)"

definition Service_run :: "run_env \<Rightarrow> (('h, 'x) Service_scheme \<Rightarrow> int \<times> ('h, 'x) Service_scheme) \<Rightarrow>
    (svc_event \<Rightarrow> nat \<Rightarrow> ('h, 'x) Service_scheme \<Rightarrow> ('h, 'x) Service_scheme) \<Rightarrow>
    poll list \<Rightarrow> ('h, 'x) Service_scheme \<Rightarrow> (int \<times> ('h, 'x) Service_scheme) option" where
  "Service_run e startup raise polls s =
     (if \<not> opts_given s then Some (-1, s)
      else if \<not> drop_privileges e then Some (EXIT_FAILURE, s)
      else if \<not> block_ok e then Some (EXIT_FAILURE, s)
      else if \<not> list_all (\<lambda>ok. ok) (sigactions_ok e) \<or> \<not> settimer_ok e then Some (run_done e EXIT_FAILURE, s)
      else case startup s of (rc, s) \<Rightarrow>
        if rc \<noteq> EXIT_SUCCESS then Some (run_done e rc, s)
        else (case svc_loop raise polls rc (s\<lparr>running := True\<rparr>) of
                None \<Rightarrow> None
              | Some (rc, s) \<Rightarrow> Some (run_done e rc, s\<lparr>running := False\<rparr>)))"

section \<open>The watched descriptors\<close>

datatype fd_op = RegRead nat | UnregRead nat | RegWrite nat | UnregWrite nat

fun fd_step :: "fd_op \<Rightarrow> ('h, 'x) Service_scheme \<Rightarrow> ('h, 'x) Service_scheme result" where
  "fd_step (RegRead fd) = Service_registerRead fd"
| "fd_step (UnregRead fd) = Service_unregisterRead fd"
| "fd_step (RegWrite fd) = Service_registerWrite fd"
| "fd_step (UnregWrite fd) = Service_unregisterWrite fd"

fun fd_run :: "fd_op list \<Rightarrow> ('h, 'x) Service_scheme \<Rightarrow> ('h, 'x) Service_scheme result" where
  "fd_run [] s = Inr s"
| "fd_run (op # ops) s = bind_result (fd_step op s) (fd_run ops)"

definition watched :: "('h, 'x) Service_scheme \<Rightarrow> nat set" where
  "watched s = readfds s \<union> writefds s"

definition fds_ok :: "('h, 'x) Service_scheme \<Rightarrow> bool" where
  "fds_ok s \<longleftrightarrow> finite (watched s) \<and> nread s = card (readfds s) \<and> nwrite s = card (writefds s)
     \<and> (\<forall>fd\<in>watched s. fd < nfds s) \<and> (nfds s = 0 \<or> nfds s - 1 \<in> watched s)"

lemma highest_from_spec:
  "(\<forall>fd\<in>r \<union> w. fd \<le> n \<longrightarrow> fd < highest_from r w n) \<and>
   (highest_from r w n = 0 \<or> highest_from r w n - 1 \<in> r \<union> w)"
  by (induction r w n rule: highest_from.induct) (auto simp: le_Suc_eq)

lemma fds_ok_counts:
  assumes "finite (watched s)" "nread s = card (readfds s)" "nwrite s = card (writefds s)"
  shows "nread s = 0 \<and> nwrite s = 0 \<longleftrightarrow> watched s = {}"
  using assms by (auto simp: watched_def)

lemma tryReduceNfds_ok:
  assumes "finite (watched s)" "nread s = card (readfds s)" "nwrite s = card (writefds s)"
    and "\<forall>fd\<in>watched s. fd < nfds s" "nfds s - 1 \<in> insert fd (watched s)" "nfds s \<noteq> 0"
  shows "fds_ok (tryReduceNfds fd s)"
proof (cases "watched s = {}")
  case True
  with fds_ok_counts [OF assms(1-3)] assms show ?thesis
    by (simp add: tryReduceNfds_def fds_ok_def watched_def)
next
  case False
  then have n: "\<not> (nread s = 0 \<and> nwrite s = 0)" using fds_ok_counts [OF assms(1-3)] by simp
  show ?thesis
  proof (cases "fd + 1 \<ge> nfds s")
    case True
    then have "\<forall>x\<in>watched s. x \<le> fd" using assms(4) by fastforce
    with highest_from_spec [where r = "readfds s" and w = "writefds s" and n = fd] n True assms(1-3)
    show ?thesis by (auto simp: tryReduceNfds_def fds_ok_def watched_def)
  next
    case False
    with n assms show ?thesis by (auto simp: tryReduceNfds_def fds_ok_def watched_def)
  qed
qed

lemma register_ok:
  assumes "fds_ok s" "fd < FD_SETSIZE"
  shows "\<exists>s'. Service_registerRead fd s = Inr s' \<and> fds_ok s'" "\<exists>s'. Service_registerWrite fd s = Inr s' \<and> fds_ok s'"
proof -
  have fin: "finite (readfds s)" "finite (writefds s)" using assms(1) by (auto simp: fds_ok_def watched_def)
  have low: "x < Suc fd" if "nfds s \<le> fd" "x \<in> readfds s \<or> x \<in> writefds s" for x
  proof -
    have "x < nfds s" using that(2) assms(1) by (auto simp: fds_ok_def watched_def)
    with that(1) show ?thesis by simp
  qed
  show "\<exists>s'. Service_registerRead fd s = Inr s' \<and> fds_ok s'"
    using assms fin by (auto simp: Service_registerRead_def fds_ok_def watched_def Let_def low)
  show "\<exists>s'. Service_registerWrite fd s = Inr s' \<and> fds_ok s'"
    using assms fin by (auto simp: Service_registerWrite_def fds_ok_def watched_def Let_def low)
qed

lemma unregister_ok:
  assumes "fds_ok s" "fd < FD_SETSIZE"
  shows "\<exists>s'. Service_unregisterRead fd s = Inr s' \<and> fds_ok s'" "\<exists>s'. Service_unregisterWrite fd s = Inr s' \<and> fds_ok s'"
proof -
  have fin: "finite (readfds s)" "finite (writefds s)" using assms(1) by (auto simp: fds_ok_def watched_def)
  have "fds_ok (tryReduceNfds fd (s\<lparr>readfds := readfds s - {fd}, nread := nread s - 1\<rparr>))" if "fd \<in> readfds s"
    using that assms fin by (intro tryReduceNfds_ok) (auto simp: fds_ok_def watched_def)
  then show "\<exists>s'. Service_unregisterRead fd s = Inr s' \<and> fds_ok s'"
    using assms by (auto simp: Service_unregisterRead_def)
  have "fds_ok (tryReduceNfds fd (s\<lparr>writefds := writefds s - {fd}, nwrite := nwrite s - 1\<rparr>))" if "fd \<in> writefds s"
    using that assms fin by (intro tryReduceNfds_ok) (auto simp: fds_ok_def watched_def)
  then show "\<exists>s'. Service_unregisterWrite fd s = Inr s' \<and> fds_ok s'"
    using assms by (auto simp: Service_unregisterWrite_def)
qed

fun op_fd :: "fd_op \<Rightarrow> nat" where
  "op_fd (RegRead fd) = fd"
| "op_fd (UnregRead fd) = fd"
| "op_fd (RegWrite fd) = fd"
| "op_fd (UnregWrite fd) = fd"

lemma fd_step_ok: "fds_ok s \<Longrightarrow> op_fd op < FD_SETSIZE \<Longrightarrow> \<exists>s'. fd_step op s = Inr s' \<and> fds_ok s'"
  using register_ok unregister_ok by (cases op) auto

lemma fd_run_ok:
  "fds_ok s \<Longrightarrow> list_all (\<lambda>op. op_fd op < FD_SETSIZE) ops \<Longrightarrow> \<exists>s'. fd_run ops s = Inr s' \<and> fds_ok s'"
proof (induction ops arbitrary: s)
  case (Cons op ops)
  then obtain s1 where s1: "fd_step op s = Inr s1" "fds_ok s1" using fd_step_ok by fastforce
  with Cons show ?case by simp
qed simp

lemma fds_ok_max:
  assumes "fds_ok s"
  shows "nfds s = (if watched s = {} then 0 else Suc (Max (watched s)))"
proof (cases "watched s = {}")
  case False
  then have "nfds s \<noteq> 0" using assms by (auto simp: fds_ok_def)
  then have "nfds s - 1 \<in> watched s" "\<forall>fd\<in>watched s. fd \<le> nfds s - 1"
    using assms by (auto simp: fds_ok_def)
  then have "Max (watched s) = nfds s - 1" using assms by (intro Max_eqI) (auto simp: fds_ok_def)
  with False \<open>nfds s \<noteq> 0\<close> show ?thesis by simp
qed (use assms in \<open>auto simp: fds_ok_def\<close>)

text \<open>C28: whatever legal descriptors are registered and unregistered for reading and
  writing, in any order and any number of times, the counts are the numbers of watched
  descriptors and \<open>nfds\<close> is always one more than the highest watched one (0 when none is),
  as \<open>pselect\<close> needs it: the search in \<open>tryReduceNfds\<close> never stops too early.\<close>

theorem Service_nfds_exact:
  assumes "list_all (\<lambda>op. op_fd op < FD_SETSIZE) ops" "\<not> opts_given s"
  shows "\<exists>s'. fd_run ops (snd (Service_init s)) = Inr s' \<and>
    nread s' = card (readfds s') \<and> nwrite s' = card (writefds s') \<and>
    nfds s' = (if watched s' = {} then 0 else Suc (Max (watched s')))"
proof -
  have "fds_ok (snd (Service_init s))"
    using assms(2) by (simp add: Service_init_def fds_ok_def watched_def)
  from fd_run_ok [OF this assms(1)] obtain s' where s': "fd_run ops (snd (Service_init s)) = Inr s'" "fds_ok s'"
    by blast
  with fds_ok_max [OF s'(2)] show ?thesis by (intro exI [of _ s'] conjI) (auto simp: fds_ok_def)
qed

text \<open>The static variables at the start of the program.\<close>

definition Service_static :: "nat Service" where
  "Service_static = \<lparr>opts_given = False, readfds = {}, writefds = {}, nread = 0, nwrite = 0, nfds = 0,
     running = False, shutdownRequest = False, timerTick = False, shutdownRef = 0, shutdownTicks = 0,
     timer_interval = \<lparr>tv_sec = 0, tv_usec = 0\<rparr>, timer_value = \<lparr>tv_sec = 0, tv_usec = 0\<rparr>,
     panicHandlers = uninit MAXPANICHANDLERS, numPanicHandlers = 0\<rparr>"

theorem Service_nfds_exact_witness:
  "\<exists>s. fd_run [RegRead 5, RegWrite 7, RegRead 7, UnregWrite 7, UnregRead 7] (snd (Service_init Service_static)) = Inr s
     \<and> nread s = card (readfds s)"
  using Service_nfds_exact [of "[RegRead 5, RegWrite 7, RegRead 7, UnregWrite 7, UnregRead 7]" Service_static]
  by (auto simp: Service_static_def)

section \<open>The loop ends\<close>

definition keeps_shutdown :: "(svc_event \<Rightarrow> nat \<Rightarrow> ('h, 'x) Service_scheme \<Rightarrow> ('h, 'x) Service_scheme) \<Rightarrow> bool" where
  "keeps_shutdown raise \<longleftrightarrow> (\<forall>ev i s. shutdownTicks (raise ev i s) = shutdownTicks s
     \<and> shutdownRequest (raise ev i s) = shutdownRequest s)"

lemma dispatch_keeps:
  "keeps_shutdown raise \<Longrightarrow> shutdownTicks (fst (dispatch raise ev fds i src s)) = shutdownTicks s
     \<and> shutdownRequest (fst (dispatch raise ev fds i src s)) = shutdownRequest s"
proof (induction raise ev fds i src s rule: dispatch.induct)
  case (1 raise ev fds i src s)
  then show ?case
    by (cases "src > 0 \<and> i < nfds s"; cases "i \<in> fds")
      (simp_all add: dispatch.simps [of raise ev fds i src s] keeps_shutdown_def)
qed

lemma dispatch_pair:
  "keeps_shutdown raise \<Longrightarrow> dispatch raise ev fds i src s = (s', src') \<Longrightarrow>
    shutdownTicks s' = shutdownTicks s \<and> shutdownRequest s' = shutdownRequest s"
  using dispatch_keeps [of raise ev fds i src s] by simp

lemma loop_body_ticks:
  assumes "keeps_shutdown raise" "\<not> shutdownRequest s" "0 < shutdownTicks s" "\<not> p_term p"
    and "loop_body raise p rc s = (s', Again)"
  shows "\<not> shutdownRequest s' \<and> 0 < shutdownTicks s'
    \<and> shutdownTicks s' \<le> shutdownTicks s - (if p_alrm p then 1 else 0)"
proof -
  have k: "shutdownTicks (raise ev i s) = shutdownTicks s" "shutdownRequest (raise ev i s) = shutdownRequest s" for ev i s
    using assms(1) by (auto simp: keeps_shutdown_def)
  define s0 where "s0 = raise EventsDone 0 s"
  define s1 where "s1 = (if p_alrm p then s0\<lparr>timerTick := True\<rparr> else s0)"
  have s1: "deliver p s0 = s1" using assms(4) by (simp add: deliver_def handlesig_def s1_def Let_def)
  have req: "\<not> shutdownRequest s0" "\<not> shutdownRequest s1" "shutdownTicks s1 = shutdownTicks s"
    using assms(2) by (simp_all add: s0_def s1_def k)
  show ?thesis
  proof (cases "timerTick s1")
    case True
    with assms(3,5) req s1 show ?thesis
      by (simp add: loop_body_def Let_def k flip: s0_def split: if_splits) (auto simp: k)
  next
    case False
    then have alrm: "\<not> p_alrm p" by (auto simp: s1_def)
    obtain sw srcw where w: "(if nwrite s0 \<noteq> 0 then dispatch raise ReadyWrite (p_write p) 0 (p_src p) s1 else (s1, p_src p)) = (sw, srcw)"
      by fastforce
    obtain sr srcr where r: "(if nread s0 \<noteq> 0 then dispatch raise ReadyRead (p_read p) 0 srcw sw else (sw, srcw)) = (sr, srcr)"
      by fastforce
    have "shutdownTicks sw = shutdownTicks s \<and> \<not> shutdownRequest sw"
      using w req dispatch_pair [OF assms(1)] by (fastforce split: if_splits)
    then have "shutdownTicks sr = shutdownTicks s \<and> \<not> shutdownRequest sr"
      using r dispatch_pair [OF assms(1)] by (fastforce split: if_splits)
    moreover have "s' = sr"
      using assms(5) False req s1 w r by (auto simp: loop_body_def Let_def simp flip: s0_def split: if_splits)
    ultimately show ?thesis using alrm assms(3) by simp
  qed
qed

lemma svc_loop_ticks_out:
  "keeps_shutdown raise \<Longrightarrow> \<not> shutdownRequest s \<Longrightarrow> 0 < shutdownTicks s \<Longrightarrow> list_all (\<lambda>p. \<not> p_term p) ps \<Longrightarrow>
    shutdownTicks s \<le> int (length (filter p_alrm ps)) \<Longrightarrow> svc_loop raise ps rc s \<noteq> None"
proof (induction ps arbitrary: s rc)
  case (Cons p ps)
  show ?case
  proof (cases "loop_body raise p rc s")
    case (Pair s' f)
    show ?thesis
    proof (cases f)
      case Again
      have p: "\<not> p_term p" using Cons.prems(4) by simp
      note t = loop_body_ticks [OF Cons.prems(1-3) p Pair [unfolded Again]]
      have "shutdownTicks s' \<le> int (length (filter p_alrm ps))"
        using t Cons.prems(5) by (auto split: if_splits)
      with Cons.IH [OF Cons.prems(1), of s' rc] t Cons.prems(4) Pair Again show ?thesis
        by auto
    qed (use Pair in auto)
  qed
qed simp


text \<open>A component that takes a shutdown lock and never gives it back.\<close>

definition stuck_raise :: "svc_event \<Rightarrow> nat \<Rightarrow> nat Service \<Rightarrow> nat Service" where
  "stuck_raise ev i s = (if ev = Shutdown then s\<lparr>shutdownRef := shutdownRef s + 1\<rparr> else s)"

definition tick_poll :: poll where
  "tick_poll = \<lparr>p_term = False, p_alrm = True, p_src = -1, p_read = {}, p_write = {}\<rparr>"


section \<open>Dispatching ready descriptors\<close>

lemma dispatch_from:
  assumes "\<forall>i s. nfds (raise ev i s) = nfds s"
  shows "nfds s = n \<Longrightarrow> i \<le> n \<Longrightarrow> src = int (length (filter (\<lambda>fd. fd \<in> fds) [i..<n])) \<Longrightarrow>
    dispatch raise ev fds i src s = (fold (raise ev) (filter (\<lambda>fd. fd \<in> fds) [i..<n]) s, 0)"
proof (induction "n - i" arbitrary: i src s)
  case 0
  then show ?case by (simp add: dispatch.simps)
next
  case (Suc k)
  then have i: "[i..<n] = i # [Suc i..<n]" "i < nfds s" "k = n - Suc i" by (simp_all add: upt_conv_Cons)
  show ?case
  proof (cases "i \<in> fds")
    case True
    have "dispatch raise ev fds i src s = dispatch raise ev fds (i + 1) (src - 1) (raise ev i s)"
      using True Suc.prems(3) i by (subst dispatch.simps) simp
    with Suc.hyps(1) [OF i(3), of "raise ev i s" "src - 1"] Suc.prems i assms True show ?thesis by simp
  next
    case False
    show ?thesis
    proof (cases "src = 0")
      case True
      with False Suc.prems i show ?thesis by (simp add: dispatch.simps [of raise ev fds i 0 s] filter_empty_conv)
    next
      case src: False
      have "dispatch raise ev fds i src s = dispatch raise ev fds (i + 1) src s"
        using False src Suc.prems(3) i by (subst dispatch.simps) simp
      with Suc.hyps(1) [OF i(3), of s src] Suc.prems i False show ?thesis by simp
    qed
  qed
qed

text \<open>When \<open>pselect\<close> reports the number of ready descriptors and the handlers leave
  \<open>nfds\<close> alone, the loop raises the event for every ready descriptor, once each and in
  increasing order, and has used up the count, so that it stops early without missing one.\<close>

theorem Service_dispatch_all:
  assumes "\<forall>i s. nfds (raise ev i s) = nfds s" "src = int (length (filter (\<lambda>fd. fd \<in> fds) [0..<nfds s]))"
  shows "dispatch raise ev fds 0 src s = (fold (raise ev) (filter (\<lambda>fd. fd \<in> fds) [0..<nfds s]) s, 0)"
  using dispatch_from [where raise = raise and ev = ev and s = s and i = 0] assms by simp

theorem Service_dispatch_all_witness:
  "fst (dispatch (\<lambda>ev i s. Service_registerPanic i s) ReadyRead {2, 5} 0 2 (Service_static\<lparr>nfds := 6\<rparr>))
     = Service_registerPanic 5 (Service_registerPanic 2 (Service_static\<lparr>nfds := 6\<rparr>))"
proof -
  have k: "nfds (Service_registerPanic i s) = nfds s" for i :: nat and s :: "nat Service"
    by (simp add: Service_registerPanic_def)
  have n: "nfds (Service_static\<lparr>nfds := 6\<rparr>) = 6" by simp
  have f: "filter (\<lambda>fd. fd \<in> {2, 5}) [0..<6] = [2, 5 :: nat]" by code_simp
  show ?thesis
    using Service_dispatch_all [of "\<lambda>ev i s. Service_registerPanic i s" ReadyRead 2 "{2, 5}" "Service_static\<lparr>nfds := 6\<rparr>",
        unfolded n f] k by simp
qed

section \<open>The tick timer\<close>

lemma tick_words: "unat (msec div 1000 :: 32 word) = unat msec div 1000" "unat (msec mod 1000 :: 32 word) = unat msec mod 1000"
  by (simp_all add: unat_div unat_mod)

text \<open>The timer set for any interval in milliseconds is a legal \<open>timeval\<close> (less than a
  million microseconds, nothing wraps around) of exactly that length, both for the first
  and for the following ticks.\<close>

theorem Service_setTickInterval_exact:
  "case Service_setTickInterval set_rc msec s of (rc, s') \<Rightarrow>
     unat (tv_usec (timer_interval s')) < 1000000
     \<and> unat (tv_sec (timer_interval s')) * 1000 + unat (tv_usec (timer_interval s')) div 1000 = unat msec
     \<and> timer_value s' = timer_interval s' \<and> rc = (if running s then set_rc else 0)"
proof -
  have m: "unat msec mod 1000 < 1000" by simp
  then have "1000 * (unat msec mod 1000) < 2 ^ 32" by simp
  then have "unat (1000 * (msec mod 1000)) = 1000 * (unat msec mod 1000)"
    by (simp add: unat_word_ariths tick_words)
  then show ?thesis using m by (simp add: Service_setTickInterval_def Let_def tick_words)
qed

section \<open>Panic handlers\<close>

definition panic_ok :: "('h, 'x) Service_scheme \<Rightarrow> bool" where
  "panic_ok s \<longleftrightarrow> length (panicHandlers s) = MAXPANICHANDLERS \<and> numPanicHandlers s \<le> MAXPANICHANDLERS
     \<and> filled (numPanicHandlers s) (panicHandlers s)"

definition panic_list :: "('h, 'x) Service_scheme \<Rightarrow> 'h list" where
  "panic_list s = cells (numPanicHandlers s) (panicHandlers s)"

lemma registerPanic_ok:
  "panic_ok s \<Longrightarrow> panic_ok (Service_registerPanic h s) \<and>
    panic_list (Service_registerPanic h s)
      = (if length (panic_list s) < MAXPANICHANDLERS then panic_list s @ [h] else panic_list s)"
  by (auto simp: panic_ok_def panic_list_def Service_registerPanic_def array_simps length_cells)

lemma unregisterPanic_loop_ok:
  "panic_ok s \<Longrightarrow> i \<le> numPanicHandlers s \<Longrightarrow> \<forall>j<i. panic_list s ! j \<noteq> h \<Longrightarrow>
    panic_ok (unregisterPanic_loop h i s) \<and> panic_list (unregisterPanic_loop h i s) = remove1 h (panic_list s)"
proof (induction h i s rule: unregisterPanic_loop.induct)
  case (1 h i s)
  note ok = "1.prems"(1)
  have f: "filled (numPanicHandlers s) (panicHandlers s)" "numPanicHandlers s \<le> length (panicHandlers s)"
    using ok by (auto simp: panic_ok_def)
  have len: "length (panic_list s) = numPanicHandlers s" using f(1) by (simp add: panic_list_def length_cells)
  show ?case
  proof (cases "i < numPanicHandlers s")
    case False
    with "1.prems" len have "h \<notin> set (panic_list s)" by (auto simp: in_set_conv_nth)
    with False ok show ?thesis by (simp add: unregisterPanic_loop.simps remove1_idem)
  next
    case True
    have at: "panicHandlers s ! i = Some (panic_list s ! i)" using f True by (simp add: panic_list_def filled_Some)
    show ?thesis
    proof (cases "panic_list s ! i = h")
      case hit: True
      let ?n = "numPanicHandlers s - 1"
      have gap: "take i (panic_list s) @ drop (Suc i) (panic_list s) = remove1 h (panic_list s)"
        using hit "1.prems"(3) True len by (intro gap_remove1) auto
      show ?thesis
      proof (cases "?n > i")
        case inner: True
        have "?n - i = numPanicHandlers s - Suc i" by simp
        then have "unregisterPanic_loop h i s = s\<lparr>numPanicHandlers := ?n,
            panicHandlers := memmove (panicHandlers s) i (Suc i) (numPanicHandlers s - Suc i)\<rparr>"
          using True at hit inner by (subst unregisterPanic_loop.simps) (simp add: Let_def)
        moreover have "length (memmove (panicHandlers s) i (Suc i) (numPanicHandlers s - Suc i)) = length (panicHandlers s)"
          using True f(2) by (intro length_memmove) auto
        moreover have "numPanicHandlers s - Suc 0 \<le> 8"
          using ok unfolding panic_ok_def by linarith
        ultimately show ?thesis
          using filled_memmove_gap [OF f(1) True] cells_memmove_gap [OF True f(2)] ok gap
          by (simp add: panic_ok_def panic_list_def)
      next
        case last: False
        then have n: "numPanicHandlers s = Suc i" using True by simp
        have "unregisterPanic_loop h i s = s\<lparr>numPanicHandlers := ?n\<rparr>"
          using True at hit last by (subst unregisterPanic_loop.simps) (simp add: Let_def)
        moreover have "cells i (panicHandlers s) = take i (panic_list s)"
          by (simp add: panic_list_def cells_def n take_map min_def)
        ultimately show ?thesis using ok f gap n len
          by (auto simp: panic_ok_def panic_list_def intro: filled_mono)
      qed
    next
      case False
      then have step: "unregisterPanic_loop h i s = unregisterPanic_loop h (i + 1) s"
        using True at by (subst unregisterPanic_loop.simps) simp
      have "\<forall>j<i + 1. panic_list s ! j \<noteq> h" using False "1.prems"(3) by (auto simp: less_Suc_eq)
      with "1.IH" [OF True] False at True ok show ?thesis unfolding step by simp
    qed
  qed
qed

fun panic_run :: "('h \<times> bool) list \<Rightarrow> ('h, 'x) Service_scheme \<Rightarrow> ('h, 'x) Service_scheme" where
  "panic_run [] s = s"
| "panic_run ((h, add) # ops) s = panic_run ops (if add then Service_registerPanic h s else Service_unregisterPanic h s)"

fun panic_spec :: "('h \<times> bool) list \<Rightarrow> 'h list \<Rightarrow> 'h list" where
  "panic_spec [] hs = hs"
| "panic_spec ((h, add) # ops) hs =
     panic_spec ops (if add then (if length hs < MAXPANICHANDLERS then hs @ [h] else hs) else remove1 h hs)"

text \<open>The array of panic handlers is never written outside its eight places: after any
  registrations and unregistrations the handlers a panic calls in a running service are
  those of the list that appends up to eight and removes the first equal one.\<close>

theorem Service_panic_calls:
  assumes "panic_ok s"
  shows "panic_ok (panic_run ops s) \<and> panic_list (panic_run ops s) = panic_spec ops (panic_list s)"
  using assms
proof (induction ops arbitrary: s)
  case (Cons op ops)
  obtain h add where op: "op = (h, add)" by fastforce
  have "panic_ok (Service_unregisterPanic h s) \<and> panic_list (Service_unregisterPanic h s) = remove1 h (panic_list s)"
    using unregisterPanic_loop_ok [OF Cons.prems, of 0 h] by (simp add: Service_unregisterPanic_def)
  with registerPanic_ok [OF Cons.prems, of h] Cons.IH op show ?case by simp
qed simp

theorem Service_panic_calls_witness:
  "panic_list (panic_run [(1, True), (2, True), (1, False), (3, True)] Service_static) = [2, 3]"
  using Service_panic_calls [of Service_static "[(1, True), (2, True), (1, False), (3, True)]"]
  by (simp add: Service_static_def panic_ok_def panic_list_def)

end
