(* ===== verification/ObjQueue.thy ===== *)
theory ObjQueue
  imports ObjList
begin

text \<open>
  \<open>src/lib/ircbot/queue.c\<close>: the ring buffer of objects behind a server's send queue. The
  entries are an array of cells; the bytes \<open>memcpy\<close> does not cover stay indeterminate, and
  using an indeterminate object is a fault. The size of an entry is that of two pointers
  on an LP64 machine.
\<close>

section \<open>State and operations\<close>

record ('o, 'd) QueueEntry =
  qe_obj :: 'o
  qe_deleter :: "'d option"

record ('o, 'd) IBQueue =
  q_entries :: "('o, 'd) QueueEntry array"
  q_count :: nat
  q_capa :: nat
  q_front :: nat
  q_back :: nat

abbreviation QUEUEINITIALCAPA :: nat where "QUEUEINITIALCAPA \<equiv> 8"

definition sizeof_QueueEntry :: nat where
  "sizeof_QueueEntry = 16"

text \<open>
  \<open>memcpy (xs + dst, xs + src, n)\<close> where \<open>n\<close> counts bytes: the cells it covers completely
  are copied, a cell it covers in part holds a mixture of two values, which is no value.
\<close>

definition memcpy_bytes :: "'a array \<Rightarrow> nat \<Rightarrow> nat \<Rightarrow> nat \<Rightarrow> 'a array" where
  "memcpy_bytes xs dst src n =
     (let whole = n div sizeof_QueueEntry;
          torn = (if n mod sizeof_QueueEntry = 0 then [] else [None])
      in take dst xs @ take whole (drop src xs) @ torn @ drop (dst + whole + length torn) xs)"

definition expand :: "('o, 'd) IBQueue \<Rightarrow> ('o, 'd) IBQueue" where
  "expand self =
     (let newcapa = 2 * q_capa self;
          entries = q_entries self @ uninit (newcapa - q_capa self);
          self = (if q_front self \<noteq> 0
                  then self\<lparr>q_entries := memcpy_bytes entries (q_front self + q_capa self) (q_front self)
                                            (q_capa self - q_front self),
                            q_front := q_front self + q_capa self\<rparr>
                  else self\<lparr>q_entries := entries, q_back := q_capa self\<rparr>)
      in self\<lparr>q_capa := newcapa\<rparr>)"

definition IBQueue_create :: "('o, 'd) IBQueue" where
  "IBQueue_create = \<lparr>q_entries = uninit QUEUEINITIALCAPA, q_count = 0, q_capa = QUEUEINITIALCAPA,
     q_front = 0, q_back = 0\<rparr>"

definition IBQueue_enqueue :: "('o, 'd) IBQueue \<Rightarrow> 'o \<Rightarrow> 'd option \<Rightarrow> ('o, 'd) IBQueue" where
  "IBQueue_enqueue self obj deleter =
     (let self = (if q_count self = q_capa self then expand self else self);
          self = self\<lparr>q_entries := (q_entries self)[q_back self := Some \<lparr>qe_obj = obj, qe_deleter = deleter\<rparr>]\<rparr>;
          back = q_back self + 1
      in self\<lparr>q_back := (if back = q_capa self then 0 else back), q_count := q_count self + 1\<rparr>)"

definition IBQueue_dequeue :: "('o, 'd) IBQueue \<Rightarrow> ('o option \<times> ('o, 'd) IBQueue) result" where
  "IBQueue_dequeue self =
     (if q_count self = 0 then Inr (None, self)
      else case q_entries self ! q_front self of
        None \<Rightarrow> Inl Indeterminate
      | Some entry \<Rightarrow>
          let front = q_front self + 1 in
          Inr (Some (qe_obj entry),
               self\<lparr>q_front := (if front = q_capa self then 0 else front), q_count := q_count self - 1\<rparr>))"

text \<open>The destructor's loop: \<open>n\<close> entries from \<open>pos\<close> on, each with its deleter.\<close>

fun queue_destroy_loop :: "('o, 'd) QueueEntry array \<Rightarrow> nat \<Rightarrow> nat \<Rightarrow> nat \<Rightarrow> ('d \<times> 'o) list result" where
  "queue_destroy_loop entries capa 0 pos = Inr []"
| "queue_destroy_loop entries capa (Suc n) pos =
     (case entries ! pos of
        None \<Rightarrow> Inl Indeterminate
      | Some entry \<Rightarrow>
          bind_result (queue_destroy_loop entries capa n (if pos + 1 = capa then 0 else pos + 1))
            (\<lambda>calls. Inr (call_deleter (qe_deleter entry) (qe_obj entry) @ calls)))"

definition IBQueue_destroy :: "('o, 'd) IBQueue option \<Rightarrow> ('d \<times> 'o) list result" where
  "IBQueue_destroy self =
     (case self of None \<Rightarrow> Inr []
      | Some q \<Rightarrow> queue_destroy_loop (q_entries q) (q_capa q) (q_count q) (q_front q))"

section \<open>Well-formedness and contents\<close>

text \<open>The cells of the queue from the front, and the invariant of the indices.\<close>

definition queue_cell :: "('o, 'd) IBQueue \<Rightarrow> nat \<Rightarrow> ('o, 'd) QueueEntry option" where
  "queue_cell q i = q_entries q ! ((q_front q + i) mod q_capa q)"

definition queue_cells :: "('o, 'd) IBQueue \<Rightarrow> ('o, 'd) QueueEntry array" where
  "queue_cells q = map (queue_cell q) [0..<q_count q]"

definition queue_shape :: "('o, 'd) IBQueue \<Rightarrow> bool" where
  "queue_shape q \<longleftrightarrow> 0 < q_capa q \<and> length (q_entries q) = q_capa q \<and> q_count q \<le> q_capa q
     \<and> q_front q < q_capa q \<and> q_back q = (q_front q + q_count q) mod q_capa q"

definition IBQueue_ok :: "('o, 'd) IBQueue \<Rightarrow> bool" where
  "IBQueue_ok q \<longleftrightarrow> queue_shape q \<and> QUEUEINITIALCAPA \<le> q_capa q \<and> None \<notin> set (queue_cells q)"

definition queue_entries :: "('o, 'd) IBQueue \<Rightarrow> ('o, 'd) QueueEntry list" where
  "queue_entries q = map the (queue_cells q)"

definition queue_objs :: "('o, 'd) IBQueue \<Rightarrow> 'o list" where
  "queue_objs q = map qe_obj (queue_entries q)"

lemma length_queue_cells [simp]: "length (queue_cells q) = q_count q"
  by (simp add: queue_cells_def)

lemma queue_cells_nth [simp]: "i < q_count q \<Longrightarrow> queue_cells q ! i = queue_cell q i"
  by (simp add: queue_cells_def)

lemma length_queue_objs [simp]: "length (queue_objs q) = q_count q"
  by (simp add: queue_objs_def queue_entries_def)

lemma wrap_succ: "(a :: nat) < c \<Longrightarrow> (if a + 1 = c then 0 else a + 1) = (a + 1) mod c"
  by auto

lemma mod_wrap: "(a :: nat) < c \<Longrightarrow> i \<le> c \<Longrightarrow> (a + i) mod c = (if a + i < c then a + i else a + i - c)"
  by (auto simp: le_mod_geq)

lemma ring_distinct: "(a :: nat) < n \<Longrightarrow> i < m \<Longrightarrow> m < n \<Longrightarrow> (a + i) mod n \<noteq> (a + m) mod n"
  by (simp add: mod_wrap) linarith

section \<open>Enqueueing without a full array\<close>

lemma enqueue_unfull:
  assumes "queue_shape q" "q_count q < q_capa q"
  shows "queue_shape (IBQueue_enqueue q x d)"
    and "queue_cells (IBQueue_enqueue q x d) = queue_cells q @ [Some \<lparr>qe_obj = x, qe_deleter = d\<rparr>]"
proof -
  let ?q = "IBQueue_enqueue q x d" and ?c = "q_capa q" and ?b = "q_back q"
  have b: "?b < ?c" "?b = (q_front q + q_count q) mod ?c"
    using assms(1) by (auto simp: queue_shape_def)
  have "(?b + 1) mod ?c = (q_front q + (q_count q + 1)) mod ?c"
    unfolding b(2) by (simp add: mod_Suc_eq)
  then have wrap: "(if ?b + 1 = ?c then 0 else ?b + 1) = (q_front q + (q_count q + 1)) mod ?c"
    unfolding wrap_succ [OF b(1)] .
  have "q_back ?q = (if ?b + 1 = ?c then 0 else ?b + 1)"
    using assms(2) by (simp add: IBQueue_enqueue_def Let_def)
  with wrap have "q_back ?q = (q_front q + (q_count q + 1)) mod ?c" by (rule trans [rotated])
  moreover have "q_capa ?q = ?c" "q_front ?q = q_front q" "q_count ?q = q_count q + 1"
      "length (q_entries ?q) = length (q_entries q)"
    using assms(2) by (simp_all add: IBQueue_enqueue_def Let_def)
  ultimately show "queue_shape ?q"
    using assms by (simp add: queue_shape_def)
  have other: "(q_front q + i) mod ?c \<noteq> ?b" if "i < q_count q" for i
    using that assms unfolding b(2) by (simp add: queue_shape_def mod_wrap) linarith
  have "queue_cell ?q i = queue_cell q i" if "i < q_count q" for i
    using other [OF that] assms by (simp add: queue_cell_def IBQueue_enqueue_def Let_def)
  moreover have "queue_cell ?q (q_count q) = Some \<lparr>qe_obj = x, qe_deleter = d\<rparr>"
    using assms b by (simp add: queue_cell_def IBQueue_enqueue_def Let_def queue_shape_def)
  moreover have "q_count ?q = Suc (q_count q)"
    using assms(2) by (simp add: IBQueue_enqueue_def Let_def)
  ultimately show "queue_cells ?q = queue_cells q @ [Some \<lparr>qe_obj = x, qe_deleter = d\<rparr>]"
    by (simp add: queue_cells_def)
qed

section \<open>Expanding a full array\<close>

lemma memcpy_bytes_nth:
  fixes xs :: "'a array"
  assumes "dst + n \<le> length xs" "src + n \<le> length xs" "\<forall>j. dst \<le> j \<and> j < length xs \<longrightarrow> xs ! j = None"
    and "j < length xs"
  shows "length (memcpy_bytes xs dst src n) = length xs"
    and "memcpy_bytes xs dst src n ! j =
      (if j < dst then xs ! j else if j < dst + n div sizeof_QueueEntry then xs ! (src + (j - dst)) else None)"
proof -
  let ?w = "n div sizeof_QueueEntry" and ?t = "(if n mod sizeof_QueueEntry = 0 then [] else [None]) :: 'a array"
  have w: "?w + length ?t \<le> n"
    using div_mult_mod_eq [of n 16] by (simp add: sizeof_QueueEntry_def) linarith
  have eq: "memcpy_bytes xs dst src n =
      take dst xs @ take ?w (drop src xs) @ ?t @ drop (dst + ?w + length ?t) xs"
    by (simp add: memcpy_bytes_def Let_def)
  show "length (memcpy_bytes xs dst src n) = length xs"
    unfolding eq using assms w by simp
  have tail: "(?t @ drop (dst + ?w + length ?t) xs) ! k = None" if "dst + ?w + k < length xs" for k
    using that assms(3) by (auto simp: nth_append nth_Cons split: nat.split)
  show "memcpy_bytes xs dst src n ! j =
      (if j < dst then xs ! j else if j < dst + ?w then xs ! (src + (j - dst)) else None)"
    unfolding eq using assms w tail [of "j - dst - ?w"] by (auto simp: nth_append)
qed

text \<open>What a move of the front part that counts bytes instead of entries leaves of the cells.\<close>

definition spoil :: "nat \<Rightarrow> 'a array \<Rightarrow> 'a array" where
  "spoil m cs = take (m div sizeof_QueueEntry) cs @ uninit (m - m div sizeof_QueueEntry) @ drop m cs"

lemma length_spoil [simp]: "m \<le> length cs \<Longrightarrow> length (spoil m cs) = length cs"
  using div_le_dividend [of m sizeof_QueueEntry] by (simp add: spoil_def)

lemma spoil_nth:
  assumes "m \<le> length cs" "i < length cs"
  shows "spoil m cs ! i = (if m div sizeof_QueueEntry \<le> i \<and> i < m then None else cs ! i)"
proof (cases "i < m div sizeof_QueueEntry")
  case True
  then show ?thesis using assms by (simp add: spoil_def nth_append)
next
  case False
  moreover have "m div sizeof_QueueEntry \<le> m" by simp
  ultimately show ?thesis using assms by (auto simp: spoil_def nth_append uninit_def)
qed

lemma expand_front:
  assumes "queue_shape q" "q_count q = q_capa q" "q_front q = 0"
  shows "queue_shape (expand q)" "queue_cells (expand q) = queue_cells q"
proof -
  show "queue_shape (expand q)"
    using assms by (simp add: queue_shape_def expand_def Let_def)
  have "queue_cell (expand q) i = queue_cell q i" if "i < q_count q" for i
    using that assms by (simp add: queue_cell_def expand_def Let_def queue_shape_def nth_append)
  moreover have "q_count (expand q) = q_count q" by (simp add: expand_def Let_def)
  ultimately show "queue_cells (expand q) = queue_cells q" by (simp add: queue_cells_def)
qed

lemma expand_wrapped:
  assumes "queue_shape q" "q_count q = q_capa q" "q_front q \<noteq> 0"
  shows "queue_shape (expand q)" "queue_cells (expand q) = spoil (q_capa q - q_front q) (queue_cells q)"
proof -
  let ?c = "q_capa q" and ?f = "q_front q"
  let ?m = "?c - ?f" and ?xs = "q_entries q @ uninit ?c"
  have f: "?f < ?c" "length (q_entries q) = ?c" using assms(1) by (auto simp: queue_shape_def)
  have none: "\<forall>j. ?f + ?c \<le> j \<and> j < length ?xs \<longrightarrow> ?xs ! j = None"
    using f by (auto simp: nth_append uninit_def)
  have bounds: "?f + ?c + ?m \<le> length ?xs" "?f + ?m \<le> length ?xs" using f by simp_all
  note mv = memcpy_bytes_nth [OF bounds none]
  have e: "q_entries (expand q) = memcpy_bytes ?xs (?f + ?c) ?f ?m" "q_capa (expand q) = 2 * ?c"
      "q_front (expand q) = ?f + ?c" "q_count (expand q) = q_count q" "q_back (expand q) = q_back q"
    using assms(3) by (simp_all add: expand_def Let_def)
  show "queue_shape (expand q)"
    using assms f mv(1) [of 0] by (auto simp: queue_shape_def e mod_wrap le_mod_geq)
  have "queue_cell (expand q) i = spoil ?m (queue_cells q) ! i" if i: "i < ?c" for i
  proof (cases "i < ?m")
    case True
    then have "queue_cell (expand q) i = (if i < ?m div sizeof_QueueEntry then queue_cell q i else None)"
      using mv(2) [of "?f + ?c + i"] f i by (auto simp: queue_cell_def e nth_append)
    with True assms(2) f i show ?thesis by (simp add: spoil_nth)
  next
    case False
    then have "(?f + ?c + i) mod (2 * ?c) = i - ?m" "(?f + i) mod ?c = i - ?m"
      using f i mod_wrap [of "?f + ?c" "2 * ?c" i] mod_wrap [of ?f ?c i] by (simp_all split: if_splits)
    then have "queue_cell (expand q) i = queue_cell q i"
      using mv(2) [of "i - ?m"] f i False by (auto simp: queue_cell_def e nth_append)
    with False assms(2) f i show ?thesis by (simp add: spoil_nth)
  qed
  moreover have "length (spoil ?m (queue_cells q)) = ?c"
    using f assms(2) by simp
  ultimately show "queue_cells (expand q) = spoil ?m (queue_cells q)"
    using assms(2) by (intro nth_equalityI) (simp_all add: e)
qed

lemma count_expand [simp]: "q_count (expand q) = q_count q" "q_capa (expand q) = 2 * q_capa q"
  by (simp_all add: expand_def Let_def)

lemma enqueue_full:
  assumes "q_count q = q_capa q" "0 < q_capa q"
  shows "IBQueue_enqueue q x d = IBQueue_enqueue (expand q) x d"
  using assms by (simp add: IBQueue_enqueue_def)

lemma capa_enqueue: "q_capa (IBQueue_enqueue q x d) = (if q_count q = q_capa q then 2 * q_capa q else q_capa q)"
  by (simp add: IBQueue_enqueue_def Let_def)

lemma enqueue_cells:
  assumes "queue_shape q"
  shows "queue_shape (IBQueue_enqueue q x d)"
    and "queue_cells (IBQueue_enqueue q x d) =
      (if q_count q = q_capa q \<and> q_front q \<noteq> 0
       then spoil (q_capa q - q_front q) (queue_cells q) else queue_cells q) @ [Some \<lparr>qe_obj = x, qe_deleter = d\<rparr>]"
proof -
  have pos: "0 < q_capa q" "q_count q \<le> q_capa q" using assms by (simp_all add: queue_shape_def)
  have unfull: "q_count (expand q) < q_capa (expand q)" using pos by simp
  consider "q_count q < q_capa q" | "q_count q = q_capa q" "q_front q = 0"
    | "q_count q = q_capa q" "q_front q \<noteq> 0" using pos by linarith
  then have "queue_shape (IBQueue_enqueue q x d) \<and> queue_cells (IBQueue_enqueue q x d) =
      (if q_count q = q_capa q \<and> q_front q \<noteq> 0
       then spoil (q_capa q - q_front q) (queue_cells q) else queue_cells q) @ [Some \<lparr>qe_obj = x, qe_deleter = d\<rparr>]"
  proof cases
    case 1
    with enqueue_unfull [OF assms] show ?thesis by simp
  next
    case 2
    note e = expand_front [OF assms 2]
    from enqueue_unfull [OF e(1) unfull] e(2) 2 show ?thesis
      unfolding enqueue_full [OF 2(1) pos(1)] by simp
  next
    case 3
    note e = expand_wrapped [OF assms 3]
    from enqueue_unfull [OF e(1) unfull] e(2) 3 show ?thesis
      unfolding enqueue_full [OF 3(1) pos(1)] by simp
  qed
  then show "queue_shape (IBQueue_enqueue q x d)"
    and "queue_cells (IBQueue_enqueue q x d) =
      (if q_count q = q_capa q \<and> q_front q \<noteq> 0
       then spoil (q_capa q - q_front q) (queue_cells q) else queue_cells q) @ [Some \<lparr>qe_obj = x, qe_deleter = d\<rparr>]"
    by blast+
qed

lemma enqueue_room:
  assumes "IBQueue_ok q" "q_count q < q_capa q \<or> q_front q = 0"
  shows "IBQueue_ok (IBQueue_enqueue q x d)"
    and "queue_entries (IBQueue_enqueue q x d) = queue_entries q @ [\<lparr>qe_obj = x, qe_deleter = d\<rparr>]"
proof -
  have s: "queue_shape q" using assms(1) by (simp add: IBQueue_ok_def)
  have "queue_cells (IBQueue_enqueue q x d) = queue_cells q @ [Some \<lparr>qe_obj = x, qe_deleter = d\<rparr>]"
    using enqueue_cells(2) [OF s] assms(2) by auto
  with enqueue_cells(1) [OF s] assms(1) show "IBQueue_ok (IBQueue_enqueue q x d)"
    and "queue_entries (IBQueue_enqueue q x d) = queue_entries q @ [\<lparr>qe_obj = x, qe_deleter = d\<rparr>]"
    by (auto simp: IBQueue_ok_def queue_entries_def capa_enqueue)
qed

section \<open>Dequeueing and destroying\<close>

lemma create_queue_ok: "IBQueue_ok IBQueue_create" "queue_objs IBQueue_create = []"
  by (simp_all add: IBQueue_ok_def queue_shape_def IBQueue_create_def queue_cells_def
      queue_objs_def queue_entries_def)

lemma queue_objs_empty: "queue_objs q = [] \<longleftrightarrow> q_count q = 0"
  by (metis length_0_conv length_queue_objs)

lemma queue_cell_Some:
  assumes "IBQueue_ok q" "i < q_count q"
  obtains e where "queue_cell q i = Some e" "queue_entries q ! i = e"
proof -
  have "queue_cell q i \<in> set (queue_cells q)" using assms(2) by (simp add: queue_cells_def)
  with assms obtain e where "queue_cell q i = Some e" by (cases "queue_cell q i") (auto simp: IBQueue_ok_def)
  then show thesis using that assms(2) by (simp add: queue_entries_def)
qed

lemma dequeue_entry:
  assumes "IBQueue_ok q" "q_count q \<noteq> 0"
  obtains q' where "IBQueue_dequeue q = Inr (Some (qe_obj (hd (queue_entries q))), q')"
    "IBQueue_ok q'" "queue_entries q' = tl (queue_entries q)"
proof -
  let ?c = "q_capa q"
  have s: "queue_shape q" using assms(1) by (simp add: IBQueue_ok_def)
  then have f: "q_front q < ?c" by (simp add: queue_shape_def)
  from queue_cell_Some [OF assms(1), of 0] assms(2) obtain e
    where e: "queue_cell q 0 = Some e" "queue_entries q ! 0 = e" by auto
  then have hd: "hd (queue_entries q) = e" using assms(2)
    by (metis hd_conv_nth length_0_conv length_map length_queue_cells queue_entries_def)
  define q' where "q' = q\<lparr>q_front := (q_front q + 1) mod ?c, q_count := q_count q - 1\<rparr>"
  have "IBQueue_dequeue q = Inr (Some (qe_obj e), q')"
    using assms(2) e(1) f wrap_succ [OF f]
    by (simp add: IBQueue_dequeue_def queue_cell_def q'_def Let_def del: One_nat_def)
  moreover have "queue_cells q' = tl (queue_cells q)"
  proof (rule nth_equalityI)
    show "length (queue_cells q') = length (tl (queue_cells q))" by (simp add: q'_def)
    fix i assume "i < length (queue_cells q')"
    then show "queue_cells q' ! i = tl (queue_cells q) ! i"
      by (simp add: q'_def nth_tl queue_cell_def mod_add_left_eq)
  qed
  moreover have "((q_front q + 1) mod ?c + (q_count q - 1)) mod ?c = (q_front q + q_count q) mod ?c"
    using assms(2) by (cases "q_count q") (simp_all add: mod_add_left_eq)
  then have "queue_shape q'"
    using s by (auto simp: queue_shape_def q'_def)
  moreover have "set (tl (queue_cells q)) \<subseteq> set (queue_cells q)"
    by (cases "queue_cells q") auto
  ultimately show thesis
    using that [of q'] assms(1) hd by (auto simp: IBQueue_ok_def queue_entries_def map_tl q'_def)
qed

definition entry_calls :: "('o, 'd) QueueEntry \<Rightarrow> ('d \<times> 'o) list" where
  "entry_calls e = call_deleter (qe_deleter e) (qe_obj e)"

lemma queue_destroy_loop_calls:
  assumes "pos < capa" "n \<le> capa" "\<forall>i<n. entries ! ((pos + i) mod capa) = Some (es ! i)" "length es = n"
  shows "queue_destroy_loop entries capa n pos = Inr (concat (map entry_calls es))"
  using assms
proof (induction n arbitrary: pos es)
  case (Suc n)
  then obtain e es' where es: "es = e # es'" by (cases es) auto
  let ?pos = "if pos + 1 = capa then 0 else pos + 1"
  have "entries ! ((?pos + i) mod capa) = Some (es' ! i)" if "i < n" for i
  proof -
    have "(?pos + i) mod capa = (pos + Suc i) mod capa"
      unfolding wrap_succ [OF Suc.prems(1)] by (simp add: mod_add_left_eq)
    then show ?thesis using Suc.prems(3) that es by (metis Suc_less_eq nth_Cons_Suc)
  qed
  then have "queue_destroy_loop entries capa n ?pos = Inr (concat (map entry_calls es'))"
    using Suc.prems es by (intro Suc.IH) auto
  moreover have "entries ! pos = Some e" using Suc.prems(1,3) es by force
  moreover have "call_deleter (qe_deleter e) (qe_obj e) = entry_calls e" by (simp add: entry_calls_def)
  ultimately show ?case by (simp add: es del: One_nat_def)
qed simp

lemma IBQueue_destroy_calls:
  assumes "IBQueue_ok q"
  shows "IBQueue_destroy (Some q) = Inr (concat (map entry_calls (queue_entries q)))"
proof -
  have "q_entries q ! ((q_front q + i) mod q_capa q) = Some (queue_entries q ! i)" if "i < q_count q" for i
    using queue_cell_Some [OF assms that] by (metis queue_cell_def)
  then show ?thesis
    using assms by (simp add: IBQueue_destroy_def)
      (rule queue_destroy_loop_calls; auto simp: IBQueue_ok_def queue_shape_def queue_entries_def)
qed

section \<open>The FIFO contract\<close>

text \<open>
  What the send queue's client relies on: below the bound an added object comes out after
  all objects before it, and taking an object from a queue never fails.
\<close>

datatype 'o queue_op = Enq 'o | Deq

fun fifo_spec :: "'o queue_op list \<Rightarrow> 'o list \<Rightarrow> 'o option list" where
  "fifo_spec [] xs = []"
| "fifo_spec (Enq x # ops) xs = fifo_spec ops (xs @ [x])"
| "fifo_spec (Deq # ops) [] = None # fifo_spec ops []"
| "fifo_spec (Deq # ops) (x # xs) = Some x # fifo_spec ops xs"

text \<open>The pending objects never exceed the bound.\<close>

fun fifo_below :: "nat \<Rightarrow> 'o queue_op list \<Rightarrow> nat \<Rightarrow> bool" where
  "fifo_below bound [] n = True"
| "fifo_below bound (Enq x # ops) n = (n < bound \<and> fifo_below bound ops (n + 1))"
| "fifo_below bound (Deq # ops) n = fifo_below bound ops (n - 1)"

fun run_queue :: "('q \<Rightarrow> 'o \<Rightarrow> 'q) \<Rightarrow> ('q \<Rightarrow> ('o option \<times> 'q) result) \<Rightarrow> 'o queue_op list \<Rightarrow> 'q
    \<Rightarrow> 'o option list result" where
  "run_queue enq deq [] q = Inr []"
| "run_queue enq deq (Enq x # ops) q = run_queue enq deq ops (enq q x)"
| "run_queue enq deq (Deq # ops) q =
     bind_result (deq q) (\<lambda>(r, q). bind_result (run_queue enq deq ops q) (\<lambda>rs. Inr (r # rs)))"

locale fifo =
  fixes enq :: "'q \<Rightarrow> 'o \<Rightarrow> 'q" and deq :: "'q \<Rightarrow> ('o option \<times> 'q) result"
    and ok :: "'q \<Rightarrow> bool" and contents :: "'q \<Rightarrow> 'o list" and bound :: nat
  assumes enq_law: "ok q \<Longrightarrow> length (contents q) < bound \<Longrightarrow>
      ok (enq q x) \<and> contents (enq q x) = contents q @ [x]"
    and deq_empty: "ok q \<Longrightarrow> contents q = [] \<Longrightarrow> deq q = Inr (None, q)"
    and deq_cons: "ok q \<Longrightarrow> contents q = x # xs \<Longrightarrow>
      \<exists>q'. deq q = Inr (Some x, q') \<and> ok q' \<and> contents q' = xs"
begin

lemma run_fifo:
  assumes "ok q" "fifo_below bound ops (length (contents q))"
  shows "run_queue enq deq ops q = Inr (fifo_spec ops (contents q))"
  using assms
proof (induction ops arbitrary: q)
  case (Cons a ops)
  show ?case
  proof (cases a)
    case (Enq x)
    with Cons enq_law [of q x] show ?thesis by simp
  next
    case Deq
    show ?thesis
    proof (cases "contents q")
      case Nil
      with Cons deq_empty [of q] Deq show ?thesis by simp
    next
      case (Cons x xs)
      then obtain q' where "deq q = Inr (Some x, q')" "ok q'" "contents q' = xs"
        using deq_cons Cons.prems(1) by blast
      with Cons Cons.IH [of q'] Cons.prems Deq show ?thesis by simp
    qed
  qed
qed simp

lemma enq_many:
  "ok q \<Longrightarrow> length (contents q) + length xs \<le> bound \<Longrightarrow>
    ok (foldl enq q xs) \<and> contents (foldl enq q xs) = contents q @ xs"
  by (induction xs arbitrary: q) (simp_all add: enq_law)

end

interpretation sendfifo: fifo "\<lambda>q (x :: 'o). IBQueue_enqueue q x d" IBQueue_dequeue IBQueue_ok queue_objs QUEUEINITIALCAPA
  for d :: "'d option"
proof
  fix q :: "('o, 'd) IBQueue" and x :: 'o
  assume ok: "IBQueue_ok q"
  show "IBQueue_ok (IBQueue_enqueue q x d) \<and> queue_objs (IBQueue_enqueue q x d) = queue_objs q @ [x]"
    if "length (queue_objs q) < QUEUEINITIALCAPA"
  proof -
    have "q_count q < q_capa q" using ok that by (simp add: IBQueue_ok_def)
    with enqueue_room [OF ok, of x d] show ?thesis by (simp add: queue_objs_def)
  qed
next
  fix q :: "('o, 'd) IBQueue"
  assume "IBQueue_ok q" "queue_objs q = []"
  then show "IBQueue_dequeue q = Inr (None, q)"
    by (simp add: queue_objs_empty IBQueue_dequeue_def)
next
  fix q :: "('o, 'd) IBQueue" and x xs
  assume ok: "IBQueue_ok q" and c: "queue_objs q = x # xs"
  then have "q_count q \<noteq> 0" by (metis list.distinct(1) queue_objs_empty)
  from dequeue_entry [OF ok this] c
  show "\<exists>q'. IBQueue_dequeue q = Inr (Some x, q') \<and> IBQueue_ok q' \<and> queue_objs q' = xs"
    by (metis (no_types, lifting) hd_map list.sel(1,3) list.map_disc_iff list.distinct(1) map_tl queue_objs_def)
qed

text \<open>C31: starting from an empty queue, any sequence of enqueue and dequeue operations in
  which at most 8 objects are ever pending (the queue's initial capacity) runs without a
  fault and returns exactly what a first-in-first-out list returns, NULL on an empty queue
  included, however often the indices wrap.\<close>

theorem IBQueue_fifo:
  assumes "fifo_below QUEUEINITIALCAPA ops 0"
  shows "run_queue (\<lambda>q x. IBQueue_enqueue q x d) IBQueue_dequeue ops IBQueue_create = Inr (fifo_spec ops [])"
  using sendfifo.run_fifo [of IBQueue_create ops d] assms by (simp add: create_queue_ok)

theorem IBQueue_fifo_witness:
  "run_queue (\<lambda>q x. IBQueue_enqueue q x (Some ())) IBQueue_dequeue [Enq 1, Deq, Deq, Enq 2, Enq (3 :: nat), Deq] IBQueue_create
     = Inr [Some 1, None, Some 2]"
  using IBQueue_fifo [of "[Enq 1, Deq, Deq, Enq 2, Enq (3 :: nat), Deq]" "Some ()"] by simp

lemma enqueue_only:
  "IBQueue_ok q \<and> q_front q = 0 \<Longrightarrow>
    IBQueue_ok (foldl (\<lambda>q x. IBQueue_enqueue q x d) q xs) \<and>
    queue_entries (foldl (\<lambda>q x. IBQueue_enqueue q x d) q xs)
      = queue_entries q @ map (\<lambda>x. \<lparr>qe_obj = x, qe_deleter = d\<rparr>) xs"
proof (induction xs arbitrary: q)
  case (Cons x xs)
  have "q_front (IBQueue_enqueue q x d) = 0"
    using Cons.prems by (simp add: IBQueue_enqueue_def expand_def Let_def)
  with Cons.IH [of "IBQueue_enqueue q x d"] Cons.prems enqueue_room [of q x d] show ?case by simp
qed simp

lemma create_front: "q_front IBQueue_create = 0" "queue_entries IBQueue_create = []"
  by (simp_all add: IBQueue_create_def queue_entries_def queue_cells_def)

lemma concat_entry_calls: "concat (map (\<lambda>x. entry_calls \<lparr>qe_obj = x, qe_deleter = Some d\<rparr>) xs) = map (Pair d) xs"
  by (induction xs) (simp_all add: entry_calls_def call_deleter_def)

text \<open>A queue nothing was taken from yet grows correctly: after any number of
  enqueues on a new queue it holds exactly the objects in order, and its destructor hands
  each object once, in order, to its deleter, without a fault.\<close>

theorem IBQueue_growth:
  "queue_objs (foldl (\<lambda>q x. IBQueue_enqueue q x (Some d)) IBQueue_create xs) = xs \<and>
   IBQueue_destroy (Some (foldl (\<lambda>q x. IBQueue_enqueue q x (Some d)) IBQueue_create xs)) = Inr (map (Pair d) xs)"
  using enqueue_only [of IBQueue_create "Some d" xs]
  by (simp add: create_queue_ok create_front IBQueue_destroy_calls queue_objs_def concat_entry_calls comp_def)

text \<open>Growing a full queue whose front has moved loses objects. The length given to
  \<open>memcpy\<close> counts bytes, so of the \<open>capa - front\<close> entries to move only the first sixteenth
  arrives: all other entries of that part are indeterminate afterwards, the queue is no
  longer well formed, and when fewer than 16 entries were to move the next dequeue already
  uses an indeterminate object.\<close>

theorem IBQueue_wrapped_growth:
  assumes "IBQueue_ok q" "q_count q = q_capa q" "q_front q \<noteq> 0"
  shows "queue_cells (IBQueue_enqueue q x d)
      = spoil (q_capa q - q_front q) (queue_cells q) @ [Some \<lparr>qe_obj = x, qe_deleter = d\<rparr>]
    \<and> \<not> IBQueue_ok (IBQueue_enqueue q x d)
    \<and> (if q_capa q - q_front q < sizeof_QueueEntry
       then IBQueue_dequeue (IBQueue_enqueue q x d) = Inl Indeterminate else True)"
proof -
  let ?q = "IBQueue_enqueue q x d" and ?m = "q_capa q - q_front q"
  have s: "queue_shape q" and c: "0 < q_capa q" using assms(1) by (auto simp: IBQueue_ok_def)
  have f: "0 < ?m" using s by (simp add: queue_shape_def)
  have cells: "queue_cells ?q = spoil ?m (queue_cells q) @ [Some \<lparr>qe_obj = x, qe_deleter = d\<rparr>]"
    using enqueue_cells(2) [OF s] assms(2,3) by simp
  have lost: "queue_cells ?q ! (?m div sizeof_QueueEntry) = None"
  proof -
    have "?m div sizeof_QueueEntry < ?m" using f by (simp add: sizeof_QueueEntry_def)
    then show ?thesis using f assms(2) by (simp add: cells nth_append spoil_nth)
  qed
  have len: "?m div sizeof_QueueEntry < length (queue_cells ?q)"
    using div_le_dividend [of ?m sizeof_QueueEntry] assms(2) by (simp add: cells del: div_le_dividend)
  then have "None \<in> set (queue_cells ?q)" using lost by (metis nth_mem)
  then have "\<not> IBQueue_ok ?q" by (simp add: IBQueue_ok_def)
  moreover have "IBQueue_dequeue ?q = Inl Indeterminate" if "?m < sizeof_QueueEntry"
  proof -
    have "queue_cell ?q 0 = None" and n: "q_count ?q \<noteq> 0"
      using lost len that by (auto simp del: queue_cells_nth simp flip: queue_cells_nth)
    moreover have "q_front ?q < q_capa ?q" using enqueue_cells(1) [OF s] by (simp add: queue_shape_def)
    ultimately show ?thesis by (simp add: IBQueue_dequeue_def queue_cell_def)
  qed
  ultimately show ?thesis using cells by simp
qed

text \<open>Eight objects in, one out, one in: the array is full and its front is 1.\<close>

definition wrapped_queue :: "(nat, unit) IBQueue" where
  "wrapped_queue = IBQueue_enqueue
     (snd (projr (IBQueue_dequeue (foldl (\<lambda>q x. IBQueue_enqueue q x None) IBQueue_create [0..<8])))) 8 None"

lemma wrapped_queue_value:
  "wrapped_queue = \<lparr>q_entries = map (\<lambda>x. Some \<lparr>qe_obj = x, qe_deleter = None\<rparr>) [8, 1, 2, 3, 4, 5, 6, 7],
     q_count = 8, q_capa = 8, q_front = 1, q_back = 1\<rparr>"
  by code_simp

theorem IBQueue_wrapped_growth_witness:
  "q_count wrapped_queue = 8 \<and> IBQueue_dequeue (IBQueue_enqueue wrapped_queue 9 None) = Inl Indeterminate"
proof -
  have "IBQueue_ok wrapped_queue"
    by code_simp
  then show ?thesis
    using IBQueue_wrapped_growth [of wrapped_queue 9 None]
    by (simp add: wrapped_queue_value sizeof_QueueEntry_def)
qed

end
