(* ===== verification/Channel.thy ===== *)
theory Channel
  imports HashTable Messages
begin

text \<open>
  \<open>src/lib/ircbot/ircchannel.c\<close>: one IRC channel: the nicks on it, and the state machine that
  joins it, waits for the join to be confirmed, and tries again. A handler returns the
  channel and the calls it makes on other components, in order: registrations on the
  events of the server and the service, commands sent through the server, and the
  channel's own events raised (always as the handler's last action). What a handler reads
  of the server is an argument: its nick, and whether it is logged in (then
  \<open>IrcServer_sendCmd\<close> succeeds).
\<close>

section \<open>State\<close>

abbreviation (input) JOINSYNCTICKS :: int where "JOINSYNCTICKS \<equiv> 15"
abbreviation (input) REJOINTICKS :: int where "REJOINTICKS \<equiv> 30"

record IrcChannel =
  ch_name :: string
  ch_nicks :: "(string, unit) IBHashTable"
  isJoined :: bool
  wantJoined :: bool
  joinsyncticks :: int
  rejointicks :: int

datatype ch_handler = JoinOnConnect | Disconnected | Waitjoin | Waitrejoin | HandleMsg

datatype ch_source = SrvConnected | SrvDisconnected | SrvMsgReceived | SvcTick

datatype ch_call =
    ChReg ch_source ch_handler int
  | ChUnreg ch_source ch_handler int
  | ChSend IrcCommand string
  | RaiseJoined | RaiseParted | RaiseEntered string | RaiseLeft string | RaiseFailed

type_synonym ch_result = "IrcChannel \<times> ch_call list"

text \<open>The new channel's counters are not initialised; \<open>mem\<close> is what the memory held.\<close>

definition IrcChannel_create :: "IrcChannel \<Rightarrow> string \<Rightarrow> ch_result" where
  "IrcChannel_create mem name =
     (mem\<lparr>ch_name := name, ch_nicks := IBHashTable_create 8, isJoined := False, wantJoined := False\<rparr>,
      map (\<lambda>c. ChReg SrvMsgReceived HandleMsg c)
        [MSG_JOIN, MSG_PART, MSG_QUIT, MSG_NICK, MSG_KICK, RPL_NAMREPLY, RPL_ENDOFNAMES, ERR_NOSUCHCHANNEL])"

definition IrcChannel_destroy :: "IrcChannel \<Rightarrow> ch_call list" where
  "IrcChannel_destroy self =
     map (\<lambda>c. ChUnreg SrvMsgReceived HandleMsg c)
       [ERR_NOSUCHCHANNEL, RPL_ENDOFNAMES, RPL_NAMREPLY, MSG_KICK, MSG_NICK, MSG_QUIT, MSG_PART, MSG_JOIN]"

section \<open>Joining and parting\<close>

definition IrcChannel_join :: "bool \<Rightarrow> IrcChannel \<Rightarrow> ch_result" where
  "IrcChannel_join logged_in self =
     (if wantJoined self then (self, [])
      else let self = self\<lparr>wantJoined := True\<rparr> in
           if \<not> logged_in then (self, [ChReg SrvConnected JoinOnConnect 0])
           else (self\<lparr>joinsyncticks := JOINSYNCTICKS\<rparr>,
                 [ChSend MSG_JOIN (ch_name self), ChReg SvcTick Waitjoin 0, ChReg SrvDisconnected Disconnected 0]))"

definition IrcChannel_part :: "bool \<Rightarrow> IrcChannel \<Rightarrow> ch_result" where
  "IrcChannel_part logged_in self =
     (let self = self\<lparr>wantJoined := False\<rparr>;
          unregs = [ChUnreg SrvConnected JoinOnConnect 0, ChUnreg SvcTick Waitjoin 0,
                    ChUnreg SvcTick Waitrejoin 0, ChUnreg SrvDisconnected Disconnected 0]
      in if isJoined self
         then (self\<lparr>isJoined := False\<rparr>,
               unregs @ (if logged_in then [ChSend MSG_PART (ch_name self)] else []) @ [RaiseParted])
         else (self, unregs))"

definition joinOnConnect :: "bool \<Rightarrow> IrcChannel \<Rightarrow> ch_result" where
  "joinOnConnect logged_in self =
     (case IrcChannel_join logged_in (self\<lparr>wantJoined := False\<rparr>) of
        (self, calls) \<Rightarrow> (self, ChUnreg SrvConnected JoinOnConnect 0 # calls))"

definition disconnected :: "IrcChannel \<Rightarrow> ch_result" where
  "disconnected self =
     (let calls = [ChUnreg SrvConnected JoinOnConnect 0, ChUnreg SvcTick Waitjoin 0,
                   ChUnreg SvcTick Waitrejoin 0, ChUnreg SrvDisconnected Disconnected 0]
                  @ (if wantJoined self then [ChReg SrvConnected JoinOnConnect 0] else [])
      in if isJoined self then (self\<lparr>isJoined := False\<rparr>, calls @ [RaiseParted]) else (self, calls))"

definition waitjoin :: "bool \<Rightarrow> IrcChannel \<Rightarrow> ch_result" where
  "waitjoin logged_in self =
     (let self = self\<lparr>joinsyncticks := joinsyncticks self - 1\<rparr> in
      if joinsyncticks self = 0
      then (self\<lparr>rejointicks := REJOINTICKS\<rparr>,
            (if logged_in then [ChSend MSG_PART (ch_name self)] else [])
            @ [ChUnreg SvcTick Waitjoin 0, ChReg SvcTick Waitrejoin 0])
      else (self, []))"

definition waitrejoin :: "bool \<Rightarrow> IrcChannel \<Rightarrow> ch_result" where
  "waitrejoin logged_in self =
     (let self = self\<lparr>rejointicks := rejointicks self - 1\<rparr> in
      if rejointicks self = 0
      then (case IrcChannel_join logged_in (self\<lparr>wantJoined := False\<rparr>) of
              (self, calls) \<Rightarrow> (self, ChUnreg SvcTick Waitrejoin 0 # calls))
      else (self, []))"

section \<open>Messages\<close>

text \<open>
  \<open>sscanf (prefix, "%127[^!]", buf)\<close> and the use of \<open>buf\<close>: with no character before the
  first \<open>'!'\<close> the conversion fails and \<open>buf\<close> stays uninitialised.
\<close>

definition scan_nick :: "string option \<Rightarrow> string result" where
  "scan_nick prefix =
     (case prefix of None \<Rightarrow> Inl NullDeref
      | Some p \<Rightarrow> let n = takeWhile (\<lambda>c. c \<noteq> CHR ''!'') p in
                  if n = [] then Inl Indeterminate else Inr (take 127 n))"

definition has_channel :: "IrcChannel \<Rightarrow> (string, 'd) IBList \<Rightarrow> nat \<Rightarrow> bool" where
  "has_channel self params i \<longleftrightarrow> IBList_at params i = Some (ch_name self)"

definition delete_nick :: "IrcChannel \<Rightarrow> string \<Rightarrow> bool \<times> IrcChannel" where
  "delete_nick self nick =
     (case IBHashTable_delete (ch_nicks self) nick of (found, calls, t) \<Rightarrow> (found, self\<lparr>ch_nicks := t\<rparr>))"

definition set_nick :: "IrcChannel \<Rightarrow> string \<Rightarrow> IrcChannel" where
  "set_nick self nick = self\<lparr>ch_nicks := snd (IBHashTable_set (ch_nicks self) nick (ch_name self) None)\<rparr>"

text \<open>
  The loop over the names of a reply. The condition tests \<open>'@'\<close> twice and \<open>'+'\<close> never.
\<close>

definition name_entry :: "string \<Rightarrow> string \<Rightarrow> string option" where
  "name_entry own nick =
     (case nick of [] \<Rightarrow> None
      | c # rest \<Rightarrow>
          let prefixed = \<not> (c \<noteq> CHR ''@'' \<and> c \<noteq> CHR ''%'' \<and> c \<noteq> CHR ''@'');
              nick = (if prefixed then rest else nick)
          in if (prefixed \<longrightarrow> rest \<noteq> []) \<and> nick \<noteq> own then Some nick else None)"

function names_loop :: "string \<Rightarrow> string option \<Rightarrow> IrcChannel \<Rightarrow> IrcChannel" where
  "names_loop own None self = self"
| "names_loop own (Some i) self =
     (case strsep i '' '' of (nick, i) \<Rightarrow>
        names_loop own i (case name_entry own nick of None \<Rightarrow> self | Some n \<Rightarrow> set_nick self n))"
  by pat_completeness auto
termination
  by (relation "measure (\<lambda>(own, i, self). case i of None \<Rightarrow> 0 | Some s \<Rightarrow> Suc (length s))")
    (auto split: option.splits dest: strsep_pair_length)

definition leave_msg :: "IrcChannel \<Rightarrow> string option \<Rightarrow> ch_result result" where
  "leave_msg self prefix =
     bind_result (scan_nick prefix) (\<lambda>buf.
       case delete_nick self buf of (found, self) \<Rightarrow> Inr (self, if found then [RaiseLeft buf] else []))"

definition handleMsg :: "string \<Rightarrow> IrcChannel \<Rightarrow> 'd IrcMessage \<Rightarrow> ch_result result" where
  "handleMsg own self msg =
     (let cmd = m_command msg; params = m_params msg; num = IBList_size params in
      if cmd = MSG_JOIN then
        (if num \<noteq> 0 \<and> has_channel self params 0
         then bind_result (scan_nick (m_prefix msg)) (\<lambda>buf.
                if buf \<noteq> own then Inr (set_nick self buf, [RaiseEntered buf]) else Inr (self, []))
         else Inr (self, []))
      else if cmd = MSG_PART then
        (if num = 0 \<or> \<not> has_channel self params 0 then Inr (self, []) else leave_msg self (m_prefix msg))
      else if cmd = MSG_QUIT then leave_msg self (m_prefix msg)
      else if cmd = MSG_NICK then
        (if num = 1
         then bind_result (scan_nick (m_prefix msg)) (\<lambda>buf.
                case delete_nick self buf of (found, self) \<Rightarrow>
                  Inr (if found then set_nick self (the (IBList_at params 0)) else self, []))
         else Inr (self, []))
      else if cmd = MSG_KICK then
        (if num > 1 \<and> has_channel self params 0
         then (let nick = the (IBList_at params 1) in
               if nick = own
               then (let self = self\<lparr>isJoined := False\<rparr> in
                     if wantJoined self
                     then Inr (self\<lparr>rejointicks := REJOINTICKS\<rparr>, [ChReg SvcTick Waitrejoin 0, RaiseParted])
                     else Inr (self, [RaiseParted]))
               else (case delete_nick self nick of (found, self) \<Rightarrow>
                       Inr (self, if found then [RaiseLeft nick] else [])))
         else Inr (self, []))
      else if cmd = RPL_NAMREPLY then
        (if num = 4 \<and> has_channel self params 2
         then Inr (names_loop own (IBList_at params 3) self, [])
         else Inr (self, []))
      else if cmd = RPL_ENDOFNAMES then
        (if num > 1 \<and> has_channel self params 1
         then Inr (self\<lparr>isJoined := True\<rparr>,
                   [ChUnreg SvcTick Waitjoin 0, ChUnreg SvcTick Waitrejoin 0, RaiseJoined])
         else Inr (self, []))
      else if cmd = ERR_NOSUCHCHANNEL then
        (if num \<noteq> 0 \<and> has_channel self params 0
         then Inr (self, [ChUnreg SrvConnected JoinOnConnect 0, ChUnreg SvcTick Waitjoin 0,
                          ChUnreg SvcTick Waitrejoin 0, ChUnreg SrvDisconnected Disconnected 0, RaiseFailed])
         else Inr (self, []))
      else Inr (self, []))"

section \<open>The nicks on the channel\<close>

definition channel_ok :: "IrcChannel \<Rightarrow> bool" where
  "channel_ok self \<longleftrightarrow> IBHashTable_ok (ch_nicks self) \<and> ht_bits (ch_nicks self) = 8"

definition nicks_of :: "IrcChannel \<Rightarrow> string set" where
  "nicks_of self = dom (IBHashTable_get (ch_nicks self))"

lemma create_channel_ok: "channel_ok (fst (IrcChannel_create mem name))" "nicks_of (fst (IrcChannel_create mem name)) = {}"
proof -
  have "IBHashTable_ok (IBHashTable_create 8 :: (string, unit) IBHashTable)" by (rule ht.create_ok) simp
  then show "channel_ok (fst (IrcChannel_create mem name))"
    by (simp add: channel_ok_def IrcChannel_create_def) (simp add: IBHashTable_create_def)
  have "IBHashTable_get (IBHashTable_create 8 :: (string, unit) IBHashTable) k = None" for k
    by (rule ht.create_get) simp
  then show "nicks_of (fst (IrcChannel_create mem name)) = {}"
    by (auto simp: nicks_of_def IrcChannel_create_def)
qed

lemma set_nick_ok:
  assumes "channel_ok self"
  shows "channel_ok (set_nick self n)" "nicks_of (set_nick self n) = insert n (nicks_of self)"
    "ch_name (set_nick self n) = ch_name self" "isJoined (set_nick self n) = isJoined self"
    "wantJoined (set_nick self n) = wantJoined self"
  using assms ht.put_ok [of "ch_nicks self"] ht.put_get [of "ch_nicks self"]
  by (auto simp: channel_ok_def set_nick_def nicks_of_def)

lemma bits_delete [simp]: "ht_bits (snd (snd (IBHashTable_delete t k))) = ht_bits t"
  by (simp add: IBHashTable_delete_def Let_def split: option.split prod.split)

lemma delete_nick_ok:
  assumes "channel_ok self" "delete_nick self n = (found, self')"
  shows "channel_ok self'" "nicks_of self' = nicks_of self - {n}" "found = (n \<in> nicks_of self)"
    "self' = self\<lparr>ch_nicks := ch_nicks self'\<rparr>"
proof -
  have ok: "IBHashTable_ok (ch_nicks self)" using assms(1) by (simp add: channel_ok_def)
  obtain c t where d: "IBHashTable_delete (ch_nicks self) n = (found, c, t)" "self' = self\<lparr>ch_nicks := t\<rparr>"
    using assms(2) by (auto simp: delete_nick_def split: prod.splits)
  have "IBHashTable_ok t" "ht_bits t = 8" "IBHashTable_get t = (IBHashTable_get (ch_nicks self))(n := None)"
      "found = (IBHashTable_get (ch_nicks self) n \<noteq> None)"
    using ht.remove_ok [OF ok, of n] bits_delete [of "ch_nicks self" n] ht.remove_get [OF ok, of n]
      ht.remove_found [OF ok, of n] assms(1) d(1)
    by (simp_all add: channel_ok_def)
  with d(2) show "channel_ok self'" "nicks_of self' = nicks_of self - {n}" "found = (n \<in> nicks_of self)"
    "self' = self\<lparr>ch_nicks := ch_nicks self'\<rparr>"
    by (auto simp: channel_ok_def nicks_of_def domIff)
qed

text \<open>The nicks a list of names adds.\<close>

definition names_of :: "string \<Rightarrow> string \<Rightarrow> string set" where
  "names_of own s = {n. \<exists>w\<in>set (split_fields '' '' s). name_entry own w = Some n}"

lemma names_loop_ok:
  "channel_ok self \<Longrightarrow> channel_ok (names_loop own i self) \<and> ch_name (names_loop own i self) = ch_name self \<and>
    nicks_of (names_loop own i self) = nicks_of self \<union> (case i of None \<Rightarrow> {} | Some s \<Rightarrow> names_of own s)"
proof (induction own i self rule: names_loop.induct)
  case (2 own i self)
  obtain w rest where s: "strsep i '' '' = (w, rest)" by fastforce
  have fields: "names_of own i = {n. name_entry own w = Some n} \<union> (case rest of None \<Rightarrow> {} | Some r \<Rightarrow> names_of own r)"
    using split_fields_strsep [of "'' ''" i] s by (auto simp: names_of_def split: option.splits)
  show ?case
  proof (cases "name_entry own w")
    case None
    with "2.IH" [OF s [symmetric]] "2.prems" s fields show ?thesis by simp
  next
    case (Some n)
    with "2.IH" [OF s [symmetric]] set_nick_ok [OF "2.prems", of n] s fields show ?thesis by auto
  qed
qed simp

text \<open>Who is on the channel after a message, from who was there before.\<close>

definition track :: "string \<Rightarrow> string \<Rightarrow> IrcCommand \<Rightarrow> string \<Rightarrow> string list \<Rightarrow> string set \<Rightarrow> string set" where
  "track own name cmd who params ns =
     (let here = (\<lambda>i. i < length params \<and> params ! i = name) in
      if cmd = MSG_JOIN \<and> here 0 \<and> who \<noteq> own then insert who ns
      else if cmd = MSG_PART \<and> here 0 \<or> cmd = MSG_QUIT then ns - {who}
      else if cmd = MSG_NICK \<and> length params = 1 \<and> who \<in> ns then insert (params ! 0) (ns - {who})
      else if cmd = MSG_KICK \<and> length params > 1 \<and> here 0 \<and> params ! 1 \<noteq> own then ns - {params ! 1}
      else if cmd = RPL_NAMREPLY \<and> length params = 4 \<and> here 2 then ns \<union> names_of own (params ! 3)
      else ns)"

text \<open>What the channel tells about its users then. The other events concern the channel itself.\<close>

definition tell :: "string \<Rightarrow> string \<Rightarrow> IrcCommand \<Rightarrow> string \<Rightarrow> string list \<Rightarrow> string set \<Rightarrow> ch_call list" where
  "tell own name cmd who params ns =
     (let here = (\<lambda>i. i < length params \<and> params ! i = name) in
      if cmd = MSG_JOIN \<and> here 0 \<and> who \<noteq> own then [RaiseEntered who]
      else if (cmd = MSG_PART \<and> here 0 \<or> cmd = MSG_QUIT) \<and> who \<in> ns then [RaiseLeft who]
      else if cmd = MSG_KICK \<and> length params > 1 \<and> here 0 \<and> params ! 1 \<noteq> own \<and> params ! 1 \<in> ns then [RaiseLeft (params ! 1)]
      else [])"

definition user_events :: "ch_call list \<Rightarrow> ch_call list" where
  "user_events = filter (\<lambda>c. case c of RaiseEntered n \<Rightarrow> True | RaiseLeft n \<Rightarrow> True | _ \<Rightarrow> False)"

lemma user_events_append [simp]: "user_events (cs @ ds) = user_events cs @ user_events ds"
  by (simp add: user_events_def)

definition lefts :: "ch_call list \<Rightarrow> string set" where
  "lefts calls = {n. RaiseLeft n \<in> set calls}"

definition entereds :: "ch_call list \<Rightarrow> string set" where
  "entereds calls = {n. RaiseEntered n \<in> set calls}"

lemma lefts_events: "lefts calls = lefts (user_events calls)" "entereds calls = entereds (user_events calls)"
  by (auto simp: lefts_def entereds_def user_events_def)

lemma has_channel_objs:
  "IBList_ok l \<Longrightarrow> has_channel self l i \<longleftrightarrow> i < length (objs l) \<and> objs l ! i = ch_name self"
  by (auto simp: has_channel_def IBList_at_objs)

lemma delete_nick_keeps:
  assumes "channel_ok self" "delete_nick self n = (found, self')"
  shows "ch_name self' = ch_name self" "channel_ok self'" "nicks_of self' = nicks_of self - {n}" "found = (n \<in> nicks_of self)"
proof -
  note o = delete_nick_ok [OF assms]
  show "ch_name self' = ch_name self" by (subst o(4)) simp
  show "channel_ok self'" "nicks_of self' = nicks_of self - {n}" "found = (n \<in> nicks_of self)" by (fact o)+
qed

lemma leave_msg_ok:
  assumes "channel_ok self" "scan_nick prefix = Inr who"
  shows "\<exists>self' calls. leave_msg self prefix = Inr (self', calls) \<and> channel_ok self' \<and> ch_name self' = ch_name self
    \<and> nicks_of self' = nicks_of self - {who} \<and> user_events calls = (if who \<in> nicks_of self then [RaiseLeft who] else [])"
proof -
  obtain f s' where d: "delete_nick self who = (f, s')" by fastforce
  note o = delete_nick_keeps [OF assms(1) d]
  with d assms(2) show ?thesis by (auto simp: leave_msg_def user_events_def)
qed

lemma handleMsg_runs:
  assumes "channel_ok self" "IBList_ok (m_params msg)" "scan_nick (m_prefix msg) = Inr who"
  shows "\<exists>self' calls. handleMsg own self msg = Inr (self', calls) \<and> channel_ok self' \<and> ch_name self' = ch_name self
    \<and> nicks_of self' = track own (ch_name self) (m_command msg) who (objs (m_params msg)) (nicks_of self)
    \<and> user_events calls = tell own (ch_name self) (m_command msg) who (objs (m_params msg)) (nicks_of self)"
proof -
  let ?ps = "objs (m_params msg)" and ?c = "m_command msg"
  note here = has_channel_objs [OF assms(2)] and num = IBList_size_objs [OF assms(2)] and at = IBList_at_objs [OF assms(2)]
    and evs = user_events_def tell_def
  consider "?c = MSG_JOIN" | "?c = MSG_PART" | "?c = MSG_QUIT" | "?c = MSG_NICK" | "?c = MSG_KICK"
    | "?c = RPL_NAMREPLY" | "?c \<notin> {MSG_JOIN, MSG_PART, MSG_QUIT, MSG_NICK, MSG_KICK, RPL_NAMREPLY}" by blast
  then show ?thesis
  proof cases
    case 1
    with assms(1,3) set_nick_ok [OF assms(1), of who] show ?thesis
      by (auto simp: handleMsg_def track_def here num Let_def evs)
  next
    case 2
    with assms leave_msg_ok [OF assms(1,3)] show ?thesis
      by (auto simp: handleMsg_def track_def here num Let_def evs)
  next
    case 3
    with assms leave_msg_ok [OF assms(1,3)] show ?thesis
      by (auto simp: handleMsg_def track_def Let_def evs)
  next
    case 4
    obtain f s' where d: "delete_nick self who = (f, s')" by fastforce
    note o = delete_nick_ok [OF assms(1) d] delete_nick_keeps [OF assms(1) d]
    with 4 assms(1,3) d set_nick_ok [OF o(1), of "?ps ! 0"] show ?thesis
      by (auto simp: handleMsg_def track_def num Let_def evs at)
  next
    case 5
    obtain f s' where d: "delete_nick self (?ps ! 1) = (f, s')" by fastforce
    with delete_nick_keeps [OF assms(1) d] 5 assms(1,3) show ?thesis
      by (auto simp: handleMsg_def track_def here num Let_def evs at channel_ok_def nicks_of_def)
  next
    case 6
    with assms(1) names_loop_ok [OF assms(1), of own "Some (?ps ! 3)"] show ?thesis
      by (auto simp: handleMsg_def track_def here num Let_def evs at)
  next
    case 7
    with assms(1) show ?thesis
      by (auto simp: handleMsg_def track_def Let_def evs channel_ok_def nicks_of_def)
  qed
qed

text \<open>The same for any message the handler ends on, whose sender may be missing where it is not used.\<close>

definition sender_nick :: "'d IrcMessage \<Rightarrow> string" where
  "sender_nick m = (case scan_nick (m_prefix m) of Inl f \<Rightarrow> [] | Inr who \<Rightarrow> who)"

lemma handleMsg_tells:
  assumes "channel_ok self" "IBList_ok (m_params msg)" "handleMsg own self msg = Inr (self', calls)"
  shows "channel_ok self' \<and> ch_name self' = ch_name self
    \<and> nicks_of self' = track own (ch_name self) (m_command msg) (sender_nick msg) (objs (m_params msg)) (nicks_of self)
    \<and> user_events calls = tell own (ch_name self) (m_command msg) (sender_nick msg) (objs (m_params msg)) (nicks_of self)"
proof (cases "scan_nick (m_prefix msg)")
  case (Inr who)
  with handleMsg_runs [OF assms(1,2), of who own] assms(3) show ?thesis by (auto simp: sender_nick_def)
next
  case (Inl f)
  let ?msg = "msg\<lparr>m_prefix := Some [CHR ''a'']\<rparr>"
  have w: "scan_nick (m_prefix ?msg) = Inr ''a''" by (simp add: scan_nick_def)
  note here = has_channel_objs [OF assms(2)] and num = IBList_size_objs [OF assms(2)]
  have same: "handleMsg own self ?msg = handleMsg own self msg"
    using assms(3) Inl by (auto simp: handleMsg_def leave_msg_def Let_def here num split: if_splits)
  let ?n = "ch_name self" and ?c = "m_command msg" and ?ps = "objs (m_params msg)" and ?ns = "nicks_of self"
  have unused: "\<not> (?c = MSG_JOIN \<and> 0 < length ?ps \<and> ?ps ! 0 = ?n)" "\<not> (?c = MSG_PART \<and> 0 < length ?ps \<and> ?ps ! 0 = ?n)"
    "?c \<noteq> MSG_QUIT" "\<not> (?c = MSG_NICK \<and> length ?ps = 1)"
    using assms(3) Inl by (auto simp: handleMsg_def leave_msg_def Let_def here num split: if_splits)
  then have "track own ?n ?c ''a'' ?ps ?ns = track own ?n ?c (sender_nick msg) ?ps ?ns"
    "tell own ?n ?c ''a'' ?ps ?ns = tell own ?n ?c (sender_nick msg) ?ps ?ns"
    by (auto simp: track_def tell_def Let_def)
  moreover obtain t cs where "handleMsg own self ?msg = Inr (t, cs)" "channel_ok t" "ch_name t = ?n"
      "nicks_of t = track own ?n ?c ''a'' ?ps ?ns" "user_events cs = tell own ?n ?c ''a'' ?ps ?ns"
    using handleMsg_runs [OF assms(1) _ w, of own] assms(2) by auto
  moreover have "t = self' \<and> cs = calls" using calculation(3) unfolding same assms(3) by simp
  ultimately show ?thesis by simp
qed

text \<open>The table of nicks follows the protocol. For a message whose prefix names a nick, the
  handler ends without a fault, keeps the table well-formed, and the table holds afterwards
  exactly who is on the channel then: joined, parted, quit, kicked, renamed or listed in a
  reply, the bot itself never being added by a join or a list. The \<open>left\<close> event is raised
  for exactly the nicks removed (other than by renaming), \<open>entered\<close> for exactly one who joined.\<close>

theorem IrcChannel_tracks:
  assumes "channel_ok self" "IBList_ok (m_params msg)" "scan_nick (m_prefix msg) = Inr who"
  shows "\<exists>self' calls. handleMsg own self msg = Inr (self', calls) \<and> channel_ok self' \<and> ch_name self' = ch_name self
    \<and> nicks_of self' = track own (ch_name self) (m_command msg) who (objs (m_params msg)) (nicks_of self)
    \<and> lefts calls = (if m_command msg = MSG_NICK then {} else nicks_of self - nicks_of self')
    \<and> entereds calls = (if m_command msg = MSG_JOIN \<and> has_channel self (m_params msg) 0 \<and> who \<noteq> own then {who} else {})"
proof -
  obtain self' calls where r: "handleMsg own self msg = Inr (self', calls)" "channel_ok self'" "ch_name self' = ch_name self"
      "nicks_of self' = track own (ch_name self) (m_command msg) who (objs (m_params msg)) (nicks_of self)"
      "user_events calls = tell own (ch_name self) (m_command msg) who (objs (m_params msg)) (nicks_of self)"
    using handleMsg_runs [OF assms] by metis
  have "lefts calls = (if m_command msg = MSG_NICK then {} else nicks_of self - nicks_of self')"
    "entereds calls = (if m_command msg = MSG_JOIN \<and> has_channel self (m_params msg) 0 \<and> who \<noteq> own then {who} else {})"
    unfolding lefts_events [of calls] r(4,5)
    by (auto simp: lefts_def entereds_def tell_def track_def Let_def has_channel_objs [OF assms(2)])
  with r show ?thesis by blast
qed

lemma delete_nick_name: "ch_name (snd (delete_nick self n)) = ch_name self"
  by (simp add: delete_nick_def split: prod.split)

lemma leave_msg_name: "leave_msg self prefix = Inr (self', calls) \<Longrightarrow> ch_name self' = ch_name self"
  by (auto simp: leave_msg_def bind_result_eq_Inr case_prod_beta delete_nick_name)

lemma names_loop_name: "ch_name (names_loop own i self) = ch_name self"
  by (induction own i self rule: names_loop.induct) (simp_all add: set_nick_def split: prod.split option.split)

lemma handleMsg_name:
  assumes "handleMsg own self msg = Inr (self', calls)"
  shows "ch_name self' = ch_name self"
proof -
  let ?c = "m_command msg"
  have n: "ch_name (set_nick t n) = ch_name t" for t n by (simp add: set_nick_def)
  consider "?c = MSG_JOIN" | "?c = MSG_PART \<or> ?c = MSG_QUIT" | "?c = MSG_NICK" | "?c = MSG_KICK"
    | "?c \<notin> {MSG_JOIN, MSG_PART, MSG_QUIT, MSG_NICK, MSG_KICK}" by blast
  then show ?thesis
  proof cases
    case 1
    with assms show ?thesis by (auto simp: handleMsg_def Let_def bind_result_eq_Inr n split: if_splits)
  next
    case 2
    with assms show ?thesis by (auto simp: handleMsg_def Let_def split: if_splits intro: leave_msg_name)
  next
    case 3
    with assms show ?thesis using delete_nick_name [of self]
      by (cases "IBList_size (m_params msg) = 1") (auto simp: handleMsg_def Let_def bind_result_eq_Inr n case_prod_beta split: if_splits)
  next
    case 4
    with assms show ?thesis using delete_nick_name [of self]
      by (auto simp: handleMsg_def Let_def case_prod_beta split: if_splits)
  next
    case 5
    with assms show ?thesis by (auto simp: handleMsg_def Let_def names_loop_name split: if_splits)
  qed
qed

text \<open>
  Only messages change the table: it is not emptied when the channel is left or the connection
  is lost, so after the next join it still holds those who left in between.
\<close>

lemma others_keep_nicks:
  "ch_nicks (fst (IrcChannel_join li self)) = ch_nicks self" "ch_nicks (fst (IrcChannel_part li self)) = ch_nicks self"
  "ch_nicks (fst (joinOnConnect li self)) = ch_nicks self" "ch_nicks (fst (disconnected self)) = ch_nicks self"
  "ch_nicks (fst (waitjoin li self)) = ch_nicks self" "ch_nicks (fst (waitrejoin li self)) = ch_nicks self"
  by (simp_all add: IrcChannel_join_def IrcChannel_part_def joinOnConnect_def disconnected_def waitjoin_def waitrejoin_def Let_def)

lemma others_keep_name:
  "ch_name (fst (IrcChannel_join li self)) = ch_name self" "ch_name (fst (joinOnConnect li self)) = ch_name self"
  "ch_name (fst (disconnected self)) = ch_name self"
  "ch_name (fst (waitjoin li self)) = ch_name self" "ch_name (fst (waitrejoin li self)) = ch_name self"
  by (simp_all add: IrcChannel_join_def joinOnConnect_def disconnected_def waitjoin_def waitrejoin_def Let_def)

lemma others_tell_nothing:
  "user_events (snd (IrcChannel_join li self)) = []" "user_events (snd (joinOnConnect li self)) = []"
  "user_events (snd (disconnected self)) = []" "user_events (snd (waitjoin li self)) = []" "user_events (snd (waitrejoin li self)) = []"
  by (simp_all add: IrcChannel_join_def joinOnConnect_def disconnected_def waitjoin_def waitrejoin_def Let_def user_events_def)

text \<open>A channel with one nick, and messages for it.\<close>

definition test_channel :: IrcChannel where
  "test_channel = set_nick (fst (IrcChannel_create \<lparr>ch_name = [], ch_nicks = IBHashTable_create 8,
     isJoined = True, wantJoined = False, joinsyncticks = 0, rejointicks = 0\<rparr> ''#c'')) ''ann''"

definition test_message :: "string option \<Rightarrow> IrcCommand \<Rightarrow> string list \<Rightarrow> unit IrcMessage" where
  "test_message prefix cmd params =
     \<lparr>m_prefix = prefix, m_rawCmd = [], m_rawParams = None,
      m_params = foldl (\<lambda>l p. IBList_append l p (Some ())) IBList_create params, m_command = cmd\<rparr>"

lemma test_channel_simps [simp]:
  "channel_ok test_channel" "nicks_of test_channel = {''ann''}" "ch_name test_channel = ''#c''"
proof -
  let ?mem = "\<lparr>ch_name = [], ch_nicks = IBHashTable_create 8, isJoined = True, wantJoined = False,
      joinsyncticks = 0, rejointicks = 0\<rparr>"
  note c = create_channel_ok [of ?mem "''#c''"]
  show "channel_ok test_channel" "nicks_of test_channel = {''ann''}" "ch_name test_channel = ''#c''"
    using set_nick_ok [OF c(1), of "''ann''"] c(2)
    by (simp_all add: test_channel_def IrcChannel_create_def)
qed

lemma test_message_simps [simp]:
  "IBList_ok (m_params (test_message prefix cmd params))" "objs (m_params (test_message prefix cmd params)) = params"
  "m_command (test_message prefix cmd params) = cmd" "m_prefix (test_message prefix cmd params) = prefix"
  using seq.build [of "Some ()" params] by (simp_all add: test_message_def)

theorem IrcChannel_tracks_witness:
  "\<exists>self calls. handleMsg ''bot'' test_channel (test_message (Some ''bob!b@h'') MSG_JOIN [''#c'']) = Inr (self, calls)
     \<and> nicks_of self = {''ann'', ''bob''} \<and> entereds calls = {''bob''}"
proof -
  have "scan_nick (Some ''bob!b@h'') = Inr ''bob''" by code_simp
  then show ?thesis
    using IrcChannel_tracks [of test_channel "test_message (Some ''bob!b@h'') MSG_JOIN [''#c'']" "''bob''" "''bot''"]
    by (auto simp: track_def has_channel_objs)
qed

text \<open>A QUIT without a prefix (a legal line of the protocol, and one the parser accepts)
  makes every channel's handler read through a null pointer, and one with an empty nick
  makes it use an uninitialised buffer.\<close>

theorem IrcChannel_quit_needs_prefix:
  "handleMsg own self (test_message None MSG_QUIT params) = Inl NullDeref
   \<and> handleMsg own self (test_message (Some (CHR ''!'' # rest)) MSG_QUIT params) = Inl Indeterminate"
  by (simp add: handleMsg_def leave_msg_def scan_nick_def Let_def)

section \<open>The timers of joining\<close>

text \<open>
  The channel with the registrations its calls have made, and the commands it has sent. The
  registrations follow \<open>Event_register\<close> and \<open>Event_unregister\<close>.
\<close>

type_synonym ch_reg = "ch_source \<times> ch_handler \<times> int"

fun apply_call :: "ch_reg list \<Rightarrow> ch_call \<Rightarrow> ch_reg list" where
  "apply_call regs (ChReg s h i) = regs @ [(s, h, i)]"
| "apply_call regs (ChUnreg s h i) = remove1 (s, h, i) regs"
| "apply_call regs _ = regs"

definition sends :: "ch_call list \<Rightarrow> (IrcCommand \<times> string) list" where
  "sends calls = concat (map (\<lambda>c. case c of ChSend cmd arg \<Rightarrow> [(cmd, arg)] | _ \<Rightarrow> []) calls)"

definition ch_apply :: "ch_result \<Rightarrow> ch_reg list \<Rightarrow> (IrcChannel \<times> ch_reg list) \<times> (IrcCommand \<times> string) list" where
  "ch_apply r regs = ((fst r, foldl apply_call regs (snd r)), sends (snd r))"

text \<open>A tick of the service calls the channel's tick handlers in force.\<close>

fun ch_tick_handlers :: "bool \<Rightarrow> ch_reg list \<Rightarrow> IrcChannel \<times> ch_reg list
    \<Rightarrow> (IrcChannel \<times> ch_reg list) \<times> (IrcCommand \<times> string) list" where
  "ch_tick_handlers li [] w = (w, [])"
| "ch_tick_handlers li ((src, h, i) # hs) (self, regs) =
     (if src = SvcTick
      then (let (w, out) = ch_apply (if h = Waitjoin then waitjoin li self
                                     else if h = Waitrejoin then waitrejoin li self else (self, [])) regs;
                (w', out') = ch_tick_handlers li hs w
            in (w', out @ out'))
      else ch_tick_handlers li hs (self, regs))"

definition ch_tick :: "bool \<Rightarrow> IrcChannel \<times> ch_reg list \<Rightarrow> (IrcChannel \<times> ch_reg list) \<times> (IrcCommand \<times> string) list" where
  "ch_tick li w = ch_tick_handlers li (snd w) w"

fun ch_ticks :: "bool \<Rightarrow> nat \<Rightarrow> IrcChannel \<times> ch_reg list \<Rightarrow> (IrcChannel \<times> ch_reg list) \<times> (IrcCommand \<times> string) list" where
  "ch_ticks li 0 w = (w, [])"
| "ch_ticks li (Suc n) w =
     (case ch_tick li w of (w, out) \<Rightarrow> case ch_ticks li n w of (w, out') \<Rightarrow> (w, out @ out'))"

lemma ch_ticks_add:
  "ch_ticks li (m + n) w = (case ch_ticks li m w of (w1, o1) \<Rightarrow> case ch_ticks li n w1 of (w2, o2) \<Rightarrow> (w2, o1 @ o2))"
  by (induction m arbitrary: w) (simp_all split: prod.split)

definition tick_regs :: "ch_reg list \<Rightarrow> ch_handler list" where
  "tick_regs regs = map (\<lambda>(s, h, i). h) (filter (\<lambda>(s, h, i). s = SvcTick) regs)"

lemma ch_tick_one:
  assumes "filter (\<lambda>(s, h, i). s = SvcTick) regs = [(SvcTick, h, i)]"
  shows "ch_tick li (self, regs) = ch_apply (if h = Waitjoin then waitjoin li self
      else if h = Waitrejoin then waitrejoin li self else (self, [])) regs"
proof -
  have "ch_tick_handlers li hs w = (w, [])" if "filter (\<lambda>(s, h, i). s = SvcTick) hs = []" for hs w
    using that by (induction hs arbitrary: w) (auto split: if_splits)
  then have "ch_tick_handlers li hs (self, regs) = ch_apply (if h = Waitjoin then waitjoin li self
      else if h = Waitrejoin then waitrejoin li self else (self, [])) regs"
    if "filter (\<lambda>(s, h, i). s = SvcTick) hs = [(SvcTick, h, i)]" for hs
    using that by (induction hs) (auto simp: Let_def split: if_splits prod.splits)
  then show ?thesis using assms by (simp add: ch_tick_def)
qed

lemma wait_ticks:
  assumes "filter (\<lambda>(s, h, i). s = SvcTick) regs = [(SvcTick, Waitjoin, 0)]" "int n < joinsyncticks self"
  shows "ch_ticks li n (self, regs) = ((self\<lparr>joinsyncticks := joinsyncticks self - int n\<rparr>, regs), [])"
  using assms(2)
proof (induction n arbitrary: self)
  case (Suc n)
  then have "joinsyncticks self - 1 \<noteq> 0" by simp
  then have "ch_tick li (self, regs) = ((self\<lparr>joinsyncticks := joinsyncticks self - 1\<rparr>, regs), [])"
    by (simp add: ch_tick_one [OF assms(1)] ch_apply_def waitjoin_def sends_def)
  with Suc.IH [of "self\<lparr>joinsyncticks := joinsyncticks self - 1\<rparr>"] Suc.prems show ?case by simp
qed simp

lemma rewait_ticks:
  assumes "filter (\<lambda>(s, h, i). s = SvcTick) regs = [(SvcTick, Waitrejoin, 0)]" "int n < rejointicks self"
  shows "ch_ticks li n (self, regs) = ((self\<lparr>rejointicks := rejointicks self - int n\<rparr>, regs), [])"
  using assms(2)
proof (induction n arbitrary: self)
  case (Suc n)
  then have "rejointicks self - 1 \<noteq> 0" by simp
  then have "ch_tick li (self, regs) = ((self\<lparr>rejointicks := rejointicks self - 1\<rparr>, regs), [])"
    by (simp add: ch_tick_one [OF assms(1)] ch_apply_def waitrejoin_def sends_def)
  with Suc.IH [of "self\<lparr>rejointicks := rejointicks self - 1\<rparr>"] Suc.prems show ?case by simp
qed simp

lemma ch_ticks_1: "ch_ticks li 1 w = ch_tick li w"
  by (simp split: prod.split)

lemma regs_after_join:
  assumes "tick_regs regs = []"
  shows "filter (\<lambda>(s, h, i). s = SvcTick) (regs @ [(SvcTick, Waitjoin, 0), (SrvDisconnected, Disconnected, 0)])
    = [(SvcTick, Waitjoin, 0)]"
  using assms by (simp add: tick_regs_def)



end
