(* ===== verification/Client.thy ===== *)
theory Client
  imports Prelude
begin

text \<open>
  \<open>src/lib/ircbot/client.c\<close>: the blacklist of addresses that failed, and opening a TCP
  connection to the first usable address of a host. An address is the list of its bytes
  (\<open>len\<close> is its length). What the resolver and the kernel answer are arguments.
\<close>

section \<open>The blacklist\<close>

abbreviation (input) BLACKLISTSIZE :: nat where "BLACKLISTSIZE \<equiv> 32"
abbreviation (input) BLACKLISTHITS :: int where "BLACKLISTHITS \<equiv> 3"

text \<open>The size of a \<open>sockaddr_storage\<close>.\<close>

abbreviation (input) SS_SIZE :: nat where "SS_SIZE \<equiv> 128"

type_synonym address = "char list"

record BlacklistEntry =
  bl_len :: nat
  bl_val :: "char list"
  bl_hits :: int

definition blacklist_init :: "BlacklistEntry list" where
  "blacklist_init = replicate BLACKLISTSIZE \<lparr>bl_len = 0, bl_val = replicate SS_SIZE NUL, bl_hits = 0\<rparr>"

definition bl_store :: "address \<Rightarrow> BlacklistEntry \<Rightarrow> BlacklistEntry" where
  "bl_store addr e = e\<lparr>bl_val := addr @ drop (length addr) (bl_val e), bl_len := length addr, bl_hits := BLACKLISTHITS\<rparr>"

fun Connection_blacklistAddress :: "address \<Rightarrow> BlacklistEntry list \<Rightarrow> BlacklistEntry list" where
  "Connection_blacklistAddress addr [] = []"
| "Connection_blacklistAddress addr (e # es) =
     (if bl_len e \<noteq> 0 then e # Connection_blacklistAddress addr es else bl_store addr e # es)"

definition bl_match :: "address \<Rightarrow> BlacklistEntry \<Rightarrow> bool" where
  "bl_match addr e \<longleftrightarrow> bl_len e = length addr \<and> take (length addr) (bl_val e) = addr"

text \<open>Whether an address may be used; a refusal uses up one hit.\<close>

fun blacklistcheck :: "address \<Rightarrow> BlacklistEntry list \<Rightarrow> bool \<times> BlacklistEntry list" where
  "blacklistcheck addr [] = (True, [])"
| "blacklistcheck addr (e # es) =
     (if bl_match addr e
      then (let e = e\<lparr>bl_hits := bl_hits e - 1\<rparr>
            in (False, (if bl_hits e = 0 then e\<lparr>bl_len := 0\<rparr> else e) # es))
      else (case blacklistcheck addr es of (ok, es) \<Rightarrow> (ok, e # es)))"

section \<open>Opening a connection\<close>

datatype family = AF_INET | AF_INET6 | AF_OTHER

record addrinfo =
  ai_family :: family
  ai_addr :: address

datatype ClientProto = CP_ANY | CP_IPv4 | CP_IPv6

text \<open>
  The loop over the resolver's results from number \<open>i\<close> on: \<open>sock i\<close> is the descriptor
  \<open>socket\<close> gives for it (negative on failure), \<open>conn_ok i\<close> whether \<open>connect\<close> succeeds or
  is in progress. The result is the descriptor and the address in use, the descriptors
  closed, and the blacklist.
\<close>

definition wrong_family :: "ClientProto \<Rightarrow> family \<Rightarrow> bool" where
  "wrong_family p f \<longleftrightarrow>
     f \<noteq> AF_INET \<and> f \<noteq> AF_INET6 \<or> p = CP_IPv4 \<and> f \<noteq> AF_INET \<or> p = CP_IPv6 \<and> f \<noteq> AF_INET6"

fun connect_loop :: "ClientProto \<Rightarrow> (nat \<Rightarrow> int) \<Rightarrow> (nat \<Rightarrow> bool) \<Rightarrow> nat \<Rightarrow> addrinfo list \<Rightarrow> BlacklistEntry list
    \<Rightarrow> (int \<times> addrinfo) option \<times> int list \<times> BlacklistEntry list" where
  "connect_loop p sock conn_ok i [] bl = (None, [], bl)"
| "connect_loop p sock conn_ok i (r # rs) bl =
     (if wrong_family p (ai_family r) then connect_loop p sock conn_ok (i + 1) rs bl
      else (case blacklistcheck (ai_addr r) bl of (ok, bl) \<Rightarrow>
        if \<not> ok then connect_loop p sock conn_ok (i + 1) rs bl
        else if sock i < 0 then connect_loop p sock conn_ok (i + 1) rs bl
        else if conn_ok i then (Some (sock i, r), [], bl)
        else (case connect_loop p sock conn_ok (i + 1) rs bl of (found, closed, bl) \<Rightarrow>
                (found, sock i # closed, bl))))"

text \<open>
  The resolver's status \<open>rc\<close> is tested for being negative only; with a positive one the
  list of results is the uninitialised variable. Without TLS support a TLS connection is
  refused.
\<close>

definition Connection_createTcpClient :: "bool \<Rightarrow> bool \<Rightarrow> ClientProto \<Rightarrow> int \<Rightarrow> addrinfo list \<Rightarrow> (nat \<Rightarrow> int) \<Rightarrow> (nat \<Rightarrow> bool)
    \<Rightarrow> BlacklistEntry list \<Rightarrow> ((int \<times> addrinfo) option \<times> int list \<times> BlacklistEntry list) result" where
  "Connection_createTcpClient with_tls tls p rc results sock conn_ok bl =
     (if \<not> with_tls \<and> tls then Inr (None, [], bl)
      else if rc < 0 then Inr (None, [], bl)
      else if rc > 0 then Inl Indeterminate
      else Inr (connect_loop p sock conn_ok 0 results bl))"

section \<open>What the blacklist means\<close>

definition entry_ok :: "BlacklistEntry \<Rightarrow> bool" where
  "entry_ok e \<longleftrightarrow> length (bl_val e) = SS_SIZE \<and> bl_len e \<le> SS_SIZE \<and> (bl_len e \<noteq> 0 \<longrightarrow> bl_hits e > 0)"

definition blacklist_ok :: "BlacklistEntry list \<Rightarrow> bool" where
  "blacklist_ok es \<longleftrightarrow> list_all entry_ok es"

definition legal :: "address \<Rightarrow> bool" where
  "legal addr \<longleftrightarrow> addr \<noteq> [] \<and> length addr \<le> SS_SIZE"

text \<open>How many more times an address is refused, and the free places.\<close>

definition refusals :: "BlacklistEntry list \<Rightarrow> address \<Rightarrow> int" where
  "refusals es addr = sum_list (map (\<lambda>e. if bl_match addr e then bl_hits e else 0) es)"

definition free_places :: "BlacklistEntry list \<Rightarrow> nat" where
  "free_places es = length (filter (\<lambda>e. bl_len e = 0) es)"

lemma match_legal: "legal addr \<Longrightarrow> bl_match addr e \<Longrightarrow> bl_len e \<noteq> 0"
  by (auto simp: legal_def bl_match_def)

lemma match_store: "length addr \<le> length (bl_val e) \<Longrightarrow> bl_match b (bl_store addr e) \<longleftrightarrow> b = addr"
  by (auto simp: bl_match_def bl_store_def)

lemma blacklist_init_ok: "blacklist_ok blacklist_init" "refusals blacklist_init addr = 0" "free_places blacklist_init = BLACKLISTSIZE"
  by (simp_all add: blacklist_init_def blacklist_ok_def entry_ok_def refusals_def free_places_def list_all_iff sum_list_replicate)

lemma free_no_match: "legal addr \<Longrightarrow> bl_len e = 0 \<Longrightarrow> \<not> bl_match addr e"
  by (auto simp: bl_match_def legal_def)

lemma blacklist_address:
  assumes "blacklist_ok es" "legal addr"
  shows "blacklist_ok (Connection_blacklistAddress addr es)"
    "free_places (Connection_blacklistAddress addr es) = free_places es - 1"
    "free_places es > 0 \<Longrightarrow> legal b \<Longrightarrow>
       refusals (Connection_blacklistAddress addr es) b = refusals es b + (if b = addr then 3 else 0)"
proof -
  show "blacklist_ok (Connection_blacklistAddress addr es)"
    using assms by (induction es) (auto simp: blacklist_ok_def entry_ok_def bl_store_def legal_def)
  show "free_places (Connection_blacklistAddress addr es) = free_places es - 1"
    using assms(2) by (induction es) (auto simp: free_places_def bl_store_def legal_def)
  show "refusals (Connection_blacklistAddress addr es) b = refusals es b + (if b = addr then 3 else 0)"
    if "free_places es > 0" "legal b"
    using assms that(1)
  proof (induction es)
    case (Cons e es)
    then have e: "length addr \<le> length (bl_val e)" by (simp add: blacklist_ok_def entry_ok_def legal_def)
    show ?case
    proof (cases "bl_len e = 0")
      case True
      have "bl_hits (bl_store addr e) = 3" by (simp add: bl_store_def)
      with True free_no_match [OF that(2) True] show ?thesis
        by (simp add: refusals_def match_store [OF e])
    next
      case False
      with Cons show ?thesis by (simp add: refusals_def free_places_def blacklist_ok_def)
    qed
  qed (simp add: free_places_def)
qed

lemma refusals_nonneg: "blacklist_ok es \<Longrightarrow> legal addr \<Longrightarrow> 0 \<le> refusals es addr"
proof (induction es)
  case (Cons e es)
  then have "bl_match addr e \<Longrightarrow> 0 < bl_hits e"
    using match_legal [of addr e] by (simp add: blacklist_ok_def entry_ok_def)
  with Cons show ?case by (auto simp: refusals_def blacklist_ok_def)
qed (simp add: refusals_def)

lemma blacklist_check:
  assumes "blacklist_ok es" "legal addr" "blacklistcheck addr es = (ok, es')"
  shows "blacklist_ok es' \<and> (ok \<longleftrightarrow> refusals es addr = 0) \<and> free_places es \<le> free_places es'
    \<and> (\<forall>b. legal b \<longrightarrow> refusals es' b = refusals es b - (if b = addr \<and> \<not> ok then 1 else 0))"
  using assms
proof (induction es arbitrary: ok es')
  case Nil
  then show ?case by (auto simp: refusals_def)
next
  case (Cons e es)
  have es: "blacklist_ok es" "entry_ok e" using Cons.prems(1) by (simp_all add: blacklist_ok_def)
  show ?case
  proof (cases "bl_match addr e")
    case True
    have hits: "0 < bl_hits e" "bl_len e \<noteq> 0"
      using match_legal [OF Cons.prems(2) True] es(2) by (simp_all add: entry_ok_def)
    let ?e = "e\<lparr>bl_hits := bl_hits e - 1\<rparr>"
    let ?f = "if bl_hits e = 1 then ?e\<lparr>bl_len := 0\<rparr> else ?e"
    have r: "ok = False" "es' = ?f # es"
      using Cons.prems(3) True by (auto simp: Let_def)
    have match: "bl_match b ?e = bl_match b e" for b by (simp add: bl_match_def)
    have other: "bl_match b e \<longleftrightarrow> b = addr" for b
      using True by (auto simp: bl_match_def)
    have "refusals (?f # es) b = refusals (e # es) b - (if b = addr then 1 else 0)" if "legal b" for b
      using free_no_match [OF that, of "?e\<lparr>bl_len := 0\<rparr>"] other [of b] match [of b] hits
      by (auto simp: refusals_def)
    moreover have "entry_ok ?f" using es(2) hits by (simp add: entry_ok_def)
    moreover have "refusals (e # es) addr \<noteq> 0"
      using refusals_nonneg [OF es(1) Cons.prems(2)] True hits by (simp add: refusals_def)
    ultimately show ?thesis
      using es(1) hits(2) by (simp add: r blacklist_ok_def free_places_def)
  next
    case False
    obtain es1 where c: "blacklistcheck addr es = (ok, es1)" "es' = e # es1"
      using Cons.prems(3) False by (auto split: prod.splits)
    from Cons.IH [OF es(1) Cons.prems(2) c(1)] False es(2) show ?thesis
      by (simp add: c(2) refusals_def blacklist_ok_def free_places_def)
  qed
qed

section \<open>The blacklist as counters\<close>

datatype bl_op = Black address | Try address

fun op_address :: "bl_op \<Rightarrow> address" where
  "op_address (Black a) = a"
| "op_address (Try a) = a"

fun bl_run :: "bl_op list \<Rightarrow> BlacklistEntry list \<Rightarrow> bool list" where
  "bl_run [] es = []"
| "bl_run (Black a # ops) es = bl_run ops (Connection_blacklistAddress a es)"
| "bl_run (Try a # ops) es = (case blacklistcheck a es of (ok, es) \<Rightarrow> ok # bl_run ops es)"

text \<open>The specification: a counter per address.\<close>

fun bl_spec :: "bl_op list \<Rightarrow> (address \<Rightarrow> int) \<Rightarrow> bool list" where
  "bl_spec [] n = []"
| "bl_spec (Black a # ops) n = bl_spec ops (n(a := n a + 3))"
| "bl_spec (Try a # ops) n = (n a = 0) # bl_spec ops (if n a = 0 then n else n(a := n a - 1))"

fun blacks :: "bl_op list \<Rightarrow> nat" where
  "blacks [] = 0"
| "blacks (Black a # ops) = Suc (blacks ops)"
| "blacks (Try a # ops) = blacks ops"

lemma bl_run_spec:
  "blacklist_ok es \<Longrightarrow> list_all (\<lambda>op. legal (op_address op)) ops \<Longrightarrow> blacks ops \<le> free_places es \<Longrightarrow>
    \<forall>b. legal b \<longrightarrow> n b = refusals es b \<Longrightarrow> bl_run ops es = bl_spec ops n"
proof (induction ops arbitrary: es n)
  case (Cons op ops)
  show ?case
  proof (cases op)
    case (Black a)
    with Cons.prems have a: "legal a" "0 < free_places es" by simp_all
    note b = blacklist_address [OF Cons.prems(1) a(1)]
    have "\<forall>c. legal c \<longrightarrow> (n(a := n a + 3)) c = refusals (Connection_blacklistAddress a es) c"
      using b(3) [OF a(2)] Cons.prems(4) a(1) by auto
    moreover have "list_all (\<lambda>op. legal (op_address op)) ops" "blacks ops \<le> free_places (Connection_blacklistAddress a es)"
      using Cons.prems b(2) Black by simp_all
    ultimately have "bl_run ops (Connection_blacklistAddress a es) = bl_spec ops (n(a := n a + 3))"
      by (intro Cons.IH [OF b(1)])
    with Black show ?thesis by simp
  next
    case (Try a)
    with Cons.prems have a: "legal a" by simp
    obtain ok es' where c: "blacklistcheck a es = (ok, es')" by fastforce
    note b = blacklist_check [OF Cons.prems(1) a c]
    have "bl_run ops es' = bl_spec ops (if n a = 0 then n else n(a := n a - 1))"
      using b Cons.prems Try a by (intro Cons.IH) auto
    with c b Cons.prems(4) a Try show ?thesis by simp
  qed
qed simp

text \<open>C33: the blacklist is a counter for each address. For any sequence in which at most 32
  addresses are blacklisted (the size of the table), a blacklisted address is refused
  exactly the next three times it is tried for each time it was blacklisted, then accepted
  again, and no other address is ever refused.\<close>

theorem blacklist_counts:
  assumes "list_all (\<lambda>op. legal (op_address op)) ops" "blacks ops \<le> BLACKLISTSIZE"
  shows "bl_run ops blacklist_init = bl_spec ops (\<lambda>_. 0)"
  using bl_run_spec [OF blacklist_init_ok(1) assms(1)] assms(2) by (simp add: blacklist_init_ok)

theorem blacklist_counts_witness:
  "bl_run [Try ''a'', Black ''a'', Try ''a'', Try ''b'', Try ''a'', Try ''a'', Try ''a''] blacklist_init
     = [True, False, True, False, False, True]"
  using blacklist_counts [of "[Try ''a'', Black ''a'', Try ''a'', Try ''b'', Try ''a'', Try ''a'', Try ''a'']"]
  by (simp add: legal_def)


section \<open>The address chosen\<close>

definition opened :: "ClientProto \<Rightarrow> (nat \<Rightarrow> int) \<Rightarrow> BlacklistEntry list \<Rightarrow> nat \<times> addrinfo \<Rightarrow> bool" where
  "opened p sock bl = (\<lambda>(i, r). \<not> wrong_family p (ai_family r) \<and> refusals bl (ai_addr r) = 0 \<and> sock i \<ge> 0)"

definition usable :: "ClientProto \<Rightarrow> (nat \<Rightarrow> int) \<Rightarrow> (nat \<Rightarrow> bool) \<Rightarrow> BlacklistEntry list \<Rightarrow> nat \<times> addrinfo \<Rightarrow> bool" where
  "usable p sock conn_ok bl = (\<lambda>(i, r). opened p sock bl (i, r) \<and> conn_ok i)"

lemma connect_loop_cong:
  "(\<And>x. x \<in> set xs \<Longrightarrow> P x = Q x) \<Longrightarrow> find P xs = find Q xs \<and> takeWhile (\<lambda>x. \<not> P x) xs = takeWhile (\<lambda>x. \<not> Q x) xs"
  by (induction xs) auto

lemma connect_loop_first:
  assumes "blacklist_ok bl" "list_all (\<lambda>r. legal (ai_addr r)) rs" "distinct (map ai_addr rs)"
  shows "\<exists>bl'. connect_loop p sock conn_ok i rs bl =
     (map_option (\<lambda>(k, r). (sock k, r)) (find (usable p sock conn_ok bl) (enumerate i rs)),
      map (\<lambda>(k, r). sock k) (filter (opened p sock bl)
        (takeWhile (\<lambda>x. \<not> usable p sock conn_ok bl x) (enumerate i rs))), bl')"
  using assms
proof (induction rs arbitrary: i bl)
  case (Cons r rs)
  obtain ok bl1 where c: "blacklistcheck (ai_addr r) bl = (ok, bl1)" by fastforce
  have r: "legal (ai_addr r)" using Cons.prems(2) by simp
  note b = blacklist_check [OF Cons.prems(1) r c]
  have same: "refusals bl1 (ai_addr x) = refusals bl (ai_addr x)" if "x \<in> set rs" for x
  proof -
    have "ai_addr x \<in> ai_addr ` set rs" "legal (ai_addr x)" using that Cons.prems(2) by (auto simp: list_all_iff)
    then have "ai_addr x \<noteq> ai_addr r" "legal (ai_addr x)" using Cons.prems(3) by auto
    with b show ?thesis by simp
  qed
  have enum: "\<And>k x. (k, x) \<in> set (enumerate (Suc i) rs) \<Longrightarrow> x \<in> set rs" by (metis in_set_enumerate_eq nth_mem snd_conv le_imp_diff_is_add less_diff_conv2)
  have u: "usable p sock conn_ok bl1 x = usable p sock conn_ok bl x" "opened p sock bl1 x = opened p sock bl x"
    if "x \<in> set (enumerate (Suc i) rs)" for x
    using enum [of "fst x" "snd x"] same [of "snd x"] that
    by (auto simp: usable_def opened_def split: prod.splits)
  note cong = connect_loop_cong [of "enumerate (Suc i) rs", OF u(1)]
  have filt: "filter (opened p sock bl1) (takeWhile P (enumerate (Suc i) rs))
      = filter (opened p sock bl) (takeWhile P (enumerate (Suc i) rs))" for P
    by (rule filter_cong) (auto dest: set_takeWhileD u(2))
  have ih: "\<exists>bl'. connect_loop p sock conn_ok (Suc i) rs bl2 =
     (map_option (\<lambda>(k, r). (sock k, r)) (find (usable p sock conn_ok bl) (enumerate (Suc i) rs)),
      map (\<lambda>(k, r). sock k) (filter (opened p sock bl)
        (takeWhile (\<lambda>x. \<not> usable p sock conn_ok bl x) (enumerate (Suc i) rs))), bl')" if "bl2 = bl \<or> bl2 = bl1" for bl2
  proof (cases "bl2 = bl")
    case True
    with Cons.IH [OF Cons.prems(1)] Cons.prems show ?thesis by simp
  next
    case False
    then have "bl2 = bl1" using that by simp
    with Cons.IH [of bl1 "Suc i"] b Cons.prems cong filt show ?thesis by simp
  qed
  have us: "usable p sock conn_ok bl (i, r) \<longleftrightarrow> opened p sock bl (i, r) \<and> conn_ok i"
    "opened p sock bl (i, r) \<longleftrightarrow> \<not> wrong_family p (ai_family r) \<and> ok \<and> sock i \<ge> 0"
    using b by (auto simp: usable_def opened_def)
  show ?case
    using ih [of bl] ih [of bl1] c us by (auto split: prod.splits)
qed simp

text \<open>Opening a connection takes the first address of the resolver's list, in its order,
  that has a usable family, is not blacklisted, and for which a socket can be opened and
  the connection started; there is none exactly when no such address exists. Every other
  socket that was opened on the way is closed again, and no more than those.\<close>

theorem createTcpClient_first:
  assumes "blacklist_ok bl" "list_all (\<lambda>r. legal (ai_addr r)) rs" "distinct (map ai_addr rs)" "with_tls \<or> \<not> tls"
  shows "\<exists>bl'. Connection_createTcpClient with_tls tls p 0 rs sock conn_ok bl = Inr
     (map_option (\<lambda>(k, r). (sock k, r)) (find (usable p sock conn_ok bl) (enumerate 0 rs)),
      map (\<lambda>(k, r). sock k) (filter (opened p sock bl)
        (takeWhile (\<lambda>x. \<not> usable p sock conn_ok bl x) (enumerate 0 rs))), bl')"
  using connect_loop_first [OF assms(1-3), of p sock conn_ok 0] assms(4)
  by (auto simp: Connection_createTcpClient_def)

theorem createTcpClient_first_witness:
  "\<exists>bl'. Connection_createTcpClient False False CP_IPv4 0
     [\<lparr>ai_family = AF_INET6, ai_addr = ''six''\<rparr>, \<lparr>ai_family = AF_INET, ai_addr = ''one''\<rparr>,
      \<lparr>ai_family = AF_INET, ai_addr = ''two''\<rparr>, \<lparr>ai_family = AF_INET, ai_addr = ''three''\<rparr>]
     (\<lambda>i. int i + 3) (\<lambda>i. i = 3) (Connection_blacklistAddress ''two'' blacklist_init)
   = Inr (Some (6, \<lparr>ai_family = AF_INET, ai_addr = ''three''\<rparr>), [4], bl')"
proof -
  have l: "legal ''two''" by (simp add: legal_def)
  note b = blacklist_address [OF blacklist_init_ok(1) l]
  have r: "refusals (Connection_blacklistAddress ''two'' blacklist_init) a = (if a = ''two'' then 3 else 0)" if "legal a" for a
    using b(3) [OF _ that] by (simp add: blacklist_init_ok)
  show ?thesis
    using createTcpClient_first [OF b(1), of "[\<lparr>ai_family = AF_INET6, ai_addr = ''six''\<rparr>, \<lparr>ai_family = AF_INET, ai_addr = ''one''\<rparr>,
      \<lparr>ai_family = AF_INET, ai_addr = ''two''\<rparr>, \<lparr>ai_family = AF_INET, ai_addr = ''three''\<rparr>]" False False CP_IPv4
      "\<lambda>i. int i + 3" "\<lambda>i. i = 3"]
    by (simp add: legal_def usable_def opened_def wrong_family_def r)
qed

end
