(* ===== verification/Server.thy ===== *)
theory Server
  imports ObjQueue Channel Client
begin

text \<open>
  \<open>src/lib/ircbot/ircserver.c\<close>: the connection to one IRC server: its login, the rate-limited
  send queue, the receive buffer, the idle timer, the channels and the reconnecting. The
  state is a record whose extension is the rest of the program; an event of the server is
  raised by the parameter \<open>raise\<close>, the handlers of which may change everything. Calls on
  other components (registrations, \<open>Connection_write\<close>, \<open>Connection_close\<close>, the channels'
  operations) are appended to \<open>s_calls\<close> in order.
\<close>

section \<open>State\<close>

abbreviation (input) RECONNTICKS :: int where "RECONNTICKS \<equiv> 300"
abbreviation (input) QUICKRECONNTICKS :: int where "QUICKRECONNTICKS \<equiv> 5"
abbreviation (input) LOGINTICKS :: int where "LOGINTICKS \<equiv> 20"
abbreviation (input) IDLETICKS :: int where "IDLETICKS \<equiv> 180"
abbreviation (input) PINGTICKS :: int where "PINGTICKS \<equiv> 3"
abbreviation (input) FULLSENDCREDIT :: int where "FULLSENDCREDIT \<equiv> 9"
abbreviation (input) RECVBUFSZ :: nat where "RECVBUFSZ \<equiv> 8192"

datatype srv_handler = ConnConnected | ConnClosed | ConnDataReceived | ConnDataSent
  | ConnWaitReconn | ConnWaitLogin | ActiveTick | ChanJoined | ChanParted | ChanFailed

datatype conn_event = ConnectedEv | ClosedEv | DataReceivedEv | DataSentEv

type_synonym chan_id = nat

datatype srv_call =
    RegTick srv_handler | UnregTick srv_handler
  | RegConn nat conn_event srv_handler | UnregConn nat conn_event srv_handler
  | RegChan chan_id srv_handler | UnregChan chan_id srv_handler
  | ConnWrite nat string
  | ConnClose nat bool
  | ChanCreate chan_id string | ChanJoin chan_id | ChanPart chan_id | ChanDestroy chan_id

record IrcServer =
  s_id :: string
  s_remotehost :: string
  s_tls :: "(string option \<times> string option) option"  \<comment> \<open>certificate and key files\<close>
  s_name :: "string option"
  s_nick :: string
  s_user :: "string option"
  s_realname :: "string option"
  s_channels :: "(chan_id, unit) IBHashTable"
  s_conn :: "nat option"
  s_sendQueue :: "(string, unit) IBQueue option"
  s_sendcmd :: "string option"
  s_proto :: ClientProto
  s_port :: int
  s_sending :: bool
  s_connst :: int
  s_loginticks :: int
  s_reconnticks :: int
  s_idleticks :: int
  s_sendcreditticks :: int
  s_recvbufsz :: nat
  s_recvbuf :: "char list"
  s_livechans :: "chan_id list"       \<comment> \<open>the channel objects not yet destroyed\<close>
  s_nextchan :: chan_id
  s_calls :: "srv_call list"

datatype srv_event = EvConnected | EvDisconnected | EvMsgReceived "unit IrcMessage"
  | EvJoined chan_id | EvParted chan_id

definition call :: "srv_call \<Rightarrow> 'x IrcServer_scheme \<Rightarrow> 'x IrcServer_scheme" where
  "call c self = self\<lparr>s_calls := s_calls self @ [c]\<rparr>"

definition servername :: "'x IrcServer_scheme \<Rightarrow> string" where
  "servername self = (case s_name self of None \<Rightarrow> s_remotehost self | Some n \<Rightarrow> n)"

definition IrcServer_create :: "'x IrcServer_scheme \<Rightarrow> string \<Rightarrow> string \<Rightarrow> int \<Rightarrow> string \<Rightarrow> string option
    \<Rightarrow> string option \<Rightarrow> 'x IrcServer_scheme" where
  "IrcServer_create mem sid remotehost port nick user realname =
     mem\<lparr>s_id := sid, s_remotehost := remotehost, s_proto := CP_ANY, s_port := port, s_tls := None,
         s_name := None, s_nick := nick, s_user := user, s_realname := realname,
         s_channels := IBHashTable_create 6, s_conn := None, s_sendQueue := None, s_sendcmd := None,
         s_sending := False, s_connst := 0, s_recvbufsz := 0\<rparr>"

definition IrcServer_enableTls :: "'x IrcServer_scheme \<Rightarrow> string option \<Rightarrow> string option \<Rightarrow> 'x IrcServer_scheme" where
  "IrcServer_enableTls self certfile keyfile = self\<lparr>s_tls := Some (certfile, keyfile)\<rparr>"

definition IrcServer_useIpv4 :: "'x IrcServer_scheme \<Rightarrow> 'x IrcServer_scheme" where
  "IrcServer_useIpv4 self = self\<lparr>s_proto := CP_IPv4\<rparr>"

definition IrcServer_useIpv6 :: "'x IrcServer_scheme \<Rightarrow> 'x IrcServer_scheme" where
  "IrcServer_useIpv6 self = self\<lparr>s_proto := CP_IPv6\<rparr>"

section \<open>Sending\<close>

definition enqueue_cmd :: "string option \<Rightarrow> 'x IrcServer_scheme \<Rightarrow> 'x IrcServer_scheme result" where
  "enqueue_cmd command self =
     (case command of
        None \<Rightarrow> Inr self
      | Some c \<Rightarrow> (case s_sendQueue self of
                     None \<Rightarrow> Inl NullDeref
                   | Some q \<Rightarrow> Inr (self\<lparr>s_sendQueue := Some (IBQueue_enqueue q c (Some ()))\<rparr>)))"

definition try_send :: "'x IrcServer_scheme \<Rightarrow> 'x IrcServer_scheme result" where
  "try_send self =
     (if s_sendcreditticks self < 2 \<or> s_sending self then Inr self
      else (case s_sendQueue self of
              None \<Rightarrow> Inl NullDeref
            | Some q \<Rightarrow> bind_result (IBQueue_dequeue q) (\<lambda>(cmd, q).
                let self = self\<lparr>s_sendQueue := Some q, s_sendcmd := cmd\<rparr> in
                case cmd of
                  None \<Rightarrow> Inr self
                | Some c \<Rightarrow>
                    let self = self\<lparr>s_sending := True, s_sendcreditticks := s_sendcreditticks self - 2\<rparr> in
                    (case s_conn self of
                       None \<Rightarrow> Inl NullDeref
                     | Some conn \<Rightarrow> Inr (call (ConnWrite conn c) self)))))"

definition sendRaw :: "string option \<Rightarrow> 'x IrcServer_scheme \<Rightarrow> 'x IrcServer_scheme result" where
  "sendRaw command self = bind_result (enqueue_cmd command self) try_send"

text \<open>
  The format \<open>"%s %s\r\n"\<close> into 513 bytes; a null string for \<open>%s\<close> is a fault.
\<close>

definition raw_line :: "IrcCommand \<Rightarrow> string option \<Rightarrow> string result" where
  "raw_line cmd args =
     (case (IrcCommand_str cmd, args) of
        (Some c, Some a) \<Rightarrow> Inr (snprintf_fit 513 (c @ '' '' @ a @ CRLF))
      | _ \<Rightarrow> Inl NullDeref)"

definition sendRawCmd :: "IrcCommand \<Rightarrow> string option \<Rightarrow> 'x IrcServer_scheme \<Rightarrow> 'x IrcServer_scheme result" where
  "sendRawCmd cmd args self = bind_result (raw_line cmd args) (\<lambda>buf. sendRaw (Some buf) self)"

definition IrcServer_sendCmd :: "IrcCommand \<Rightarrow> string option \<Rightarrow> 'x IrcServer_scheme
    \<Rightarrow> (int \<times> 'x IrcServer_scheme) result" where
  "IrcServer_sendCmd cmd args self =
     (if s_connst self \<le> 0 then Inr (-1, self)
      else bind_result (sendRawCmd cmd args self) (\<lambda>self. Inr (0, self)))"

text \<open>
  The loop of \<open>IrcServer_sendMsg\<close> that cuts a message into lines. It need not end (with a
  chunk size of 0 it does not), so it is a partial function.
\<close>

partial_function (option) chunk_lines :: "string \<Rightarrow> string \<Rightarrow> nat \<Rightarrow> string \<Rightarrow> string list option" where
  "chunk_lines pre suf maxchunk message =
     (if message = [] then Some []
      else let chunksz = (if length message > maxchunk then maxchunk else length message) in
           Option.bind (chunk_lines pre suf maxchunk (drop chunksz message))
             (\<lambda>rest. Some ((pre @ take chunksz message @ suf) # rest)))"

fun send_lines :: "string list \<Rightarrow> 'x IrcServer_scheme \<Rightarrow> 'x IrcServer_scheme result" where
  "send_lines [] self = Inr self"
| "send_lines (line # rest) self =
     (if length line + 1 \<le> 513 then bind_result (sendRaw (Some line) self) (send_lines rest)
      else Inl OutOfBounds)"

definition msg_prefix :: "string \<Rightarrow> bool \<Rightarrow> string" where
  "msg_prefix to action = the (IrcCommand_str MSG_PRIVMSG) @ '' '' @ to @ '' :'' @ (if action then CTCP # ''ACTION '' else [])"

definition msg_suffix :: "bool \<Rightarrow> string" where
  "msg_suffix action = drop (if action then 0 else 1) (CTCP # CRLF)"

definition IrcServer_sendMsg :: "string \<Rightarrow> string \<Rightarrow> bool \<Rightarrow> 'x IrcServer_scheme
    \<Rightarrow> (int \<times> 'x IrcServer_scheme) result option" where
  "IrcServer_sendMsg to message action self =
     (if s_connst self \<le> 0 then Some (Inr (-1, self))
      else if length to > 255 then Some (Inr (-1, self))
      else (let pre = msg_prefix to action;
                maxchunk = 513 - length pre - 3 - (if action then 1 else 0)
            in map_option (\<lambda>lines. bind_result (send_lines lines self) (\<lambda>self. Inr (0, self)))
                 (chunk_lines pre (msg_suffix action) maxchunk message)))"

definition IrcServer_setNick :: "string \<Rightarrow> 'x IrcServer_scheme \<Rightarrow> 'x IrcServer_scheme result" where
  "IrcServer_setNick nick self =
     (if nick \<noteq> s_nick self
      then (let self = self\<lparr>s_nick := nick\<rparr> in
            if s_connst self > 0 then sendRawCmd MSG_NICK (Some (s_nick self)) self else Inr self)
      else Inr self)"

section \<open>The connection's events\<close>

definition connConnected :: "nat \<Rightarrow> 'x IrcServer_scheme \<Rightarrow> 'x IrcServer_scheme" where
  "connConnected conn self =
     (if Some conn = s_conn self
      then (let self = call (RegConn conn DataReceivedEv ConnDataReceived) self;
                self = call (RegConn conn DataSentEv ConnDataSent) self;
                self = self\<lparr>s_sendQueue := Some IBQueue_create, s_sendcreditticks := FULLSENDCREDIT,
                            s_connst := -1, s_loginticks := LOGINTICKS\<rparr>
            in call (RegTick ConnWaitLogin) self)
      else self)"

definition connClosed :: "(srv_event \<Rightarrow> 'x IrcServer_scheme \<Rightarrow> 'x IrcServer_scheme result) \<Rightarrow> nat \<Rightarrow> bool
    \<Rightarrow> 'x IrcServer_scheme \<Rightarrow> 'x IrcServer_scheme result" where
  "connClosed raise conn args self =
     (if Some conn = s_conn self
      then (let self = self\<lparr>s_conn := None, s_reconnticks := (if args then QUICKRECONNTICKS else RECONNTICKS),
                            s_connst := 0\<rparr> in
            bind_result (IBQueue_destroy (s_sendQueue self)) (\<lambda>freed.
            bind_result (raise EvDisconnected (self\<lparr>s_sendQueue := None\<rparr>)) (\<lambda>self.
              let self = call (UnregTick ConnWaitLogin) (self\<lparr>s_name := None\<rparr>)
              in Inr (call (RegTick ConnWaitReconn) self))))
      else Inr self)"

definition connDataSent :: "nat \<Rightarrow> 'x IrcServer_scheme \<Rightarrow> 'x IrcServer_scheme result" where
  "connDataSent conn self =
     (if Some conn = s_conn self then sendRaw None (self\<lparr>s_sendcmd := None, s_sending := False\<rparr>) else Inr self)"

text \<open>The parameter \<open>created\<close> is the result of \<open>Connection_createTcpClient\<close>.\<close>

definition IrcServer_connect :: "nat option \<Rightarrow> 'x IrcServer_scheme \<Rightarrow> int \<times> 'x IrcServer_scheme" where
  "IrcServer_connect created self =
     (case s_conn self of
        Some _ \<Rightarrow> (0, self)
      | None \<Rightarrow>
          let self = self\<lparr>s_conn := created\<rparr> in
          (case created of
             None \<Rightarrow> (-1, self)
           | Some conn \<Rightarrow> (0, call (RegConn conn ClosedEv ConnClosed) (call (RegConn conn ConnectedEv ConnConnected) self))))"

definition conn_close :: "bool \<Rightarrow> 'x IrcServer_scheme \<Rightarrow> 'x IrcServer_scheme result" where
  "conn_close blacklist self =
     (case s_conn self of None \<Rightarrow> Inl NullDeref | Some conn \<Rightarrow> Inr (call (ConnClose conn blacklist) self))"

definition IrcServer_disconnect :: "'x IrcServer_scheme \<Rightarrow> 'x IrcServer_scheme result" where
  "IrcServer_disconnect self =
     (let self = call (UnregTick ConnWaitReconn) (call (UnregTick ConnWaitLogin) self) in
      if s_connst self > 0 then sendRawCmd MSG_QUIT (Some '':bye.'') self
      else if s_conn self \<noteq> None then conn_close False self
      else Inr self)"

section \<open>Ticks\<close>

definition connWaitReconn :: "nat option \<Rightarrow> 'x IrcServer_scheme \<Rightarrow> 'x IrcServer_scheme" where
  "connWaitReconn created self =
     (let self = self\<lparr>s_reconnticks := s_reconnticks self - 1\<rparr> in
      if s_reconnticks self \<le> 0
      then (case IrcServer_connect created self of (rc, self) \<Rightarrow>
              if rc < 0 then self\<lparr>s_reconnticks := RECONNTICKS\<rparr> else call (UnregTick ConnWaitReconn) self)
      else self)"

definition connWaitLogin :: "'x IrcServer_scheme \<Rightarrow> 'x IrcServer_scheme result" where
  "connWaitLogin self =
     (let self = self\<lparr>s_loginticks := s_loginticks self - 1\<rparr> in
      if s_loginticks self \<le> 0 then conn_close True (call (UnregTick ConnWaitLogin) self) else Inr self)"

definition activeTick :: "'x IrcServer_scheme \<Rightarrow> 'x IrcServer_scheme result" where
  "activeTick self =
     (let self = (if s_sendcreditticks self < FULLSENDCREDIT
                  then self\<lparr>s_sendcreditticks := s_sendcreditticks self + 1\<rparr> else self) in
      bind_result (sendRaw None self) (\<lambda>self.
        let self = self\<lparr>s_idleticks := s_idleticks self - 1\<rparr> in
        if s_idleticks self = 0 then sendRawCmd MSG_PING (Some (s_nick self)) self
        else if s_idleticks self \<le> - PINGTICKS then conn_close False (call (UnregTick ActiveTick) self)
        else Inr self))"

section \<open>Channels\<close>

definition chan_new :: "string \<Rightarrow> 'x IrcServer_scheme \<Rightarrow> chan_id \<times> 'x IrcServer_scheme" where
  "chan_new name self =
     (let c = s_nextchan self;
          self = self\<lparr>s_nextchan := c + 1, s_livechans := c # s_livechans self\<rparr>;
          self = call (ChanCreate c name) self;
          self = call (RegChan c ChanJoined) self;
          self = call (RegChan c ChanParted) self;
          self = call (RegChan c ChanFailed) self
      in (c, self\<lparr>s_channels := snd (IBHashTable_set (s_channels self) name c (Some ()))\<rparr>))"

definition chan_destroy :: "chan_id \<Rightarrow> 'x IrcServer_scheme \<Rightarrow> 'x IrcServer_scheme result" where
  "chan_destroy c self =
     (if c \<in> set (s_livechans self)
      then Inr (call (ChanDestroy c) (self\<lparr>s_livechans := remove1 c (s_livechans self)\<rparr>))
      else Inl DoubleFree)"

text \<open>The deleters \<open>destroyIrcChannel\<close> run by the table of channels.\<close>

fun run_deleters :: "(unit \<times> chan_id) list \<Rightarrow> 'x IrcServer_scheme \<Rightarrow> 'x IrcServer_scheme result" where
  "run_deleters [] self = Inr self"
| "run_deleters ((d, c) # cs) self = bind_result (chan_destroy c self) (run_deleters cs)"

definition chan_unreg :: "chan_id \<Rightarrow> 'x IrcServer_scheme \<Rightarrow> 'x IrcServer_scheme" where
  "chan_unreg c self = call (UnregChan c ChanFailed) (call (UnregChan c ChanParted) (call (UnregChan c ChanJoined) self))"

definition channels_delete :: "string \<Rightarrow> 'x IrcServer_scheme \<Rightarrow> 'x IrcServer_scheme result" where
  "channels_delete name self =
     (case IBHashTable_delete (s_channels self) name of (found, calls, t) \<Rightarrow>
        run_deleters calls (self\<lparr>s_channels := t\<rparr>))"

definition chanJoined :: "(srv_event \<Rightarrow> 'x IrcServer_scheme \<Rightarrow> 'x IrcServer_scheme result) \<Rightarrow> chan_id
    \<Rightarrow> 'x IrcServer_scheme \<Rightarrow> 'x IrcServer_scheme result" where
  "chanJoined raise c self = raise (EvJoined c) self"

definition chanParted :: "(srv_event \<Rightarrow> 'x IrcServer_scheme \<Rightarrow> 'x IrcServer_scheme result) \<Rightarrow> chan_id
    \<Rightarrow> 'x IrcServer_scheme \<Rightarrow> 'x IrcServer_scheme result" where
  "chanParted raise c self = raise (EvParted c) self"

text \<open>The name handed to the table is the destroyed channel's own.\<close>

definition chanFailed :: "chan_id \<Rightarrow> string \<Rightarrow> 'x IrcServer_scheme \<Rightarrow> 'x IrcServer_scheme result" where
  "chanFailed c name self =
     bind_result (chan_destroy c (chan_unreg c self)) (\<lambda>self.
       if c \<in> set (s_livechans self) then channels_delete name self else Inl UseAfterFree)"

definition IrcServer_join :: "string \<Rightarrow> 'x IrcServer_scheme \<Rightarrow> 'x IrcServer_scheme" where
  "IrcServer_join channel self =
     (case IBHashTable_get (s_channels self) channel of
        Some c \<Rightarrow> call (ChanJoin c) self
      | None \<Rightarrow> (case chan_new channel self of (c, self) \<Rightarrow> call (ChanJoin c) self))"

definition IrcServer_part :: "string \<Rightarrow> 'x IrcServer_scheme \<Rightarrow> 'x IrcServer_scheme result" where
  "IrcServer_part channel self =
     (case IBHashTable_get (s_channels self) channel of
        None \<Rightarrow> Inr self
      | Some c \<Rightarrow>
          bind_result (chan_destroy c (chan_unreg c (call (ChanPart c) self))) (channels_delete channel))"

section \<open>Messages\<close>

text \<open>Whether a message comes from this client: the prefix up to \<open>'!'\<close> is the nick.\<close>

definition from_self :: "'x IrcServer_scheme \<Rightarrow> string option \<Rightarrow> bool result" where
  "from_self self prefix =
     (case prefix of None \<Rightarrow> Inl NullDeref
      | Some p \<Rightarrow> Inr (strncmp_eq p (s_nick self) (length (s_nick self)) \<and> strcspn p ''!'' = length (s_nick self)))"

definition handleMessage :: "(srv_event \<Rightarrow> 'x IrcServer_scheme \<Rightarrow> 'x IrcServer_scheme result) \<Rightarrow> unit IrcMessage
    \<Rightarrow> 'x IrcServer_scheme \<Rightarrow> 'x IrcServer_scheme result" where
  "handleMessage raise msg self =
     (let cmd = m_command msg; params = m_params msg in
      bind_result
        (if cmd = RPL_MYINFO then
           (if IBList_size params > 2
            then (let self = self\<lparr>s_name := IB_copystr (IBList_at params 1), s_connst := 1,
                                  s_sendcreditticks := FULLSENDCREDIT\<rparr>;
                      self = call (UnregTick ConnWaitLogin) self;
                      self = call (RegTick ActiveTick) self
                  in raise EvConnected self)
            else Inr self)
         else if cmd = ERR_NICKNAMEINUSE then
           (let self = self\<lparr>s_nick := s_nick self @ ''_''\<rparr> in sendRawCmd MSG_NICK (Some (s_nick self)) self)
         else if cmd = MSG_PING then sendRawCmd MSG_PONG (m_rawParams msg) self
         else if cmd = MSG_NICK then
           (if IBList_size params \<noteq> 0
            then bind_result (from_self self (m_prefix msg)) (\<lambda>own.
                   Inr (if own then self\<lparr>s_nick := the (IBList_at params 0)\<rparr> else self))
            else Inr self)
         else if cmd = MSG_JOIN then
           (if IBList_size params \<noteq> 0
            then bind_result (from_self self (m_prefix msg)) (\<lambda>own.
                   let chan = the (IBList_at params 0) in
                   Inr (if own \<and> IBHashTable_get (s_channels self) chan = None
                        then snd (chan_new chan self) else self))
            else Inr self)
         else Inr self)
        (raise (EvMsgReceived msg)))"

section \<open>Receiving\<close>

lemma IrcMessage_create_pos:
  assumes "IrcMessage_create free buf sz pos = Inr (m, pos')"
  shows "pos' = pos \<or> pos < pos' \<and> pos' \<le> sz"
proof -
  have crlf: "find_crlf buf sz s = Inr (Some e) \<Longrightarrow> s \<le> e \<and> e + 2 \<le> sz" for s e
  proof (induction buf sz s rule: find_crlf.induct)
    case (1 buf sz s)
    then show ?case
      by (simp add: find_crlf.simps [of buf sz s] bind_result_eq_Inr split: if_splits) force+
  qed
  show ?thesis
    using assms crlf
    by (fastforce simp: IrcMessage_create_def bind_result_eq_Inr split: option.splits if_splits prod.splits)
qed

text \<open>
  The loop that takes messages from the buffer until the position stays. The buffer and its
  size are fixed during the loop: no handler writes them.
\<close>

function receive_loop :: "(srv_event \<Rightarrow> 'x IrcServer_scheme \<Rightarrow> 'x IrcServer_scheme result) \<Rightarrow> char list \<Rightarrow> nat
    \<Rightarrow> nat \<Rightarrow> 'x IrcServer_scheme \<Rightarrow> (nat \<times> 'x IrcServer_scheme) result" where
  "receive_loop raise buf sz pos self =
     (case IrcMessage_create () buf sz pos of
        Inl e \<Rightarrow> Inl e
      | Inr (msg, pos') \<Rightarrow>
          (case (case msg of None \<Rightarrow> Inr self | Some m \<Rightarrow> handleMessage raise m self) of
             Inl e \<Rightarrow> Inl e
           | Inr self \<Rightarrow> if pos' = pos then Inr (pos', self) else receive_loop raise buf sz pos' self))"
  by pat_completeness auto
termination
  by (relation "measure (\<lambda>(raise, buf, sz, pos, self). sz - pos)")
    (auto dest!: IrcMessage_create_pos)

declare receive_loop.simps [simp del]

text \<open>What the user database says: \<open>getpwuid (getuid ())\<close> and \<open>getpwnam\<close>.\<close>

record passwd =
  pw_name :: string
  pw_gecos :: string

definition login_user :: "passwd option \<Rightarrow> 'x IrcServer_scheme \<Rightarrow> string" where
  "login_user pwuid self =
     (case s_user self of Some u \<Rightarrow> u | None \<Rightarrow> (case pwuid of Some p \<Rightarrow> pw_name p | None \<Rightarrow> ''nobody''))"

text \<open>
  The real name from the user database: the part of the comment field before the first
  comma, with \<open>&\<close> standing for the capitalised user name, in a buffer of 64 bytes.
\<close>

definition gecos_name :: "passwd \<Rightarrow> string result" where
  "gecos_name p =
     (let rawnm = takeWhile (\<lambda>c. c \<noteq> CHR '','') (pw_gecos p);
          amperpos = strcspn rawnm ''&''
      in if amperpos < length rawnm
         then (let nmbuf = snprintf_fit 64 (take amperpos rawnm @ pw_name p @ drop (amperpos + 1) rawnm)
               in if amperpos < length nmbuf then Inr (nmbuf[amperpos := c_toupper (nmbuf ! amperpos)])
                  else if amperpos < 64 then Inr nmbuf
                  else Inl OutOfBounds)
         else Inr (snprintf_fit 64 rawnm))"

definition login_realname :: "passwd option \<Rightarrow> (string \<Rightarrow> passwd option) \<Rightarrow> 'x IrcServer_scheme \<Rightarrow> string result" where
  "login_realname pwuid pwnam self =
     (case s_realname self of
        Some r \<Rightarrow> Inr r
      | None \<Rightarrow>
          let pw = (if s_user self = None then pwuid else None);
              pw = (if pw = None then pwnam (login_user pwuid self) else pw);
              pw = (if pw = None then pwuid else pw)
          in (case pw of Some p \<Rightarrow> gecos_name p | None \<Rightarrow> Inr (s_nick self)))"

definition send_login :: "passwd option \<Rightarrow> (string \<Rightarrow> passwd option) \<Rightarrow> 'x IrcServer_scheme \<Rightarrow> 'x IrcServer_scheme result" where
  "send_login pwuid pwnam self =
     bind_result (sendRawCmd MSG_NICK (Some (s_nick self)) self) (\<lambda>self.
     bind_result (login_realname pwuid pwnam self) (\<lambda>realname.
       let buf = snprintf_fit 512 (login_user pwuid self @ '' 0 * :'' @ realname) in
       bind_result (sendRawCmd MSG_USER (Some buf) self) (\<lambda>self. Inr (self\<lparr>s_connst := -2\<rparr>))))"

text \<open>\<open>memcpy\<close> of received bytes to a position of the receive buffer.\<close>

definition recv_store :: "char list \<Rightarrow> nat \<Rightarrow> char list \<Rightarrow> char list result" where
  "recv_store buf at data =
     (if at + length data \<le> length buf then Inr (take at buf @ data @ drop (at + length data) buf)
      else Inl OutOfBounds)"

text \<open>What is kept of the buffer when the messages up to \<open>pos\<close> were handled.\<close>

definition recv_keep :: "nat \<Rightarrow> 'x IrcServer_scheme \<Rightarrow> 'x IrcServer_scheme" where
  "recv_keep pos self =
     (if pos = s_recvbufsz self then self\<lparr>s_recvbufsz := 0\<rparr>
      else if s_recvbufsz self - pos > 4096 then self\<lparr>s_recvbufsz := 0\<rparr>
      else self\<lparr>s_recvbuf := memmove (s_recvbuf self) 0 pos (s_recvbufsz self - pos),
                s_recvbufsz := s_recvbufsz self - pos\<rparr>)"

definition connDataReceived :: "(srv_event \<Rightarrow> 'x IrcServer_scheme \<Rightarrow> 'x IrcServer_scheme result) \<Rightarrow>
    passwd option \<Rightarrow> (string \<Rightarrow> passwd option) \<Rightarrow> nat \<Rightarrow> char list
    \<Rightarrow> 'x IrcServer_scheme \<Rightarrow> 'x IrcServer_scheme result" where
  "connDataReceived raise pwuid pwnam conn data self =
     (if Some conn \<noteq> s_conn self then Inr self
      else bind_result (recv_store (s_recvbuf self) (s_recvbufsz self) data) (\<lambda>buf.
           let self = self\<lparr>s_idleticks := IDLETICKS, s_recvbuf := buf, s_recvbufsz := s_recvbufsz self + length data\<rparr> in
           bind_result (receive_loop raise buf (s_recvbufsz self) 0 self) (\<lambda>(pos, self).
             let self = recv_keep pos self in
             if s_connst self = -1 then send_login pwuid pwnam self else Inr self)))"

definition IrcServer_destroy :: "'x IrcServer_scheme \<Rightarrow> 'x IrcServer_scheme result" where
  "IrcServer_destroy self =
     bind_result
       (case s_conn self of
          None \<Rightarrow> Inr self
        | Some conn \<Rightarrow>
            let self = call (UnregConn conn DataReceivedEv ConnDataReceived) self;
                self = call (UnregConn conn DataSentEv ConnDataSent) self;
                self = call (UnregConn conn ConnectedEv ConnConnected) self;
                self = call (UnregConn conn ClosedEv ConnClosed) self
            in bind_result (IrcServer_disconnect self) (\<lambda>self.
               bind_result (IBQueue_destroy (s_sendQueue self)) (\<lambda>freed. conn_close False self)))
       (\<lambda>self. run_deleters (IBHashTable_destroy (Some (s_channels self))) self)"

section \<open>Lines on the wire\<close>

lemma PRIVMSG_str [simp]: "IrcCommand_str MSG_PRIVMSG = Some ''PRIVMSG''"
  by code_simp

lemma chunk_lines_total:
  assumes "0 < maxchunk"
  shows "\<exists>chunks. chunk_lines pre suf maxchunk message = Some (map (\<lambda>c. pre @ c @ suf) chunks)
    \<and> concat chunks = message \<and> list_all (\<lambda>c. c \<noteq> [] \<and> length c \<le> maxchunk) chunks"
proof (induction "length message" arbitrary: message rule: less_induct)
  case less
  show ?case
  proof (cases "message = []")
    case True
    then show ?thesis by (simp add: chunk_lines.simps)
  next
    case False
    define k where "k = (if length message > maxchunk then maxchunk else length message)"
    have n: "0 < k" "k \<le> maxchunk" "k \<le> length message" using assms False by (auto simp: k_def)
    then have "length (drop k message) < length message" by simp
    from less [OF this] obtain chunks where l:
        "chunk_lines pre suf maxchunk (drop k message) = Some (map (\<lambda>c. pre @ c @ suf) chunks)" "concat chunks = drop k message"
        "list_all (\<lambda>c. c \<noteq> [] \<and> length c \<le> maxchunk) chunks"
      by blast
    have "chunk_lines pre suf maxchunk message = Some (map (\<lambda>c. pre @ c @ suf) (take k message # chunks))"
      using False l(1) by (subst chunk_lines.simps) (simp add: Let_def k_def)
    moreover have "concat (take k message # chunks) = message" using l(2) by simp
    moreover have "list_all (\<lambda>c. c \<noteq> [] \<and> length c \<le> maxchunk) (take k message # chunks)"
      using l(3) n by (auto simp: min_def)
    ultimately show ?thesis by (intro exI conjI) assumption+
  qed
qed



section \<open>The outcomes of sending\<close>

lemma enqueue_cmd_cases:
  assumes "enqueue_cmd command s = Inr s'"
  obtains "command = None" "s' = s"
  | c q where "command = Some c" "s_sendQueue s = Some q"
      "s' = s\<lparr>s_sendQueue := Some (IBQueue_enqueue q c (Some ()))\<rparr>"
  using assms by (auto simp: enqueue_cmd_def split: option.splits)

lemma try_send_cases:
  assumes "try_send s = Inr s'"
  obtains (wait) "s_sendcreditticks s < 2 \<or> s_sending s" "s' = s"
  | (empty) q q' where "\<not> s_sendcreditticks s < 2" "\<not> s_sending s" "s_sendQueue s = Some q"
      "IBQueue_dequeue q = Inr (None, q')" "s' = s\<lparr>s_sendQueue := Some q', s_sendcmd := None\<rparr>"
  | (send) q q' c conn where "\<not> s_sendcreditticks s < 2" "\<not> s_sending s" "s_sendQueue s = Some q"
      "IBQueue_dequeue q = Inr (Some c, q')" "s_conn s = Some conn"
      "s' = call (ConnWrite conn c) (s\<lparr>s_sendQueue := Some q', s_sendcmd := Some c, s_sending := True,
               s_sendcreditticks := s_sendcreditticks s - 2\<rparr>)"
proof (cases "s_sendcreditticks s < 2 \<or> s_sending s")
  case True
  with assms have "s' = s" by (simp add: try_send_def)
  with True show ?thesis by (rule wait)
next
  case False
  then have no: "\<not> s_sendcreditticks s < 2" "\<not> s_sending s" by simp_all
  show ?thesis
  proof (cases "s_sendQueue s")
    case None
    with assms False show ?thesis by (simp add: try_send_def)
  next
    case q: (Some q)
    show ?thesis
    proof (cases "IBQueue_dequeue q")
      case (Inl e)
      with assms False q show ?thesis by (simp add: try_send_def)
    next
      case (Inr r)
      obtain cmd q' where r: "r = (cmd, q')" by fastforce
      show ?thesis
      proof (cases cmd)
        case None
        from assms False q Inr r None have "s' = s\<lparr>s_sendQueue := Some q', s_sendcmd := None\<rparr>"
          by (simp add: try_send_def)
        with no q Inr r None show ?thesis by (intro empty) simp_all
      next
        case (Some c)
        show ?thesis
        proof (cases "s_conn s")
          case None
          with assms False q Inr r Some show ?thesis by (simp add: try_send_def)
        next
          case conn: (Some conn)
          from assms False q Inr r Some conn have "s' = call (ConnWrite conn c) (s\<lparr>s_sendQueue := Some q',
              s_sendcmd := Some c, s_sending := True, s_sendcreditticks := s_sendcreditticks s - 2\<rparr>)"
            by (simp add: try_send_def)
          with no q Inr r Some conn show ?thesis by (intro send) simp_all
        qed
      qed
    qed
  qed
qed

end
