(* ===== verification/ServerRecv.thy ===== *)
theory ServerRecv
  imports Server
begin

text \<open>
  Properties of receiving (\<open>connDataReceived\<close> and \<open>handleMessage\<close> of
  \<open>src/lib/ircbot/ircserver.c\<close>): the receive buffer against the stream of lines it stands for.
\<close>

section \<open>A byte stream as lines\<close>

definition line_char :: "char \<Rightarrow> string list \<times> string \<Rightarrow> string list \<times> string" where
  "line_char c p = (case p of ([], r) \<Rightarrow> ([], c # r) | (l # ls, r) \<Rightarrow> ((c # l) # ls, r))"

text \<open>The complete lines of a stream, and what follows the last CR LF.\<close>

fun crlf_split :: "string \<Rightarrow> string list \<times> string" where
  "crlf_split [] = ([], [])"
| "crlf_split [c] = ([], [c])"
| "crlf_split (c # d # s) =
     (if c = CR \<and> d = LF then (case crlf_split s of (ls, r) \<Rightarrow> ([] # ls, r))
      else line_char c (crlf_split (d # s)))"

definition no_crlf :: "string \<Rightarrow> bool" where
  "no_crlf s \<longleftrightarrow> (\<forall>i. i + 1 < length s \<longrightarrow> \<not> (s ! i = CR \<and> s ! (i + 1) = LF))"

lemma no_crlf_Cons: "no_crlf (c # s) \<longleftrightarrow> no_crlf s \<and> \<not> (s \<noteq> [] \<and> c = CR \<and> hd s = LF)"
proof
  assume n: "no_crlf (c # s)"
  have "no_crlf s" unfolding no_crlf_def
  proof (intro allI impI)
    fix i assume "i + 1 < length s"
    with n [unfolded no_crlf_def, THEN spec, of "Suc i"] show "\<not> (s ! i = CR \<and> s ! (i + 1) = LF)" by simp
  qed
  with n [unfolded no_crlf_def, THEN spec, of 0] show "no_crlf s \<and> \<not> (s \<noteq> [] \<and> c = CR \<and> hd s = LF)"
    by (auto simp: hd_conv_nth)
next
  assume n: "no_crlf s \<and> \<not> (s \<noteq> [] \<and> c = CR \<and> hd s = LF)"
  show "no_crlf (c # s)" unfolding no_crlf_def
  proof (intro allI impI)
    fix i assume "i + 1 < length (c # s)"
    with n show "\<not> ((c # s) ! i = CR \<and> (c # s) ! (i + 1) = LF)"
      by (cases i) (auto simp: no_crlf_def hd_conv_nth)
  qed
qed

lemma crlf_split_none: "no_crlf s \<Longrightarrow> crlf_split s = ([], s)"
  by (induction s rule: crlf_split.induct) (auto simp: no_crlf_Cons line_char_def)

lemma crlf_split_line:
  "no_crlf (l @ [CR]) \<Longrightarrow> crlf_split (l @ CRLF @ s) = (l # fst (crlf_split s), snd (crlf_split s))"
proof (induction l)
  case Nil
  show ?case by (simp split: prod.split)
next
  case (Cons c l)
  then have ih: "crlf_split (l @ CRLF @ s) = (l # fst (crlf_split s), snd (crlf_split s))"
    by (simp add: no_crlf_Cons)
  obtain d t where d: "l @ CRLF @ s = d # t" by (cases l) auto
  have "\<not> (c = CR \<and> d = LF)"
    using Cons.prems d by (cases l) (auto simp: no_crlf_Cons)
  then have "crlf_split (c # d # t) = line_char c (crlf_split (d # t))" by auto
  then show ?case using ih d by (simp add: line_char_def)
qed

lemma first_crlf:
  "\<not> no_crlf s \<Longrightarrow> \<exists>l s'. s = l @ CRLF @ s' \<and> no_crlf (l @ [CR])"
proof (induction s)
  case (Cons c s)
  show ?case
  proof (cases "s \<noteq> [] \<and> c = CR \<and> hd s = LF")
    case True
    then have "c # s = [] @ CRLF @ tl s" by (cases s) auto
    then show ?thesis by (intro exI [of _ "[]"] exI [of _ "tl s"]) (simp add: no_crlf_def)
  next
    case False
    with Cons obtain l s' where l: "s = l @ CRLF @ s'" "no_crlf (l @ [CR])" by (auto simp: no_crlf_Cons)
    with False have "no_crlf ((c # l) @ [CR])" by (cases l) (auto simp: no_crlf_Cons)
    with l(1) show ?thesis by (intro exI [of _ "c # l"] exI [of _ s']) simp
  qed
qed (simp add: no_crlf_def)

text \<open>Induction over the lines of a stream.\<close>

lemma lines_induct [case_names rest line]:
  assumes "\<And>s. no_crlf s \<Longrightarrow> P s" "\<And>l s. no_crlf (l @ [CR]) \<Longrightarrow> P s \<Longrightarrow> P (l @ CRLF @ s)"
  shows "P s"
proof (induction "length s" arbitrary: s rule: less_induct)
  case less
  show ?case
  proof (cases "no_crlf s")
    case False
    with first_crlf obtain l s' where "s = l @ CRLF @ s'" "no_crlf (l @ [CR])" by blast
    with less assms(2) show ?thesis by simp
  qed (use assms(1) in blast)
qed

lemma crlf_split_rest: "no_crlf (snd (crlf_split s))"
  by (induction s rule: lines_induct) (simp_all only: crlf_split_none crlf_split_line snd_conv)

text \<open>The rest is the end of the stream.\<close>

lemma crlf_rest_end: "\<exists>p. s = p @ snd (crlf_split s)"
proof (induction s rule: lines_induct)
  case (line l s)
  then obtain p where p: "s = p @ snd (crlf_split s)" by blast
  have "l @ CRLF @ s = (l @ CRLF @ p) @ snd (crlf_split s)" by (subst p) simp
  moreover have "snd (crlf_split (l @ CRLF @ s)) = snd (crlf_split s)"
    by (simp only: crlf_split_line [OF line(1)] snd_conv)
  ultimately show ?case by (intro exI [of _ "l @ CRLF @ p"]) (rule trans, assumption, rule arg_cong, erule sym)
qed (simp add: crlf_split_none)

lemma crlf_rest_suffix: "drop (length s - length (snd (crlf_split s))) s = snd (crlf_split s)"
  and crlf_rest_length: "length (snd (crlf_split s)) \<le> length s"
proof -
  obtain p where p: "s = p @ snd (crlf_split s)" using crlf_rest_end by blast
  then have "length s = length p + length (snd (crlf_split s))" by (metis length_append)
  moreover from p have "drop (length p) s = snd (crlf_split s)" by (metis append_eq_conv_conj)
  ultimately show "drop (length s - length (snd (crlf_split s))) s = snd (crlf_split s)"
    "length (snd (crlf_split s)) \<le> length s" by simp_all
qed

lemma crlf_split_append:
  "crlf_split (s @ t) = (fst (crlf_split s) @ fst (crlf_split (snd (crlf_split s) @ t)),
                         snd (crlf_split (snd (crlf_split s) @ t)))"
proof (induction s rule: lines_induct)
  case (rest s)
  then show ?case by (simp add: crlf_split_none)
next
  case (line l s)
  have "crlf_split ((l @ CRLF @ s) @ t) = crlf_split (l @ CRLF @ (s @ t))" by simp
  also have "\<dots> = (l # fst (crlf_split (s @ t)), snd (crlf_split (s @ t)))"
    by (rule crlf_split_line [OF line(1)])
  finally show ?case using line(2) crlf_split_line [OF line(1), of s] by simp
qed

text \<open>The part of a buffer between a position and the end of the received bytes.\<close>

lemma line_at_split:
  assumes "a \<le> m" "m \<le> b"
  shows "line_at buf a b = line_at buf a m @ line_at buf m b"
proof -
  have "b - a = (m - a) + (b - m)" "drop (m - a) (drop a buf) = drop m buf" using assms by simp_all
  then show ?thesis by (simp only: line_at_def take_add)
qed

lemma find_crlf_split:
  assumes "sz \<le> length buf"
  shows "case find (crlf_at buf) [pos..<sz - 1] of
      None \<Rightarrow> crlf_split (line_at buf pos sz) = ([], line_at buf pos sz)
    | Some e \<Rightarrow> crlf_split (line_at buf pos sz)
        = (line_at buf pos e # fst (crlf_split (line_at buf (e + 2) sz)), snd (crlf_split (line_at buf (e + 2) sz)))"
proof -
  let ?s = "line_at buf pos sz"
  have len: "length ?s = sz - pos" using assms by (simp add: length_line_at)
  have at: "?s ! i = buf ! (pos + i)" if "i < sz - pos" for i
    using that assms by (simp add: line_at_def)
  show ?thesis
  proof (cases "find (crlf_at buf) [pos..<sz - 1]")
    case None
    then have n: "\<not> crlf_at buf k" if "pos \<le> k" "k < sz - 1" for k using that by (auto simp: find_None_iff)
    have "no_crlf ?s" unfolding no_crlf_def
    proof (intro allI impI)
      fix i assume "i + 1 < length ?s"
      then show "\<not> (?s ! i = CR \<and> ?s ! (i + 1) = LF)"
        using n [of "pos + i"] at [of i] at [of "i + 1"] len by (simp add: crlf_at_def)
    qed
    with None show ?thesis by (simp add: crlf_split_none)
  next
    case (Some e)
    note f = find_crlf_Some [OF Some]
    let ?l = "line_at buf pos e"
    have l: "length ?l = e - pos" using f assms by (simp add: length_line_at)
    have "?s = ?l @ line_at buf e sz"
      using f(1,2) by (intro line_at_split) simp_all
    moreover have "line_at buf e sz = CRLF @ line_at buf (e + 2) sz"
      using f(2,3) assms by (simp add: line_at_Cons crlf_at_def)
    moreover have "no_crlf (?l @ [CR])" unfolding no_crlf_def
    proof (intro allI impI)
      fix i assume i: "i + 1 < length (?l @ [CR])"
      show "\<not> ((?l @ [CR]) ! i = CR \<and> (?l @ [CR]) ! (i + 1) = LF)"
      proof (cases "i + 1 < length ?l")
        case True
        then have "?l ! i = buf ! (pos + i)" "?l ! (i + 1) = buf ! (pos + i + 1)"
          using l f assms by (simp_all add: line_at_def)
        moreover have "\<not> crlf_at buf (pos + i)" using True l f(4) by simp
        ultimately show ?thesis using True by (simp add: nth_append crlf_at_def)
      next
        case False
        then show ?thesis using i by (simp add: nth_append)
      qed
    qed
    ultimately have "crlf_split ?s = (?l # fst (crlf_split (line_at buf (e + 2) sz)), snd (crlf_split (line_at buf (e + 2) sz)))"
      using crlf_split_line by metis
    with Some show ?thesis by simp
  qed
qed

section \<open>The receive loop\<close>

fun handle_all :: "(srv_event \<Rightarrow> 'x IrcServer_scheme \<Rightarrow> 'x IrcServer_scheme result) \<Rightarrow> unit IrcMessage list
    \<Rightarrow> 'x IrcServer_scheme \<Rightarrow> 'x IrcServer_scheme result" where
  "handle_all raise [] self = Inr self"
| "handle_all raise (m # ms) self = bind_result (handleMessage raise m self) (handle_all raise ms)"

lemma handle_all_append: "handle_all raise (ms @ ns) self = bind_result (handle_all raise ms self) (handle_all raise ns)"
  by (induction ms arbitrary: self) (auto simp: bind_result_def split: sum.split)

definition stream_messages :: "string \<Rightarrow> unit IrcMessage list" where
  "stream_messages s = map (parse_line ()) (filter (\<lambda>l. l \<noteq> []) (fst (crlf_split s)))"

lemma stream_messages_append:
  "stream_messages (s @ t) = stream_messages s @ stream_messages (snd (crlf_split s) @ t)"
  unfolding stream_messages_def crlf_split_append [of s t] by simp

lemma bind_result_cong_loop:
  "(case r of Inl e \<Rightarrow> Inl e | Inr x \<Rightarrow> f x) = bind_result r f"
  by (simp add: bind_result_def)

lemma receive_loop_messages:
  assumes "sz \<le> length buf"
  shows "pos \<le> sz \<Longrightarrow> receive_loop raise buf sz pos self =
    bind_result (handle_all raise (stream_messages (line_at buf pos sz)) self)
      (\<lambda>self. Inr (sz - length (snd (crlf_split (line_at buf pos sz))), self))"
proof (induction "sz - pos" arbitrary: pos self rule: less_induct)
  case less
  note split = find_crlf_split [OF assms, of pos]
  show ?case
  proof (cases "find (crlf_at buf) [pos..<sz - 1]")
    case None
    then have s: "crlf_split (line_at buf pos sz) = ([], line_at buf pos sz)" using split by simp
    have "IrcMessage_create () buf sz pos = Inr (None, pos)"
      using find_crlf_correct [OF assms, of pos] None by (simp add: IrcMessage_create_def)
    then have "receive_loop raise buf sz pos self = Inr (pos, self)" by (simp add: receive_loop.simps)
    moreover have "sz - length (line_at buf pos sz) = pos" using less.prems assms by (simp add: length_line_at)
    ultimately show ?thesis by (simp add: s stream_messages_def)
  next
    case (Some e)
    note f = find_crlf_Some [OF Some]
    let ?rest = "line_at buf (e + 2) sz"
    have s: "crlf_split (line_at buf pos sz) = (line_at buf pos e # fst (crlf_split ?rest), snd (crlf_split ?rest))"
      using split Some by simp
    have ih: "receive_loop raise buf sz (e + 2) = (\<lambda>self'. bind_result (handle_all raise (stream_messages ?rest) self')
        (\<lambda>self. Inr (sz - length (snd (crlf_split ?rest)), self)))"
    proof
      fix self'
      show "receive_loop raise buf sz (e + 2) self' = bind_result (handle_all raise (stream_messages ?rest) self')
        (\<lambda>self. Inr (sz - length (snd (crlf_split ?rest)), self))"
        using less.hyps [of "e + 2" self'] f by simp
    qed
    have ne: "e + 2 \<noteq> pos" using f(1) by simp
    show ?thesis
    proof (cases "e = pos")
      case True
      then have "IrcMessage_create () buf sz pos = Inr (None, e + 2)"
        using find_crlf_correct [OF assms, of pos] Some by (simp add: IrcMessage_create_def)
      then have "receive_loop raise buf sz pos self = receive_loop raise buf sz (e + 2) self"
        using ne by (subst receive_loop.simps) simp
      moreover have "stream_messages (line_at buf pos sz) = stream_messages ?rest"
        using True by (simp add: stream_messages_def s)
      ultimately show ?thesis by (simp only: ih s snd_conv)
    next
      case False
      let ?m = "parse_line () (line_at buf pos e)"
      have "IrcMessage_create () buf sz pos = Inr (Some ?m, e + 2)"
        using IrcMessage_create_line [OF assms Some False] by simp
      then have "receive_loop raise buf sz pos self
          = bind_result (handleMessage raise ?m self) (\<lambda>self. receive_loop raise buf sz (e + 2) self)"
        using ne by (subst receive_loop.simps) (auto simp: bind_result_def split: sum.split)
      moreover have "line_at buf pos e \<noteq> []" using False f assms line_at_empty [of e buf pos] by simp
      then have "stream_messages (line_at buf pos sz) = ?m # stream_messages ?rest"
        by (simp add: stream_messages_def s)
      ultimately show ?thesis by (simp only: ih s snd_conv handle_all.simps bind_result_assoc)
    qed
  qed
qed

section \<open>What handling a message keeps\<close>

text \<open>The messages an event of the server hands to its listeners.\<close>

fun event_messages :: "srv_event \<Rightarrow> unit IrcMessage list" where
  "event_messages (EvMsgReceived m) = [m]"
| "event_messages _ = []"

text \<open>
  The contract for a relation between the server before and after, with the messages handed
  out between: when the few updates of \<open>handleMessage\<close> and the listeners' handlers satisfy it, so does
  handling a list of messages.
\<close>

locale handling =
  fixes R :: "unit IrcMessage list \<Rightarrow> 'x IrcServer_scheme \<Rightarrow> 'x IrcServer_scheme \<Rightarrow> bool"
    and raise :: "srv_event \<Rightarrow> 'x IrcServer_scheme \<Rightarrow> 'x IrcServer_scheme result"
  assumes refl: "R [] s s"
    and trans: "R ms s t \<Longrightarrow> R ns t u \<Longrightarrow> R (ms @ ns) s u"
    and nick: "R [] s (s\<lparr>s_nick := n\<rparr>)"
    and connected: "R [] s (call (RegTick ActiveTick) (call (UnregTick ConnWaitLogin)
      (s\<lparr>s_name := nm, s_connst := 1, s_sendcreditticks := FULLSENDCREDIT\<rparr>)))"
    and chan: "R [] s (snd (chan_new c s))"
    and sends: "sendRawCmd cmd args s = Inr t \<Longrightarrow> R [] s t"
    and raises: "raise ev s = Inr t \<Longrightarrow> R (event_messages ev) s t"
begin

lemma trans_Nil: "R [] s t \<Longrightarrow> R ms t u \<Longrightarrow> R ms s u"
  using trans [of "[]"] by simp

lemma handleMessage_rel:
  assumes "handleMessage raise m s = Inr s'"
  shows "R [m] s s'"
proof -
  obtain t where t: "raise (EvMsgReceived m) t = Inr s'" "R [] s t"
  proof -
    have conn: "R [] s u" if "raise EvConnected (call (RegTick ActiveTick) (call (UnregTick ConnWaitLogin)
        (s\<lparr>s_name := n, s_connst := 1, s_sendcreditticks := 9\<rparr>))) = Inr u" for u n
      using trans_Nil [OF connected raises [OF that]] by simp
    have used: "R [] s u" if "sendRawCmd c a (s\<lparr>s_nick := n\<rparr>) = Inr u" for u n c a
      using trans_Nil [OF nick sends [OF that]] .
    show thesis
      using assms that conn used nick chan sends refl
      by (fastforce simp: handleMessage_def bind_result_eq_Inr Let_def split: if_splits)
  qed
  with trans_Nil [OF t(2) raises [OF t(1)]] show ?thesis by simp
qed

lemma handle_all_rel: "handle_all raise ms s = Inr s' \<Longrightarrow> R ms s s'"
proof (induction ms arbitrary: s)
  case (Cons m ms)
  then obtain t where "handleMessage raise m s = Inr t" "handle_all raise ms t = Inr s'"
    by (auto simp: bind_result_eq_Inr)
  with Cons.IH trans [OF handleMessage_rel] show ?case by fastforce
qed (simp add: refl)

end

text \<open>
  Equality of what receiving relies on: the receive buffer and its size, the connection,
  and that the login is over.
\<close>

definition recv_same :: "'x IrcServer_scheme \<Rightarrow> 'x IrcServer_scheme \<Rightarrow> bool" where
  "recv_same s s' \<longleftrightarrow> s_recvbuf s' = s_recvbuf s \<and> s_recvbufsz s' = s_recvbufsz s \<and> s_conn s' = s_conn s
     \<and> (s_connst s > 0 \<longrightarrow> s_connst s' > 0)"

lemma recv_same_refl [simp]: "recv_same s s"
  by (simp add: recv_same_def)

lemma recv_same_trans: "recv_same s t \<Longrightarrow> recv_same t u \<Longrightarrow> recv_same s u"
  by (auto simp: recv_same_def)

definition keeps_recv :: "(srv_event \<Rightarrow> 'x IrcServer_scheme \<Rightarrow> 'x IrcServer_scheme result) \<Rightarrow> bool" where
  "keeps_recv raise \<longleftrightarrow> (\<forall>ev s s'. raise ev s = Inr s' \<longrightarrow> recv_same s s')"

lemma sendRaw_same:
  assumes "sendRaw c s = Inr s'"
  shows "recv_same s s'"
proof -
  obtain t where t: "enqueue_cmd c s = Inr t" "try_send t = Inr s'"
    using assms by (auto simp: sendRaw_def bind_result_eq_Inr)
  have "recv_same s t" using t(1) by (rule enqueue_cmd_cases) (simp_all add: recv_same_def)
  moreover have "recv_same t s'" using t(2) by (rule try_send_cases) (simp_all add: recv_same_def call_def)
  ultimately show ?thesis by (rule recv_same_trans)
qed

lemma sendRawCmd_same: "sendRawCmd cmd args s = Inr s' \<Longrightarrow> recv_same s s'"
  by (auto simp: sendRawCmd_def bind_result_eq_Inr intro: sendRaw_same)

lemma keeps_recv_handling: "keeps_recv raise \<Longrightarrow> handling (\<lambda>ms. recv_same) raise"
  by unfold_locales
    (auto simp: keeps_recv_def recv_same_def call_def chan_new_def Let_def dest!: sendRawCmd_same)

lemmas handle_all_same = handling.handle_all_rel [OF keeps_recv_handling]

section \<open>The bytes kept\<close>

definition pending_bytes :: "'x IrcServer_scheme \<Rightarrow> string" where
  "pending_bytes s = line_at (s_recvbuf s) 0 (s_recvbufsz s)"

definition recv_ok :: "'x IrcServer_scheme \<Rightarrow> bool" where
  "recv_ok s \<longleftrightarrow> length (s_recvbuf s) = RECVBUFSZ \<and> s_recvbufsz s \<le> 4096"

lemma length_pending: "recv_ok s \<Longrightarrow> length (pending_bytes s) = s_recvbufsz s"
  by (simp add: recv_ok_def pending_bytes_def length_line_at)

lemma recv_store_ok:
  assumes "recv_ok s" "length data \<le> 4096"
  shows "\<exists>buf. recv_store (s_recvbuf s) (s_recvbufsz s) data = Inr buf \<and> length buf = RECVBUFSZ
    \<and> line_at buf 0 (s_recvbufsz s + length data) = pending_bytes s @ data"
  using assms by (auto simp: recv_ok_def recv_store_def line_at_def pending_bytes_def)

lemma recv_keep_ok:
  assumes "length (s_recvbuf s) = RECVBUFSZ" "s_recvbufsz s \<le> RECVBUFSZ" "pos \<le> s_recvbufsz s"
  shows "recv_ok (recv_keep pos s)"
    and "s_recvbufsz s - pos \<le> 4096 \<Longrightarrow> pending_bytes (recv_keep pos s) = line_at (s_recvbuf s) pos (s_recvbufsz s)"
  using assms
  by (auto simp: recv_keep_def recv_ok_def pending_bytes_def line_at_def memmove_def)

lemma recv_keep_other:
  "s_conn (recv_keep pos s) = s_conn s" "s_connst (recv_keep pos s) = s_connst s"
  "s_realname (recv_keep pos s) = s_realname s"
  by (simp_all add: recv_keep_def)

lemma login_keeps: "send_login pwuid pwnam s = Inr s' \<Longrightarrow> s_recvbuf s' = s_recvbuf s \<and> s_recvbufsz s' = s_recvbufsz s"
  by (auto simp: send_login_def bind_result_eq_Inr Let_def recv_same_def dest!: sendRawCmd_same)

lemma recv_ok_step:
  assumes "recv_ok self" "length data \<le> 4096" "keeps_recv raise"
    and "connDataReceived raise pwuid pwnam conn data self = Inr self'"
  shows "recv_ok self'"
proof (cases "Some conn = s_conn self")
  case False
  with assms show ?thesis by (simp add: connDataReceived_def)
next
  case True
  obtain buf where buf: "recv_store (s_recvbuf self) (s_recvbufsz self) data = Inr buf" "length buf = RECVBUFSZ"
    using recv_store_ok [OF assms(1,2)] by blast
  let ?n = "s_recvbufsz self + length data"
  have n: "?n \<le> length buf" using assms(1,2) buf(2) by (simp add: recv_ok_def)
  let ?s1 = "self\<lparr>s_idleticks := 180, s_recvbuf := buf, s_recvbufsz := ?n\<rparr>"
  obtain pos s2 where loop: "receive_loop raise buf ?n 0 ?s1 = Inr (pos, s2)"
      and rest: "(if s_connst (recv_keep pos s2) = -1 then send_login pwuid pwnam (recv_keep pos s2)
                  else Inr (recv_keep pos s2)) = Inr self'"
    using assms(4) True buf(1) by (auto simp: connDataReceived_def bind_result_eq_Inr Let_def)
  from loop receive_loop_messages [OF n, of 0 raise ?s1]
  have s2: "handle_all raise (stream_messages (line_at buf 0 ?n)) ?s1 = Inr s2" "pos \<le> ?n"
    by (auto simp: bind_result_eq_Inr)
  from handle_all_same [OF assms(3) s2(1)] have "s_recvbuf s2 = buf" "s_recvbufsz s2 = ?n" by (auto simp: recv_same_def)
  with recv_keep_ok(1) [of s2 pos] s2(2) buf(2) n have "recv_ok (recv_keep pos s2)" by simp
  moreover from rest have "s_recvbuf self' = s_recvbuf (recv_keep pos s2) \<and> s_recvbufsz self' = s_recvbufsz (recv_keep pos s2)"
    using login_keeps [of pwuid pwnam "recv_keep pos s2" self'] by (auto split: if_splits)
  ultimately show ?thesis by (simp add: recv_ok_def)
qed

text \<open>C25: the receive buffer never overflows: it starts with at most 4096 of its 8192 bytes in
  use, data of at most the connection's 4096 bytes is stored inside it, and whenever it was handled at
  most 4096 bytes are in use again, however long a line without its end the server sends.\<close>

theorem recvbuf_bounded:
  assumes "recv_ok self" "length data \<le> 4096" "keeps_recv raise"
  shows "no_fault (recv_store (s_recvbuf self) (s_recvbufsz self) data) \<and>
    (case connDataReceived raise pwuid pwnam conn data self of Inl e \<Rightarrow> True | Inr self' \<Rightarrow> recv_ok self')"
  using recv_store_ok [OF assms(1,2)] recv_ok_step [OF assms] by (auto split: sum.split)

section \<open>An example for the witnesses\<close>

text \<open>A server whose only listener logs the messages received.\<close>

record logged_server = IrcServer +
  l_log :: "unit IrcMessage list"

definition log_raise :: "srv_event \<Rightarrow> logged_server \<Rightarrow> logged_server result" where
  "log_raise ev s = Inr (case ev of EvMsgReceived m \<Rightarrow> s\<lparr>l_log := l_log s @ [m]\<rparr> | _ \<Rightarrow> s)"

lemma log_raise_keeps: "keeps_recv log_raise"
  by (auto simp: keeps_recv_def log_raise_def recv_same_def split: srv_event.split)

definition idle_server :: logged_server where
  "idle_server = \<lparr>s_id = ''s'', s_remotehost = ''h'', s_tls = None, s_name = None, s_nick = ''bot'', s_user = None,
     s_realname = None, s_channels = IBHashTable_create 6, s_conn = Some 7, s_sendQueue = Some IBQueue_create,
     s_sendcmd = None, s_proto = CP_ANY, s_port = 6667, s_sending = False, s_connst = 1, s_loginticks = 0,
     s_reconnticks = 0, s_idleticks = 180, s_sendcreditticks = 9, s_recvbufsz = 0,
     s_recvbuf = replicate RECVBUFSZ NUL, s_livechans = [], s_nextchan = 0, s_calls = [], l_log = []\<rparr>"

lemma idle_server_simps [simp]:
  "recv_ok idle_server" "pending_bytes idle_server = []" "s_conn idle_server = Some 7" "s_connst idle_server = 1"
  "l_log idle_server = []" "no_crlf []"
  by (simp_all add: idle_server_def recv_ok_def pending_bytes_def no_crlf_def)

theorem recvbuf_bounded_witness:
  "no_fault (recv_store (s_recvbuf idle_server) (s_recvbufsz idle_server) (replicate 4096 CHR ''x''))"
  using recvbuf_bounded [of idle_server "replicate 4096 CHR ''x''" log_raise None "\<lambda>_. None" 7] log_raise_keeps
  by simp

end
