(* ===== verification/ServerSend.thy ===== *)
theory ServerSend
  imports Server
begin

text \<open>
  Properties of sending (\<open>sendRaw\<close>, \<open>connDataSent\<close>, \<open>activeTick\<close> and their callers in
  \<open>src/lib/ircbot/ircserver.c\<close>): the rate limit, the order of the lines on the wire, and that
  every line gets there.
\<close>

section \<open>Runs of sending operations\<close>

datatype send_op =
    OpRaw string                    \<comment> \<open>a line handed to \<open>sendRaw\<close>\<close>
  | OpCmd IrcCommand string         \<comment> \<open>\<open>IrcServer_sendCmd\<close>\<close>
  | OpMsg string string bool        \<comment> \<open>\<open>IrcServer_sendMsg\<close>\<close>
  | OpNick string                   \<comment> \<open>\<open>IrcServer_setNick\<close>\<close>
  | OpSent                          \<comment> \<open>the connection confirms a write\<close>
  | OpTick                          \<comment> \<open>\<open>activeTick\<close>\<close>

fun send_step :: "nat \<Rightarrow> send_op \<Rightarrow> 'x IrcServer_scheme \<Rightarrow> 'x IrcServer_scheme result" where
  "send_step conn (OpRaw line) self = sendRaw (Some line) self"
| "send_step conn (OpCmd cmd args) self =
     bind_result (IrcServer_sendCmd cmd (Some args) self) (\<lambda>(rc, self). Inr self)"
| "send_step conn (OpMsg to message action) self =
     (case IrcServer_sendMsg to message action self of
        None \<Rightarrow> Inr self
      | Some r \<Rightarrow> bind_result r (\<lambda>(rc, self). Inr self))"
| "send_step conn (OpNick nick) self = IrcServer_setNick nick self"
| "send_step conn OpSent self = connDataSent conn self"
| "send_step conn OpTick self = activeTick self"

fun send_run :: "nat \<Rightarrow> send_op list \<Rightarrow> 'x IrcServer_scheme \<Rightarrow> 'x IrcServer_scheme result" where
  "send_run conn [] self = Inr self"
| "send_run conn (op # ops) self = bind_result (send_step conn op self) (send_run conn ops)"

lemma msg_chunk_pos:
  "length to \<le> 255 \<Longrightarrow> 0 < 513 - length (msg_prefix to action) - 3 - (if action then 1 else 0)"
  by (cases action) (simp_all add: msg_prefix_def)

lemma sendMsg_returns: "IrcServer_sendMsg to message action self \<noteq> None"
  using chunk_lines_total [OF msg_chunk_pos [of to action], where pre = "msg_prefix to action"
      and suf = "msg_suffix action" and message = message]
  by (auto simp: IrcServer_sendMsg_def Let_def)

text \<open>The lines given to the connection so far, and those still queued.\<close>

fun written_in :: "srv_call list \<Rightarrow> string list" where
  "written_in [] = []"
| "written_in (ConnWrite conn line # calls) = line # written_in calls"
| "written_in (c # calls) = written_in calls"

definition written :: "'x IrcServer_scheme \<Rightarrow> string list" where
  "written self = written_in (s_calls self)"

definition pending :: "'x IrcServer_scheme \<Rightarrow> string list" where
  "pending self = (case s_sendQueue self of None \<Rightarrow> [] | Some q \<Rightarrow> queue_objs q)"

definition is_write :: "srv_call \<Rightarrow> bool" where
  "is_write c = (case c of ConnWrite _ _ \<Rightarrow> True | _ \<Rightarrow> False)"

lemma written_in_append: "written_in (cs @ ds) = written_in cs @ written_in ds"
  by (induction cs rule: written_in.induct) simp_all

lemma written_call [simp]:
  "written (call (ConnWrite conn line) self) = written self @ [line]"
  "written (call (ConnClose conn b) self) = written self"
  "written (call (UnregTick h) self) = written self"
  by (simp_all add: written_def call_def written_in_append)

lemma written_update [simp]:
  "written (self\<lparr>s_sendQueue := q\<rparr>) = written self" "written (self\<lparr>s_sendcmd := c\<rparr>) = written self"
  "written (self\<lparr>s_sending := b\<rparr>) = written self" "written (self\<lparr>s_sendcreditticks := n\<rparr>) = written self"
  "written (self\<lparr>s_idleticks := n\<rparr>) = written self" "written (self\<lparr>s_nick := w\<rparr>) = written self"
  by (simp_all add: written_def)

lemma pending_update [simp]:
  "pending (self\<lparr>s_sendQueue := Some q\<rparr>) = queue_objs q" "pending (self\<lparr>s_sendcmd := c\<rparr>) = pending self"
  "pending (self\<lparr>s_sending := b\<rparr>) = pending self" "pending (self\<lparr>s_sendcreditticks := n\<rparr>) = pending self"
  "pending (self\<lparr>s_idleticks := n\<rparr>) = pending self" "pending (self\<lparr>s_nick := w\<rparr>) = pending self"
  "pending (call sc self) = pending self"
  by (simp_all add: pending_def call_def)

lemma call_select [simp]:
  "s_sendcreditticks (call c self) = s_sendcreditticks self" "s_conn (call c self) = s_conn self"
  "s_sendQueue (call c self) = s_sendQueue self" "s_sending (call c self) = s_sending self"
  "s_connst (call c self) = s_connst self" "s_nick (call c self) = s_nick self"
  "s_idleticks (call c self) = s_idleticks self"
  by (simp_all add: call_def)

section \<open>The rate limit\<close>

definition credit_ok :: "'x IrcServer_scheme \<Rightarrow> bool" where
  "credit_ok self \<longleftrightarrow> 0 \<le> s_sendcreditticks self \<and> s_sendcreditticks self \<le> FULLSENDCREDIT"

text \<open>Two units are paid for each line: what was paid and what is left together.\<close>

definition balance :: "'x IrcServer_scheme \<Rightarrow> int" where
  "balance self = 2 * int (length (written self)) + s_sendcreditticks self"

lemma sendRaw_balance:
  assumes "sendRaw c s = Inr s'" "credit_ok s"
  shows "balance s' = balance s \<and> credit_ok s'"
proof -
  obtain t where t: "enqueue_cmd c s = Inr t" "try_send t = Inr s'"
    using assms(1) by (auto simp: sendRaw_def bind_result_eq_Inr)
  have t': "written t = written s \<and> s_sendcreditticks t = s_sendcreditticks s"
    using t(1) by (rule enqueue_cmd_cases) simp_all
  have "2 * int (length (written s')) + s_sendcreditticks s' = 2 * int (length (written t)) + s_sendcreditticks t
      \<and> s_sendcreditticks s' \<le> s_sendcreditticks t \<and> (0 \<le> s_sendcreditticks t \<longrightarrow> 0 \<le> s_sendcreditticks s')"
    using t(2) by (rule try_send_cases) simp_all
  with t' assms(2) show ?thesis by (simp add: balance_def credit_ok_def)
qed

lemma sendRawCmd_balance:
  "sendRawCmd cmd args s = Inr s' \<Longrightarrow> credit_ok s \<Longrightarrow> balance s' = balance s \<and> credit_ok s'"
  by (auto simp: sendRawCmd_def bind_result_eq_Inr sendRaw_balance)

lemma send_lines_balance:
  "send_lines ls s = Inr s' \<Longrightarrow> credit_ok s \<Longrightarrow> balance s' = balance s \<and> credit_ok s'"
proof (induction ls arbitrary: s)
  case (Cons l ls)
  then obtain t where "sendRaw (Some l) s = Inr t" "send_lines ls t = Inr s'"
    by (auto simp: bind_result_eq_Inr split: if_splits)
  with Cons.IH [of t] sendRaw_balance [of "Some l" s t] Cons.prems(2) show ?case by simp
qed simp

lemma activeTick_balance:
  assumes "activeTick s = Inr s'" "credit_ok s"
  shows "balance s' \<le> balance s + 1 \<and> credit_ok s'"
proof -
  let ?s1 = "if s_sendcreditticks s < FULLSENDCREDIT then s\<lparr>s_sendcreditticks := s_sendcreditticks s + 1\<rparr> else s"
  obtain t where t: "sendRaw None ?s1 = Inr t"
    and rest: "(let self = t\<lparr>s_idleticks := s_idleticks t - 1\<rparr> in
        if s_idleticks self = 0 then sendRawCmd MSG_PING (Some (s_nick self)) self
        else if s_idleticks self \<le> - PINGTICKS then conn_close False (call (UnregTick ActiveTick) self)
        else Inr self) = Inr s'"
    using assms(1) by (auto simp: activeTick_def Let_def bind_result_eq_Inr)
  have s1: "credit_ok ?s1" "balance ?s1 \<le> balance s + 1"
    using assms(2) by (simp_all add: credit_ok_def balance_def)
  from sendRaw_balance [OF t s1(1)] s1(2) have bt: "balance t \<le> balance s + 1" "credit_ok t" by simp_all
  let ?t = "t\<lparr>s_idleticks := s_idleticks t - 1\<rparr>"
  have t1: "balance ?t = balance t" "credit_ok ?t" using bt(2) by (simp_all add: balance_def credit_ok_def)
  have close: "balance u = balance ?t \<and> credit_ok u" if "conn_close False (call (UnregTick ActiveTick) ?t) = Inr u" for u
    using that t1(2) by (auto simp: conn_close_def balance_def credit_ok_def split: option.splits)
  show ?thesis
    using rest sendRawCmd_balance [of MSG_PING "Some (s_nick t)" ?t s'] close [of s'] t1 bt(1)
    by (auto simp: Let_def split: if_splits)
qed

definition op_ticks :: "send_op \<Rightarrow> int" where
  "op_ticks op = (if op = OpTick then 1 else 0)"

lemma send_step_balance:
  assumes "send_step conn op s = Inr s'" "credit_ok s"
  shows "balance s' \<le> balance s + op_ticks op \<and> credit_ok s'"
proof (cases op)
  case (OpRaw l)
  with assms show ?thesis by (simp add: sendRaw_balance op_ticks_def)
next
  case (OpCmd cmd args)
  with assms show ?thesis
    by (auto simp: IrcServer_sendCmd_def bind_result_eq_Inr op_ticks_def sendRawCmd_balance split: if_splits)
next
  case (OpMsg to m act)
  with assms show ?thesis
    by (auto simp: IrcServer_sendMsg_def bind_result_eq_Inr op_ticks_def send_lines_balance Let_def
        split: if_splits option.splits)
next
  case (OpNick n)
  have "balance (s\<lparr>s_nick := n\<rparr>) = balance s" "credit_ok (s\<lparr>s_nick := n\<rparr>)"
    using assms(2) by (simp_all add: balance_def credit_ok_def)
  with OpNick assms sendRawCmd_balance [of MSG_NICK "Some n" "s\<lparr>s_nick := n\<rparr>" s'] show ?thesis
    by (auto simp: IrcServer_setNick_def op_ticks_def Let_def split: if_splits)
next
  case OpSent
  have "balance (s\<lparr>s_sendcmd := None, s_sending := False\<rparr>) = balance s"
      "credit_ok (s\<lparr>s_sendcmd := None, s_sending := False\<rparr>)"
    using assms(2) by (simp_all add: balance_def credit_ok_def)
  with OpSent assms sendRaw_balance [of None "s\<lparr>s_sendcmd := None, s_sending := False\<rparr>" s'] show ?thesis
    by (auto simp: connDataSent_def op_ticks_def split: if_splits)
next
  case OpTick
  with assms activeTick_balance show ?thesis by (simp add: op_ticks_def)
qed

lemma send_run_balance:
  "send_run conn ops s = Inr s' \<Longrightarrow> credit_ok s \<Longrightarrow>
    balance s' \<le> balance s + int (count_list ops OpTick) \<and> credit_ok s'"
proof (induction ops arbitrary: s)
  case (Cons op ops)
  then obtain t where t: "send_step conn op s = Inr t" "send_run conn ops t = Inr s'"
    by (auto simp: bind_result_eq_Inr)
  with Cons.IH [of t] send_step_balance [of conn op s t] Cons.prems(2) show ?case
    by (auto simp: op_ticks_def split: if_splits)
qed simp

text \<open>C11: the flood control. Whatever the program asks a logged-in server to send, in any
  order with confirmations and timer ticks, the number of lines handed to the connection
  is at most half of nine plus the number of ticks: a burst of four lines, then one line
  every two ticks; and the credit never leaves its range.\<close>

theorem send_rate:
  assumes "0 \<le> s_sendcreditticks s" "s_sendcreditticks s \<le> 9" "send_run conn ops s = Inr s'"
  shows "2 * (int (length (written s')) - int (length (written s))) \<le> 9 + int (count_list ops OpTick)
    \<and> 0 \<le> s_sendcreditticks s' \<and> s_sendcreditticks s' \<le> 9"
  using send_run_balance [OF assms(3)] assms(1,2) by (simp add: credit_ok_def balance_def)


section \<open>The order of the lines\<close>

definition send_ok :: "nat \<Rightarrow> 'x IrcServer_scheme \<Rightarrow> bool" where
  "send_ok conn self \<longleftrightarrow> s_conn self = Some conn
     \<and> (case s_sendQueue self of None \<Rightarrow> False | Some q \<Rightarrow> IBQueue_ok q)"

text \<open>What sending leaves alone.\<close>

definition send_same :: "'x IrcServer_scheme \<Rightarrow> 'x IrcServer_scheme \<Rightarrow> bool" where
  "send_same s s' \<longleftrightarrow> s_connst s' = s_connst s \<and> s_nick s' = s_nick s \<and> s_idleticks s' = s_idleticks s"

lemma send_ok_queue:
  assumes "send_ok conn s"
  obtains q where "s_sendQueue s = Some q" "IBQueue_ok q" "pending s = queue_objs q" "s_conn s = Some conn"
  using assms by (auto simp: send_ok_def pending_def split: option.splits)

definition can_send :: "'x IrcServer_scheme \<Rightarrow> bool" where
  "can_send self \<longleftrightarrow> s_sendcreditticks self \<ge> 2 \<and> \<not> s_sending self \<and> pending self \<noteq> []"

lemma try_send_exact:
  assumes "send_ok conn s"
  shows "\<exists>s'. try_send s = Inr s' \<and> send_ok conn s' \<and> send_same s s' \<and>
    (if can_send s
     then written s' = written s @ [hd (pending s)] \<and> pending s' = tl (pending s) \<and> s_sending s'
       \<and> s_sendcreditticks s' = s_sendcreditticks s - 2
     else written s' = written s \<and> pending s' = pending s \<and> s_sending s' = s_sending s
       \<and> s_sendcreditticks s' = s_sendcreditticks s)"
proof (rule send_ok_queue [OF assms])
  fix q assume q: "s_sendQueue s = Some q" "IBQueue_ok q" "pending s = queue_objs q" "s_conn s = Some conn"
  show ?thesis
  proof (cases "s_sendcreditticks s < 2 \<or> s_sending s")
    case True
    with assms show ?thesis by (auto simp: try_send_def can_send_def send_same_def)
  next
    case False
    show ?thesis
    proof (cases "queue_objs q")
      case Nil
      with sendfifo.deq_empty [OF q(2)] False q assms show ?thesis
        by (simp add: try_send_def can_send_def send_same_def send_ok_def)
    next
      case (Cons l ls)
      with sendfifo.deq_cons [OF q(2)] obtain q' where
        "IBQueue_dequeue q = Inr (Some l, q')" "IBQueue_ok q'" "queue_objs q' = ls" by blast
      with Cons False q assms show ?thesis
        by (simp add: try_send_def can_send_def send_same_def send_ok_def)
    qed
  qed
qed

lemma enqueue_exact:
  assumes "send_ok conn s" "length (pending s) < QUEUEINITIALCAPA"
  obtains q where "enqueue_cmd (Some l) s = Inr (s\<lparr>s_sendQueue := Some q\<rparr>)" "IBQueue_ok q" "queue_objs q = pending s @ [l]"
proof (rule send_ok_queue [OF assms(1)])
  fix q assume q: "s_sendQueue s = Some q" "IBQueue_ok q" "pending s = queue_objs q" "s_conn s = Some conn"
  then have "length (queue_objs q) < QUEUEINITIALCAPA" using assms(2) by simp
  from sendfifo.enq_law [OF q(2) this, of l "Some ()"] q that show thesis by (simp add: enqueue_cmd_def)
qed

lemma sendRaw_order:
  assumes "send_ok conn s" "length (pending s) + (if c = None then 0 else 1) \<le> QUEUEINITIALCAPA"
  shows "\<exists>s'. sendRaw c s = Inr s' \<and> send_ok conn s' \<and> send_same s s'
    \<and> written s' @ pending s' = written s @ pending s @ (case c of None \<Rightarrow> [] | Some l \<Rightarrow> [l])
    \<and> length (pending s') \<le> length (pending s) + (if c = None then 0 else 1)"
proof (rule send_ok_queue [OF assms(1)])
  fix q assume q: "s_sendQueue s = Some q" "IBQueue_ok q" "pending s = queue_objs q" "s_conn s = Some conn"
  let ?new = "case c of None \<Rightarrow> [] | Some l \<Rightarrow> [l]"
  obtain t where t: "enqueue_cmd c s = Inr t" "send_ok conn t" "send_same s t" "written t = written s"
      "pending t = pending s @ ?new"
  proof (cases c)
    case None
    with assms(1) show ?thesis by (intro that [of s]) (simp_all add: enqueue_cmd_def send_same_def)
  next
    case (Some l)
    with assms(2) have "length (pending s) < QUEUEINITIALCAPA" by simp
    then obtain q' where "enqueue_cmd (Some l) s = Inr (s\<lparr>s_sendQueue := Some q'\<rparr>)" "IBQueue_ok q'"
        "queue_objs q' = pending s @ [l]"
      by (rule enqueue_exact [OF assms(1)])
    with Some q(4) show ?thesis
      by (intro that [of "s\<lparr>s_sendQueue := Some q'\<rparr>"]) (simp_all add: send_same_def send_ok_def)
  qed
  obtain s' where s': "try_send t = Inr s'" "send_ok conn s'" "send_same t s'"
      "written s' @ pending s' = written t @ pending t" "length (pending s') \<le> length (pending t)"
    using try_send_exact [OF t(2)] by (auto simp: can_send_def split: if_splits)
  have "length (pending t) = length (pending s) + (if c = None then 0 else 1)"
    using t(5) by (auto split: option.splits)
  with t s' show ?thesis by (auto simp: sendRaw_def send_same_def)
qed

text \<open>The lines an operation hands in, for a server in state \<open>self\<close>.\<close>

definition cmd_line :: "IrcCommand \<Rightarrow> string \<Rightarrow> string list" where
  "cmd_line cmd args = (case raw_line cmd (Some args) of Inl _ \<Rightarrow> [] | Inr l \<Rightarrow> [l])"

fun op_lines :: "send_op \<Rightarrow> 'x IrcServer_scheme \<Rightarrow> string list" where
  "op_lines (OpRaw l) self = [l]"
| "op_lines (OpCmd cmd args) self = (if s_connst self > 0 then cmd_line cmd args else [])"
| "op_lines (OpMsg to message action) self =
     (if s_connst self > 0 \<and> length to \<le> 255
      then the (chunk_lines (msg_prefix to action) (msg_suffix action)
                  (513 - length (msg_prefix to action) - 3 - (if action then 1 else 0)) message)
      else [])"
| "op_lines (OpNick nick) self =
     (if nick \<noteq> s_nick self \<and> s_connst self > 0 then cmd_line MSG_NICK nick else [])"
| "op_lines OpSent self = []"
| "op_lines OpTick self = (if s_idleticks self = 1 then cmd_line MSG_PING (s_nick self) else [])"

fun op_valid :: "send_op \<Rightarrow> bool" where
  "op_valid (OpCmd cmd args) = (IrcCommand_str cmd \<noteq> None)"
| "op_valid op = True"

text \<open>Along the run the operations are valid and never more than 8 lines wait; the lines.\<close>

fun room_run :: "nat \<Rightarrow> send_op list \<Rightarrow> 'x IrcServer_scheme \<Rightarrow> bool" where
  "room_run conn [] self = True"
| "room_run conn (op # ops) self =
     (op_valid op \<and> length (pending self) + length (op_lines op self) \<le> QUEUEINITIALCAPA
      \<and> (case send_step conn op self of Inl _ \<Rightarrow> True | Inr self \<Rightarrow> room_run conn ops self))"

fun run_lines :: "nat \<Rightarrow> send_op list \<Rightarrow> 'x IrcServer_scheme \<Rightarrow> string list" where
  "run_lines conn [] self = []"
| "run_lines conn (op # ops) self =
     op_lines op self @ (case send_step conn op self of Inl _ \<Rightarrow> [] | Inr self \<Rightarrow> run_lines conn ops self)"


lemma send_ok_update [simp]:
  "send_ok conn (s\<lparr>s_sending := b\<rparr>) = send_ok conn s" "send_ok conn (s\<lparr>s_sendcmd := c\<rparr>) = send_ok conn s"
  "send_ok conn (s\<lparr>s_sendcreditticks := n\<rparr>) = send_ok conn s" "send_ok conn (s\<lparr>s_idleticks := n\<rparr>) = send_ok conn s"
  "send_ok conn (s\<lparr>s_nick := w\<rparr>) = send_ok conn s" "send_ok conn (call sc s) = send_ok conn s"
  by (simp_all add: send_ok_def)

text \<open>The lines \<open>ls\<close> were handed in between two states: nothing is lost, doubled or overtaken.\<close>

definition handed_in :: "nat \<Rightarrow> 'x IrcServer_scheme \<Rightarrow> string list \<Rightarrow> 'x IrcServer_scheme \<Rightarrow> bool" where
  "handed_in conn s ls s' \<longleftrightarrow> send_ok conn s' \<and> written s' @ pending s' = written s @ pending s @ ls
     \<and> length (pending s') \<le> length (pending s) + length ls"

lemma sendRaw_handed:
  "send_ok conn s \<Longrightarrow> length (pending s) < QUEUEINITIALCAPA \<Longrightarrow>
    \<exists>s'. sendRaw (Some l) s = Inr s' \<and> handed_in conn s [l] s' \<and> send_same s s'"
  using sendRaw_order [of conn s "Some l"] by (auto simp: handed_in_def)

lemma sendRaw_None_handed:
  "send_ok conn s \<Longrightarrow> length (pending s) \<le> QUEUEINITIALCAPA \<Longrightarrow>
    \<exists>s'. sendRaw None s = Inr s' \<and> handed_in conn s [] s' \<and> send_same s s'"
  using sendRaw_order [of conn s None] by (auto simp: handed_in_def)

lemma cmd_line_known: "IrcCommand_str cmd \<noteq> None \<Longrightarrow> \<exists>l. raw_line cmd (Some args) = Inr l \<and> cmd_line cmd args = [l]"
  by (auto simp: cmd_line_def raw_line_def)

lemma sendRawCmd_handed:
  assumes "send_ok conn s" "IrcCommand_str cmd \<noteq> None"
    and "length (pending s) + length (cmd_line cmd args) \<le> QUEUEINITIALCAPA"
  shows "\<exists>s'. sendRawCmd cmd (Some args) s = Inr s' \<and> handed_in conn s (cmd_line cmd args) s'"
proof -
  obtain l where l: "raw_line cmd (Some args) = Inr l" "cmd_line cmd args = [l]"
    using cmd_line_known [OF assms(2)] by blast
  then have "length (pending s) < QUEUEINITIALCAPA" using assms(3) by simp
  from sendRaw_handed [OF assms(1) this, of l] l show ?thesis by (auto simp: sendRawCmd_def)
qed

lemma send_lines_handed:
  "send_ok conn s \<Longrightarrow> list_all (\<lambda>l. length l \<le> 512) ls \<Longrightarrow>
    length (pending s) + length ls \<le> QUEUEINITIALCAPA \<Longrightarrow>
    \<exists>s'. send_lines ls s = Inr s' \<and> handed_in conn s ls s' \<and> send_same s s'"
proof (induction ls arbitrary: s)
  case Nil
  then show ?case by (simp add: handed_in_def send_same_def)
next
  case (Cons l ls)
  have "length (pending s) < QUEUEINITIALCAPA" using Cons.prems(3) by simp
  from sendRaw_handed [OF Cons.prems(1) this, of l] obtain t where
    t: "sendRaw (Some l) s = Inr t" "handed_in conn s [l] t" "send_same s t" by blast
  then have "send_ok conn t" "length (pending t) + length ls \<le> QUEUEINITIALCAPA"
    using Cons.prems(3) by (simp_all add: handed_in_def)
  from Cons.IH [OF this(1) _ this(2)] Cons.prems(2) obtain s' where
    "send_lines ls t = Inr s'" "handed_in conn t ls s'" "send_same t s'" by auto
  with t Cons.prems(2) show ?case by (auto simp: handed_in_def send_same_def)
qed

lemma sendMsg_pieces:
  assumes "length to \<le> 255"
  shows "list_all (\<lambda>l. length l \<le> 512) (the (chunk_lines (msg_prefix to action) (msg_suffix action)
    (513 - length (msg_prefix to action) - 3 - (if action then 1 else 0)) message))"
proof -
  let ?max = "513 - length (msg_prefix to action) - 3 - (if action then 1 else 0)"
  have "length (msg_prefix to action) + length (msg_suffix action) + ?max \<le> 512"
    using assms by (simp add: msg_prefix_def msg_suffix_def)
  with chunk_lines_total [OF msg_chunk_pos [OF assms, of action], where pre = "msg_prefix to action"
      and suf = "msg_suffix action" and message = message] show ?thesis
    by (fastforce simp: list_all_iff)
qed

lemma commands_known:
  "IrcCommand_str MSG_NICK \<noteq> None" "IrcCommand_str MSG_PING \<noteq> None" "IrcCommand_str MSG_QUIT \<noteq> None"
  "IrcCommand_str MSG_JOIN \<noteq> None" "IrcCommand_str MSG_PART \<noteq> None"
  by code_simp+

lemma activeTick_handed:
  assumes "send_ok conn s" "length (pending s) + length (op_lines OpTick s) \<le> QUEUEINITIALCAPA"
  shows "\<exists>s'. activeTick s = Inr s' \<and> handed_in conn s (op_lines OpTick s) s'"
proof -
  let ?s1 = "if s_sendcreditticks s < FULLSENDCREDIT then s\<lparr>s_sendcreditticks := s_sendcreditticks s + 1\<rparr> else s"
  have s1: "send_ok conn ?s1" "pending ?s1 = pending s" "written ?s1 = written s" "send_same s ?s1"
    using assms(1) by (simp_all add: send_same_def)
  from sendRaw_None_handed [OF s1(1)] s1(2) assms(2) obtain t where
    t: "sendRaw None ?s1 = Inr t" "handed_in conn ?s1 [] t" "send_same ?s1 t" by auto
  let ?t = "t\<lparr>s_idleticks := s_idleticks t - 1\<rparr>"
  have t': "send_ok conn ?t" "written ?t @ pending ?t = written s @ pending s" "length (pending ?t) \<le> length (pending s)"
      "s_nick ?t = s_nick s" "s_idleticks ?t = s_idleticks s - 1" "s_conn ?t = Some conn"
    using t(2,3) s1 by (simp_all add: handed_in_def send_same_def) (auto simp: send_ok_def)
  have ac: "activeTick s = (if s_idleticks ?t = 0 then sendRawCmd MSG_PING (Some (s_nick ?t)) ?t
      else if s_idleticks ?t \<le> - PINGTICKS then conn_close False (call (UnregTick ActiveTick) ?t) else Inr ?t)"
    using t(1) by (simp add: activeTick_def Let_def)
  show ?thesis
  proof (cases "s_idleticks s = 1")
    case True
    with assms(2) t'(3) have "length (pending ?t) + length (cmd_line MSG_PING (s_nick s)) \<le> QUEUEINITIALCAPA" by simp
    from sendRawCmd_handed [OF t'(1) commands_known(2) this] True t' show ?thesis
      unfolding ac by (auto simp: handed_in_def)
  next
    case False
    with t' show ?thesis unfolding ac by (auto simp: handed_in_def conn_close_def)
  qed
qed


lemma OpMsg_handed:
  assumes "send_ok conn s" "length (pending s) + length (op_lines (OpMsg to m act) s) \<le> QUEUEINITIALCAPA"
  shows "\<exists>s'. send_step conn (OpMsg to m act) s = Inr s' \<and> handed_in conn s (op_lines (OpMsg to m act) s) s' \<and> send_same s s'"
proof (cases "s_connst s > 0 \<and> length to \<le> 255")
  case True
  let ?chunks = "chunk_lines (msg_prefix to act) (msg_suffix act)
    (513 - length (msg_prefix to act) - 3 - (if act then 1 else 0)) m"
  obtain ls where ls: "?chunks = Some ls"
    using chunk_lines_total [OF msg_chunk_pos [of to act], where pre = "msg_prefix to act"
        and suf = "msg_suffix act" and message = m] True by blast
  have "list_all (\<lambda>l. length l \<le> 512) ls" using sendMsg_pieces [of to act m] True ls by simp
  from send_lines_handed [OF assms(1) this] assms(2) True ls show ?thesis
    by (auto simp: IrcServer_sendMsg_def Let_def)
next
  case False
  with assms(1) show ?thesis by (auto simp: IrcServer_sendMsg_def handed_in_def send_same_def)
qed

lemma send_step_handed:
  assumes "send_ok conn s" "op_valid op" "length (pending s) + length (op_lines op s) \<le> QUEUEINITIALCAPA"
  shows "\<exists>s'. send_step conn op s = Inr s' \<and> handed_in conn s (op_lines op s) s'"
proof (cases op)
  case (OpRaw l)
  with assms sendRaw_handed [of conn s l] show ?thesis by auto
next
  case (OpCmd cmd args)
  with assms sendRawCmd_handed [of conn s cmd args] show ?thesis
    by (cases "s_connst s > 0") (auto simp: IrcServer_sendCmd_def handed_in_def)
next
  case (OpMsg to m act)
  with OpMsg_handed [OF assms(1), of to m act] assms(3) show ?thesis by blast
next
  case (OpNick n)
  show ?thesis
  proof (cases "n \<noteq> s_nick s \<and> s_connst s > 0")
    case True
    with assms OpNick sendRawCmd_handed [of conn "s\<lparr>s_nick := n\<rparr>" MSG_NICK n] commands_known(1) show ?thesis
      by (auto simp: IrcServer_setNick_def Let_def handed_in_def)
  next
    case False
    with OpNick assms(1) show ?thesis by (auto simp: IrcServer_setNick_def Let_def handed_in_def)
  qed
next
  case OpSent
  with assms sendRaw_None_handed [of conn "s\<lparr>s_sendcmd := None, s_sending := False\<rparr>"] show ?thesis
    by (auto simp: connDataSent_def handed_in_def send_ok_def)
next
  case OpTick
  with activeTick_handed [OF assms(1)] assms(3) show ?thesis by simp
qed

lemma send_run_handed:
  "send_ok conn s \<Longrightarrow> room_run conn ops s \<Longrightarrow>
    \<exists>s'. send_run conn ops s = Inr s' \<and> send_ok conn s' \<and> written s' @ pending s' = written s @ pending s @ run_lines conn ops s"
proof (induction ops arbitrary: s)
  case (Cons op ops)
  then obtain t where t: "send_step conn op s = Inr t" "handed_in conn s (op_lines op s) t"
    using send_step_handed [OF Cons.prems(1), of op] by auto
  then have "send_ok conn t" "room_run conn ops t" using Cons.prems(2) by (simp_all add: handed_in_def)
  from Cons.IH [OF this] t show ?case by (auto simp: handed_in_def)
qed simp

text \<open>C10: the order on the wire. As long as no more than 8 lines ever wait (the queue's
  initial capacity), any mixture of commands, messages, nick changes, confirmations and
  ticks runs without a fault, and what was handed to the connection followed by what still
  waits is exactly what was asked for, in that order: no line is lost, doubled or overtaken,
  whatever the rate limit and the confirmations delay.\<close>

theorem send_order:
  assumes "s_conn s = Some conn" "s_sendQueue s = Some q" "IBQueue_ok q" "room_run conn ops s"
  shows "\<exists>s'. send_run conn ops s = Inr s' \<and>
    written s' @ pending s' = written s @ pending s @ run_lines conn ops s"
proof -
  have "send_ok conn s" using assms(1-3) by (simp add: send_ok_def)
  from send_run_handed [OF this assms(4)] show ?thesis by blast
qed

section \<open>Every line gets there\<close>

lemma connDataSent_exact:
  assumes "send_ok conn s"
  shows "\<exists>s'. connDataSent conn s = Inr s' \<and> send_ok conn s' \<and> send_same s s'
    \<and> (s_sending s' \<longleftrightarrow> s_sendcreditticks s \<ge> 2 \<and> pending s \<noteq> []) \<and>
    (if s_sendcreditticks s \<ge> 2 \<and> pending s \<noteq> []
     then written s' = written s @ [hd (pending s)] \<and> pending s' = tl (pending s)
       \<and> s_sendcreditticks s' = s_sendcreditticks s - 2
     else written s' = written s \<and> pending s' = pending s \<and> s_sendcreditticks s' = s_sendcreditticks s)"
proof -
  let ?s = "s\<lparr>s_sendcmd := None, s_sending := False\<rparr>"
  have "connDataSent conn s = try_send ?s"
    using assms by (simp add: connDataSent_def send_ok_def sendRaw_def enqueue_cmd_def)
  then show ?thesis
    using try_send_exact [of conn ?s] assms by (auto simp: can_send_def send_same_def split: if_splits)
qed

lemma activeTick_exact:
  assumes "send_ok conn s" "s_idleticks s > 1" "0 \<le> s_sendcreditticks s" "s_sendcreditticks s \<le> 9"
  defines "credit \<equiv> min 9 (s_sendcreditticks s + 1)"
  shows "\<exists>s'. activeTick s = Inr s' \<and> send_ok conn s' \<and> s_idleticks s' = s_idleticks s - 1 \<and>
    (if credit \<ge> 2 \<and> \<not> s_sending s \<and> pending s \<noteq> []
     then written s' = written s @ [hd (pending s)] \<and> pending s' = tl (pending s) \<and> s_sending s'
       \<and> s_sendcreditticks s' = credit - 2
     else written s' = written s \<and> pending s' = pending s \<and> s_sending s' = s_sending s
       \<and> s_sendcreditticks s' = credit)"
proof -
  let ?s1 = "if s_sendcreditticks s < FULLSENDCREDIT then s\<lparr>s_sendcreditticks := s_sendcreditticks s + 1\<rparr> else s"
  have s1: "send_ok conn ?s1" "pending ?s1 = pending s" "written ?s1 = written s" "s_sending ?s1 = s_sending s"
      "s_sendcreditticks ?s1 = credit" "s_idleticks ?s1 = s_idleticks s"
    using assms by auto
  obtain t where t: "try_send ?s1 = Inr t" "send_ok conn t" "send_same ?s1 t"
     "if can_send ?s1
      then written t = written ?s1 @ [hd (pending ?s1)] \<and> pending t = tl (pending ?s1) \<and> s_sending t
        \<and> s_sendcreditticks t = s_sendcreditticks ?s1 - 2
      else written t = written ?s1 \<and> pending t = pending ?s1 \<and> s_sending t = s_sending ?s1
        \<and> s_sendcreditticks t = s_sendcreditticks ?s1"
    using try_send_exact [OF s1(1)] by blast
  let ?t = "t\<lparr>s_idleticks := s_idleticks t - 1\<rparr>"
  have idle: "s_idleticks t = s_idleticks s" using t(3) s1(6) by (simp add: send_same_def)
  with t(1) assms(2) have "activeTick s = Inr ?t"
    by (simp add: activeTick_def Let_def sendRaw_def enqueue_cmd_def)
  moreover have "can_send ?s1 \<longleftrightarrow> credit \<ge> 2 \<and> \<not> s_sending s \<and> pending s \<noteq> []"
    unfolding can_send_def s1 by simp
  ultimately show ?thesis
    using t(2,4) idle unfolding s1 by (intro exI [of _ ?t]) (simp split: if_splits)
qed


lemma send_run_append: "send_run conn (xs @ ys) s = bind_result (send_run conn xs s) (send_run conn ys)"
  by (induction xs arbitrary: s) (simp_all add: bind_result_def split: sum.split)

lemma send_rounds_Suc:
  "send_run conn (concat (replicate (Suc n) r)) s = bind_result (send_run conn r s) (send_run conn (concat (replicate n r)))"
  by (simp only: replicate.simps concat.simps send_run_append)

lemma send_round:
  assumes "send_ok conn s" "s_idleticks s > 2" "credit_ok s"
  shows "\<exists>s'. send_run conn [OpTick, OpTick, OpSent] s = Inr s' \<and> send_ok conn s' \<and> credit_ok s'
    \<and> s_idleticks s' = s_idleticks s - 2 \<and> written s' @ pending s' = written s @ pending s
    \<and> length (pending s') \<le> length (pending s) - 1"
proof -
  have c: "0 \<le> s_sendcreditticks s" "s_sendcreditticks s \<le> 9" using assms(3) by (simp_all add: credit_ok_def)
  have idle: "s_idleticks s > 1" using assms(2) by simp
  define sends1 where "sends1 \<longleftrightarrow> min 9 (s_sendcreditticks s + 1) \<ge> 2 \<and> \<not> s_sending s \<and> pending s \<noteq> []"
  obtain t where t: "activeTick s = Inr t" "send_ok conn t" "s_idleticks t = s_idleticks s - 1"
      "if sends1 then written t = written s @ [hd (pending s)] \<and> pending t = tl (pending s) \<and> s_sending t
          \<and> s_sendcreditticks t = min 9 (s_sendcreditticks s + 1) - 2
       else written t = written s \<and> pending t = pending s \<and> s_sending t = s_sending s
          \<and> s_sendcreditticks t = min 9 (s_sendcreditticks s + 1)"
    using activeTick_exact [OF assms(1) idle c] unfolding sends1_def by blast
  have ct: "0 \<le> s_sendcreditticks t" "s_sendcreditticks t \<le> 9" "s_idleticks t > 1"
    using t(3,4) c assms(2) by (auto simp: sends1_def split: if_splits)
  define sends2 where "sends2 \<longleftrightarrow> min 9 (s_sendcreditticks t + 1) \<ge> 2 \<and> \<not> s_sending t \<and> pending t \<noteq> []"
  obtain u where u: "activeTick t = Inr u" "send_ok conn u" "s_idleticks u = s_idleticks t - 1"
      "if sends2 then written u = written t @ [hd (pending t)] \<and> pending u = tl (pending t) \<and> s_sending u
          \<and> s_sendcreditticks u = min 9 (s_sendcreditticks t + 1) - 2
       else written u = written t \<and> pending u = pending t \<and> s_sending u = s_sending t
          \<and> s_sendcreditticks u = min 9 (s_sendcreditticks t + 1)"
    using activeTick_exact [OF t(2) ct(3,1,2)] unfolding sends2_def by blast
  define sends3 where "sends3 \<longleftrightarrow> s_sendcreditticks u \<ge> 2 \<and> pending u \<noteq> []"
  obtain v where v: "connDataSent conn u = Inr v" "send_ok conn v" "send_same u v"
      "if sends3 then written v = written u @ [hd (pending u)] \<and> pending v = tl (pending u)
          \<and> s_sendcreditticks v = s_sendcreditticks u - 2
       else written v = written u \<and> pending v = pending u \<and> s_sendcreditticks v = s_sendcreditticks u"
    using connDataSent_exact [OF u(2)] unfolding sends3_def by blast
  have "send_run conn [OpTick, OpTick, OpSent] s = Inr v" using t(1) u(1) v(1) by simp
  moreover have "s_idleticks v = s_idleticks s - 2" using v(3) u(3) t(3) by (simp add: send_same_def)
  moreover have "credit_ok v"
    using t(4) u(4) v(4) c by (auto simp: credit_ok_def sends1_def sends2_def sends3_def split: if_splits)
  moreover have "written v @ pending v = written s @ pending s"
    using t(4) u(4) v(4) by (auto simp: sends1_def sends2_def sends3_def split: if_splits)
  moreover have "length (pending v) \<le> length (pending s) - 1"
    using t(4) u(4) v(4) c by (auto simp: sends1_def sends2_def sends3_def split: if_splits)
  ultimately show ?thesis using v(2) by blast
qed

lemma send_rounds:
  assumes "send_ok conn s" "credit_ok s" "length (pending s) \<le> n" "s_idleticks s > 2 * int n"
  shows "\<exists>s'. send_run conn (concat (replicate n [OpTick, OpTick, OpSent])) s = Inr s'
    \<and> pending s' = [] \<and> written s' = written s @ pending s"
  using assms
proof (induction n arbitrary: s)
  case 0
  then show ?case by simp
next
  case (Suc n)
  from send_round [OF Suc.prems(1) _ Suc.prems(2)] Suc.prems(4) obtain t where
    t: "send_run conn [OpTick, OpTick, OpSent] s = Inr t" "send_ok conn t" "credit_ok t"
      "s_idleticks t = s_idleticks s - 2" "written t @ pending t = written s @ pending s"
      "length (pending t) \<le> length (pending s) - 1" by auto
  have "length (pending t) \<le> n" "s_idleticks t > 2 * int n" using t(4,6) Suc.prems(3,4) by simp_all
  from Suc.IH [OF t(2,3) this] obtain s' where
    "send_run conn (concat (replicate n [OpTick, OpTick, OpSent])) t = Inr s'" "pending s' = []"
    "written s' = written t @ pending t" by auto
  with t(1,5) show ?case unfolding send_rounds_Suc by simp
qed


section \<open>Witnesses\<close>

text \<open>A server that is logged in, with three lines waiting and one unit of credit.\<close>

definition ready_server :: "unit IrcServer_scheme" where
  "ready_server = \<lparr>s_id = ''s'', s_remotehost = ''h'', s_tls = None, s_name = None, s_nick = ''bot'', s_user = None,
     s_realname = None, s_channels = IBHashTable_create 6, s_conn = Some 7,
     s_sendQueue = Some (foldl (\<lambda>q x. IBQueue_enqueue q x (Some ())) IBQueue_create [''a'', ''b'', ''c'']),
     s_sendcmd = None, s_proto = CP_ANY, s_port = 6667, s_sending = False, s_connst = 1, s_loginticks = 0,
     s_reconnticks = 0, s_idleticks = 180, s_sendcreditticks = 1, s_recvbufsz = 0,
     s_recvbuf = replicate RECVBUFSZ NUL, s_livechans = [], s_nextchan = 0, s_calls = []\<rparr>"

lemma ready_server_ok:
  "send_ok 7 ready_server" "credit_ok ready_server" "pending ready_server = [''a'', ''b'', ''c'']"
  "written ready_server = []" "s_idleticks ready_server = 180" "s_sendcreditticks ready_server = 1"
  "s_conn ready_server = Some 7"
proof -
  let ?q = "IBQueue_create :: (string, unit) IBQueue" and ?ls = "[''a'', ''b'', ''c'']"
  have "IBQueue_ok ?q" "queue_objs ?q = []" by (rule create_queue_ok)+
  with sendfifo.enq_many [of ?q ?ls "Some ()"]
  have "IBQueue_ok (foldl (\<lambda>q x. IBQueue_enqueue q x (Some ())) ?q ?ls)
      \<and> queue_objs (foldl (\<lambda>q x. IBQueue_enqueue q x (Some ())) ?q ?ls) = ?ls"
    by (simp add: length_queue_objs [symmetric] del: length_queue_objs)
  then show "send_ok 7 ready_server" "pending ready_server = [''a'', ''b'', ''c'']"
    by (simp_all add: ready_server_def send_ok_def pending_def)
qed (simp_all add: ready_server_def credit_ok_def written_def)


theorem send_rate_witness:
  "\<exists>s'. send_run 7 (concat (replicate 3 [OpTick, OpTick, OpSent])) ready_server = Inr s' \<and> length (written s') \<le> 7"
proof -
  have "length (pending ready_server) \<le> 3" "s_idleticks ready_server > 2 * int 3" by (simp_all add: ready_server_ok)
  from send_rounds [OF ready_server_ok(1,2) this] obtain s' where
    s': "send_run 7 (concat (replicate 3 [OpTick, OpTick, OpSent])) ready_server = Inr s'" by blast
  have "count_list (concat (replicate 3 [OpTick, OpTick, OpSent])) OpTick = 6" by (simp add: numeral_eq_Suc)
  with send_rate [OF _ _ s'] ready_server_ok s' show ?thesis by (intro exI [of _ s']) simp
qed

theorem send_order_witness:
  "\<exists>s'. send_run 7 [OpRaw ''x''] ready_server = Inr s' \<and> written s' @ pending s' = [''a'', ''b'', ''c'', ''x'']"
proof -
  obtain q where q: "s_sendQueue ready_server = Some q" "IBQueue_ok q"
    using ready_server_ok(1) by (auto simp: send_ok_def split: option.splits)
  have "room_run 7 [OpRaw ''x''] ready_server" by (simp add: ready_server_ok split: sum.split)
  from send_order [OF ready_server_ok(7) q this] show ?thesis
    by (cases "sendRaw (Some ''x'') ready_server") (simp_all add: ready_server_ok)
qed

end
