(* ===== verification/ServerListen.thy ===== *)
theory ServerListen
  imports ServerRecv ServerSend
begin

text \<open>
  A server (\<open>src/lib/ircbot/ircserver.c\<close>) and the listeners of its events: what every listener
  must keep (the locale \<open>listener\<close>), and what receiving data then does: which messages are handed
  out, which bytes are kept, and how much is written.
\<close>

section \<open>What is said to the connection\<close>

text \<open>A handler of the server only writes to its connection, and neither closes it nor changes the
  registrations of its events.\<close>

definition modest :: "nat option \<Rightarrow> srv_call \<Rightarrow> bool" where
  "modest conn c = (case c of ConnWrite k l \<Rightarrow> conn = Some k | ConnClose k b \<Rightarrow> False | RegConn k e h \<Rightarrow> False
     | UnregConn k e h \<Rightarrow> False | _ \<Rightarrow> True)"

text \<open>
  The calls made between two states: nothing is written while a confirmation is outstanding,
  and at most one line otherwise, for which it is then awaited; and only when there is a queue.
\<close>

definition talks :: "'x IrcServer_scheme \<Rightarrow> 'x IrcServer_scheme \<Rightarrow> bool" where
  "talks s s' \<longleftrightarrow> s_conn s' = s_conn s \<and> (s_sendQueue s' = None \<longleftrightarrow> s_sendQueue s = None)
     \<and> (\<exists>cs. s_calls s' = s_calls s @ cs \<and> list_all (modest (s_conn s)) cs \<and> (s_sendQueue s = None \<longrightarrow> written_in cs = [])
     \<and> (if s_sending s then s_sending s' \<and> written_in cs = [] else length (written_in cs) = (if s_sending s' then 1 else 0)))"

lemma talksI:
  assumes "s_conn s' = s_conn s" "s_sendQueue s' = None \<longleftrightarrow> s_sendQueue s = None" "s_calls s' = s_calls s @ cs"
    "list_all (modest (s_conn s)) cs" "s_sendQueue s = None \<longrightarrow> written_in cs = []"
    "if s_sending s then s_sending s' \<and> written_in cs = [] else length (written_in cs) = (if s_sending s' then 1 else 0)"
  shows "talks s s'"
  unfolding talks_def by (intro conjI exI [of _ cs] assms)

lemma talks_refl [simp]: "talks s s"
  by (rule talksI [of _ _ "[]"]) simp_all

lemma talks_trans:
  assumes "talks s t" "talks t u"
  shows "talks s u"
proof -
  obtain cs where cs: "s_calls t = s_calls s @ cs" "list_all (modest (s_conn s)) cs"
      "if s_sending s then s_sending t \<and> written_in cs = [] else length (written_in cs) = (if s_sending t then 1 else 0)"
      and c: "s_conn t = s_conn s" "s_sendQueue t = None \<longleftrightarrow> s_sendQueue s = None" "s_sendQueue s = None \<longrightarrow> written_in cs = []"
    using assms(1) by (auto simp: talks_def)
  obtain ds where ds: "s_calls u = s_calls t @ ds" "list_all (modest (s_conn t)) ds"
      "if s_sending t then s_sending u \<and> written_in ds = [] else length (written_in ds) = (if s_sending u then 1 else 0)"
      and d: "s_conn u = s_conn t" "s_sendQueue u = None \<longleftrightarrow> s_sendQueue t = None" "s_sendQueue t = None \<longrightarrow> written_in ds = []"
    using assms(2) by (auto simp: talks_def)
  show ?thesis
    using cs ds c d by (intro talksI [of _ _ "cs @ ds"]) (simp_all add: written_in_append split: if_splits)
qed

lemma talks_same:
  "s_conn s' = s_conn s \<Longrightarrow> s_calls s' = s_calls s \<Longrightarrow> s_sending s' = s_sending s \<Longrightarrow>
    s_sendQueue s' = None \<longleftrightarrow> s_sendQueue s = None \<Longrightarrow> talks s s'"
  by (rule talksI [of _ _ "[]"]) simp_all

lemma talks_call: "modest (s_conn s) c \<Longrightarrow> \<not> is_write c \<Longrightarrow> talks s (call c s)"
  by (rule talksI [of _ _ "[c]"]) (cases c; simp add: call_def is_write_def)+

lemma sendRaw_talks:
  assumes "sendRaw c s = Inr s'"
  shows "talks s s'"
proof -
  obtain t where t: "enqueue_cmd c s = Inr t" "try_send t = Inr s'"
    using assms by (auto simp: sendRaw_def bind_result_eq_Inr)
  have "talks s t" using t(1) by (rule enqueue_cmd_cases) (simp_all add: talks_same)
  moreover have "talks t s'" using t(2)
  proof (rule try_send_cases)
    fix q q' c conn
    assume "\<not> s_sending t" "s_conn t = Some conn" "s_sendQueue t = Some q" and s': "s' = call (ConnWrite conn c) (t\<lparr>s_sendQueue := Some q', s_sendcmd := Some c,
      s_sending := True, s_sendcreditticks := s_sendcreditticks t - 2\<rparr>)"
    then show "talks t s'" by (intro talksI [of _ _ "[ConnWrite conn c]"]) (simp_all add: call_def modest_def)
  qed (simp_all add: talks_same)
  ultimately show ?thesis by (rule talks_trans)
qed

lemma chan_new_talks: "talks s (snd (chan_new name s))"
  by (intro talksI [of _ _ "[ChanCreate (s_nextchan s) name, RegChan (s_nextchan s) ChanJoined,
      RegChan (s_nextchan s) ChanParted, RegChan (s_nextchan s) ChanFailed]"])
    (simp_all add: chan_new_def Let_def call_def modest_def)

section \<open>What a listener keeps\<close>

text \<open>
  Besides that, the receive buffer stays, a login is not undone, and the log (a part of the
  state that stands for what the listeners do) grows by the messages that were handed out.
\<close>

definition heard :: "unit IrcMessage list \<Rightarrow> 'x logged_server_scheme \<Rightarrow> 'x logged_server_scheme \<Rightarrow> bool" where
  "heard ms s s' \<longleftrightarrow> recv_same s s' \<and> talks s s' \<and> l_log s' = l_log s @ ms"

lemma heard_refl [simp]: "heard [] s s"
  by (simp add: heard_def)

lemma heard_trans: "heard [] s t \<Longrightarrow> heard ms t u \<Longrightarrow> heard ms s u"
  by (auto simp: heard_def intro: recv_same_trans talks_trans)

lemma heard_nick: "heard [] s (s\<lparr>s_nick := n\<rparr>)"
  by (simp add: heard_def recv_same_def talks_same)

lemma sendRaw_heard:
  fixes s :: "'x logged_server_scheme"
  assumes "sendRaw c s = Inr s'"
  shows "heard [] s s'"
proof -
  obtain t where t: "enqueue_cmd c s = Inr t" "try_send t = Inr s'"
    using assms by (auto simp: sendRaw_def bind_result_eq_Inr)
  have "l_log t = l_log s" using t(1) by (rule enqueue_cmd_cases) simp_all
  moreover have "l_log s' = l_log t" using t(2) by (rule try_send_cases) (simp_all add: call_def)
  ultimately show ?thesis using sendRaw_same [OF assms] sendRaw_talks [OF assms] by (simp add: heard_def)
qed

lemma sendRawCmd_heard: "sendRawCmd cmd args s = Inr s' \<Longrightarrow> heard [] s s'"
  by (auto simp: sendRawCmd_def bind_result_eq_Inr intro: sendRaw_heard)

lemma send_lines_heard: "send_lines ls s = Inr s' \<Longrightarrow> heard [] s s'"
proof (induction ls arbitrary: s)
  case (Cons l ls)
  then obtain t where "sendRaw (Some l) s = Inr t" "send_lines ls t = Inr s'"
    by (auto simp: bind_result_eq_Inr split: if_splits)
  with Cons.IH heard_trans [OF sendRaw_heard] show ?case by blast
qed simp

locale listener =
  fixes raise :: "srv_event \<Rightarrow> 'x logged_server_scheme \<Rightarrow> 'x logged_server_scheme result"
  assumes hears: "raise ev s = Inr s' \<Longrightarrow> heard (event_messages ev) s s'"

sublocale listener \<subseteq> handling heard raise
proof (unfold_locales, goal_cases)
  case (2 ms s t ns u)
  then show ?case by (auto simp: heard_def intro: recv_same_trans talks_trans)
next
  case (4 s nm)
  have "talks s (call (RegTick ActiveTick) (call (UnregTick ConnWaitLogin) (s\<lparr>s_name := nm, s_connst := 1, s_sendcreditticks := 9\<rparr>)))"
    by (rule talksI [of _ _ "[UnregTick ConnWaitLogin, RegTick ActiveTick]"]) (simp_all add: call_def modest_def)
  then show ?case by (simp add: heard_def recv_same_def) (simp add: call_def)
next
  case (5 s c)
  show ?case using chan_new_talks [of s c] by (auto simp: heard_def recv_same_def) (simp_all add: chan_new_def call_def Let_def)
qed (simp_all add: sendRawCmd_heard hears heard_nick)

context listener
begin

lemma send_login_heard:
  fixes s s' :: "'x logged_server_scheme"
  assumes "send_login pwuid pwnam s = Inr s'"
  shows "talks s s'" "s_recvbuf s' = s_recvbuf s \<and> s_recvbufsz s' = s_recvbufsz s \<and> l_log s' = l_log s \<and> s_connst s' = -2"
proof -
  obtain t u buf where "sendRawCmd MSG_NICK (Some (s_nick s)) s = Inr t" "sendRawCmd MSG_USER (Some buf) t = Inr u"
      and s': "s' = u\<lparr>s_connst := -2\<rparr>"
    using assms by (auto simp: send_login_def bind_result_eq_Inr Let_def)
  then have u: "heard [] s u" using heard_trans [OF sendRawCmd_heard sendRawCmd_heard] by blast
  moreover have "talks u s'" unfolding s' by (rule talks_same) simp_all
  ultimately show "talks s s'" by (auto simp: heard_def intro: talks_trans)
  show "s_recvbuf s' = s_recvbuf s \<and> s_recvbufsz s' = s_recvbufsz s \<and> l_log s' = l_log s \<and> s_connst s' = -2"
    using u by (simp add: s' heard_def recv_same_def)
qed

text \<open>
  Data arrives: the messages that are complete now are handed out in order and the bytes behind
  the last line end are kept, unless there are more than 4096 of them.
\<close>

lemma connDataReceived_hears:
  assumes "recv_ok s" "length data \<le> 4096" "s_conn s = Some conn"
    and "connDataReceived raise pwuid pwnam conn data s = Inr s'"
  shows "recv_ok s'" "talks s s'" "s_connst s > 0 \<Longrightarrow> s_connst s' > 0"
    "l_log s' = l_log s @ stream_messages (pending_bytes s @ data)"
    "length (snd (crlf_split (pending_bytes s @ data))) \<le> 4096 \<Longrightarrow> pending_bytes s' = snd (crlf_split (pending_bytes s @ data))"
proof -
  obtain buf where buf: "recv_store (s_recvbuf s) (s_recvbufsz s) data = Inr buf" "length buf = RECVBUFSZ"
      "line_at buf 0 (s_recvbufsz s + length data) = pending_bytes s @ data"
    using recv_store_ok [OF assms(1,2)] by blast
  let ?n = "s_recvbufsz s + length data"
  have n: "?n \<le> length buf" using assms(1,2) buf(2) by (simp add: recv_ok_def)
  let ?s1 = "s\<lparr>s_idleticks := 180, s_recvbuf := buf, s_recvbufsz := ?n\<rparr>"
  let ?rest = "snd (crlf_split (pending_bytes s @ data))"
  let ?pos = "?n - length ?rest"
  obtain s2 where s2: "handle_all raise (stream_messages (pending_bytes s @ data)) ?s1 = Inr s2"
      and s': "(if s_connst s2 = -1 then send_login pwuid pwnam (recv_keep ?pos s2) else Inr (recv_keep ?pos s2)) = Inr s'"
    using assms(3,4) buf receive_loop_messages [OF n, of 0 raise ?s1]
    by (auto simp: connDataReceived_def bind_result_eq_Inr Let_def recv_keep_other)
  note h = handle_all_rel [OF s2, unfolded heard_def recv_same_def]
  let ?k = "recv_keep ?pos s2"
  have len: "length (pending_bytes s @ data) = ?n" using length_pending [OF assms(1)] by simp
  have le: "length ?rest \<le> ?n" using crlf_rest_length [of "pending_bytes s @ data"] len by simp
  have k: "recv_ok ?k" "l_log ?k = l_log s2" "talks ?s1 ?k"
  proof -
    show "recv_ok ?k" using recv_keep_ok(1) [of s2 ?pos] h buf(2) n by simp
    show "l_log ?k = l_log s2" by (simp add: recv_keep_def)
    have "talks s2 ?k" by (rule talks_same) (simp_all add: recv_keep_def)
    with h show "talks ?s1 ?k" by (blast intro: talks_trans)
  qed
  have fin: "talks ?k s'" "s_recvbuf s' = s_recvbuf ?k \<and> s_recvbufsz s' = s_recvbufsz ?k \<and> l_log s' = l_log ?k"
    using s' send_login_heard [of pwuid pwnam ?k s'] by (auto split: if_splits)
  show "recv_ok s'" using k(1) fin(2) by (simp add: recv_ok_def)
  have "talks s ?s1" by (rule talks_same) simp_all
  with k(3) fin(1) show "talks s s'" by (blast intro: talks_trans)
  show "s_connst s' > 0" if "s_connst s > 0" using that h s' by (auto simp: recv_keep_other split: if_splits)
  show "l_log s' = l_log s @ stream_messages (pending_bytes s @ data)" using fin(2) k(2) h by simp
  assume rest: "length ?rest \<le> 4096"
  have "pending_bytes s' = pending_bytes ?k" using fin(2) by (simp add: pending_bytes_def)
  also have "\<dots> = line_at buf ?pos ?n" using recv_keep_ok(2) [of s2 ?pos] h rest buf(2) n le by simp
  also have "\<dots> = drop ?pos (line_at buf 0 ?n)" by (simp add: line_at_def drop_take)
  also have "\<dots> = ?rest" using crlf_rest_suffix [of "pending_bytes s @ data"] len by (simp add: buf(3))
  finally show "pending_bytes s' = ?rest" .
qed

end

section \<open>Listeners\<close>

text \<open>Only the log.\<close>

interpretation log_listener: listener log_raise
proof
  fix ev and s s' :: logged_server
  assume "log_raise ev s = Inr s'"
  then show "heard (event_messages ev) s s'"
    by (cases ev) (auto simp: log_raise_def heard_def recv_same_def talks_same)
qed

text \<open>
  The channels that wait for the login (\<open>joinOnConnect\<close> in \<open>ircchannel.c\<close>): each sends its
  \<open>JOIN\<close> when the server is connected.
\<close>

fun join_all :: "string list \<Rightarrow> 'x IrcServer_scheme \<Rightarrow> 'x IrcServer_scheme result" where
  "join_all [] s = Inr s"
| "join_all (name # names) s = bind_result (IrcServer_sendCmd MSG_JOIN (Some name) s) (\<lambda>(rc, s). join_all names s)"

definition join_raise :: "string list \<Rightarrow> srv_event \<Rightarrow> logged_server \<Rightarrow> logged_server result" where
  "join_raise names ev s = (if ev = EvConnected then join_all names s else log_raise ev s)"

lemma join_all_heard:
  fixes s :: logged_server
  shows "join_all names s = Inr s' \<Longrightarrow> heard [] s s'"
proof (induction names arbitrary: s)
  case (Cons n names)
  then obtain rc t where t: "IrcServer_sendCmd MSG_JOIN (Some n) s = Inr (rc, t)" "join_all names t = Inr s'"
    by (auto simp: bind_result_eq_Inr)
  then have "heard [] s t"
    by (auto simp: IrcServer_sendCmd_def bind_result_eq_Inr sendRawCmd_heard split: if_splits)
  with Cons.IH [OF t(2)] show ?case by (blast intro: heard_trans)
qed simp

interpretation join_listener: listener "join_raise names"
proof
  fix ev s s'
  assume "join_raise names ev s = Inr s'"
  then show "heard (event_messages ev) s s'"
    by (auto simp: join_raise_def join_all_heard log_listener.hears split: if_splits)
qed

section \<open>The messages of the stream\<close>

fun recv_chunks :: "(srv_event \<Rightarrow> 'x IrcServer_scheme \<Rightarrow> 'x IrcServer_scheme result) \<Rightarrow> nat \<Rightarrow> char list list
    \<Rightarrow> 'x IrcServer_scheme \<Rightarrow> 'x IrcServer_scheme result" where
  "recv_chunks raise conn [] self = Inr self"
| "recv_chunks raise conn (data # chunks) self =
     bind_result (connDataReceived raise None (\<lambda>_. None) conn data self) (recv_chunks raise conn chunks)"

text \<open>No chunk and no unfinished line is longer than the connection's buffer.\<close>

fun stream_fits :: "string \<Rightarrow> char list list \<Rightarrow> bool" where
  "stream_fits r [] = True"
| "stream_fits r (data # chunks) =
     (length data \<le> 4096 \<and> length (snd (crlf_split (r @ data))) \<le> 4096
      \<and> stream_fits (snd (crlf_split (r @ data))) chunks)"

lemma recv_chunks_log:
  "recv_ok s \<Longrightarrow> no_crlf (pending_bytes s) \<Longrightarrow> s_conn s = Some conn \<Longrightarrow> s_connst s > 0 \<Longrightarrow> stream_fits (pending_bytes s) chunks \<Longrightarrow>
    recv_chunks log_raise conn chunks s = Inr s' \<Longrightarrow>
    l_log s' = l_log s @ stream_messages (pending_bytes s @ concat chunks)
    \<and> pending_bytes s' = snd (crlf_split (pending_bytes s @ concat chunks))"
proof (induction chunks arbitrary: s)
  case Nil
  then show ?case by (simp add: stream_messages_def crlf_split_none)
next
  case (Cons data chunks)
  obtain s1 where s1: "connDataReceived log_raise None (\<lambda>_. None) conn data s = Inr s1"
      "recv_chunks log_raise conn chunks s1 = Inr s'"
    using Cons.prems(6) by (auto simp: bind_result_eq_Inr)
  have f: "length data \<le> 4096" "length (snd (crlf_split (pending_bytes s @ data))) \<le> 4096"
      "stream_fits (snd (crlf_split (pending_bytes s @ data))) chunks"
    using Cons.prems(5) by simp_all
  note h = log_listener.connDataReceived_hears [OF Cons.prems(1) f(1) Cons.prems(3) s1(1)]
  have r: "l_log s1 = l_log s @ stream_messages (pending_bytes s @ data)"
      "pending_bytes s1 = snd (crlf_split (pending_bytes s @ data))" "s_conn s1 = Some conn" "s_connst s1 > 0"
    using h(4) h(5) [OF f(2)] h(2) h(3) Cons.prems(3,4) by (simp_all add: talks_def)
  have n: "no_crlf (pending_bytes s1)" unfolding r(2) by (rule crlf_split_rest)
  note ok = h(1)
  from Cons.IH [OF ok n r(3,4) _ s1(2)] r f(3)
  have "l_log s' = l_log s @ stream_messages (pending_bytes s @ data)
      @ stream_messages (snd (crlf_split (pending_bytes s @ data)) @ concat chunks)"
    "pending_bytes s' = snd (crlf_split (snd (crlf_split (pending_bytes s @ data)) @ concat chunks))"
    by simp_all
  then show ?case
    using stream_messages_append [of "pending_bytes s @ data" "concat chunks"]
      crlf_split_append [of "pending_bytes s @ data" "concat chunks"] by simp
qed

text \<open>It does not matter how the stream is cut into packets. When data arrives in any
  chunks (of at most 4096 bytes, with no line longer than that), a logged-in server has
  passed on exactly the messages of the concatenated bytes, one per non-empty line and in
  order, and keeps exactly the bytes behind the last line end.\<close>

theorem stream_chunks:
  assumes "recv_ok s" "no_crlf (pending_bytes s)" "s_conn s = Some conn" "s_connst s > 0"
    and "stream_fits (pending_bytes s) chunks" "recv_chunks log_raise conn chunks s = Inr s'"
  shows "l_log s' = l_log s @ stream_messages (pending_bytes s @ concat chunks)
    \<and> pending_bytes s' = snd (crlf_split (pending_bytes s @ concat chunks))"
  using recv_chunks_log [OF assms] .

text \<open>Messages the server does nothing about itself.\<close>

definition quiet_messages :: "unit IrcMessage list \<Rightarrow> bool" where
  "quiet_messages ms \<longleftrightarrow> list_all (\<lambda>m. m_command m \<notin> {RPL_MYINFO, ERR_NICKNAMEINUSE, MSG_PING, MSG_NICK, MSG_JOIN}) ms"

lemma quiet_all: "quiet_messages ms \<Longrightarrow> handle_all log_raise ms s = Inr (s\<lparr>l_log := l_log s @ ms\<rparr>)"
  by (induction ms arbitrary: s) (simp_all add: quiet_messages_def handleMessage_def Let_def log_raise_def)

lemma quiet_data:
  assumes "recv_ok s" "length data \<le> 4096" "s_conn s = Some conn" "quiet_messages (stream_messages (pending_bytes s @ data))"
  shows "\<exists>i b n l. connDataReceived log_raise pwuid pwnam conn data s =
    (let t = s\<lparr>s_idleticks := i, s_recvbuf := b, s_recvbufsz := n, l_log := l\<rparr>
     in if s_connst s = -1 then send_login pwuid pwnam t else Inr t)"
proof -
  obtain buf where buf: "recv_store (s_recvbuf s) (s_recvbufsz s) data = Inr buf" "length buf = RECVBUFSZ"
      "line_at buf 0 (s_recvbufsz s + length data) = pending_bytes s @ data"
    using recv_store_ok [OF assms(1,2)] by blast
  let ?n = "s_recvbufsz s + length data"
  have n: "?n \<le> length buf" using assms(1,2) buf(2) by (simp add: recv_ok_def)
  let ?s1 = "s\<lparr>s_idleticks := 180, s_recvbuf := buf, s_recvbufsz := ?n\<rparr>"
  let ?l = "l_log s @ stream_messages (pending_bytes s @ data)"
  let ?pos = "?n - length (snd (crlf_split (pending_bytes s @ data)))"
  have "connDataReceived log_raise pwuid pwnam conn data s = (let t = recv_keep ?pos (?s1\<lparr>l_log := ?l\<rparr>)
      in if s_connst s = -1 then send_login pwuid pwnam t else Inr t)"
    using receive_loop_messages [OF n, of 0 log_raise ?s1] quiet_all [OF assms(4), of ?s1] buf assms(3)
    by (simp add: connDataReceived_def recv_keep_other Let_def)
  moreover let ?k = "recv_keep ?pos (?s1\<lparr>l_log := ?l\<rparr>)"
  have "?k = s\<lparr>s_idleticks := 180, s_recvbuf := s_recvbuf ?k, s_recvbufsz := s_recvbufsz ?k, l_log := ?l\<rparr>"
    by (simp add: recv_keep_def)
  ultimately show ?thesis by metis
qed

lemma quiet_chunk:
  assumes "recv_ok s" "length data \<le> 4096" "s_conn s = Some conn" "s_connst s > 0"
    and "quiet_messages (stream_messages (pending_bytes s @ data))"
  shows "\<exists>s'. connDataReceived log_raise None (\<lambda>_. None) conn data s = Inr s'"
  using quiet_data [OF assms(1-3,5), of None "\<lambda>_. None"] assms(4) by auto

theorem stream_chunks_witness:
  "\<exists>s'. recv_chunks log_raise 7 [''NOTICE a :b'' @ [CR], [LF] @ ''QU''] idle_server = Inr s'
     \<and> map m_command (l_log s') = [MSG_NOTICE] \<and> pending_bytes s' = ''QU''"
proof -
  let ?c1 = "''NOTICE a :b'' @ [CR]" and ?c2 = "[LF] @ ''QU''"
  have m: "stream_messages ?c1 = []" "crlf_split ?c1 = ([], ?c1)"
      "map m_command (stream_messages (?c1 @ ?c2)) = [MSG_NOTICE]" "snd (crlf_split (?c1 @ ?c2)) = ''QU''"
    by code_simp+
  obtain s1 where s1: "connDataReceived log_raise None (\<lambda>_. None) 7 ?c1 idle_server = Inr s1"
    using quiet_chunk [of idle_server ?c1 7] m by (auto simp: quiet_messages_def)
  note r = log_listener.connDataReceived_hears [of idle_server ?c1 7, OF _ _ _ s1]
  have p1: "pending_bytes s1 = ?c1" "s_conn s1 = Some 7" "s_connst s1 > 0" using r m by (simp_all add: talks_def)
  have ok: "recv_ok s1" using r by simp
  have "quiet_messages (stream_messages (pending_bytes s1 @ ?c2))"
    using m(3) unfolding p1 quiet_messages_def by (cases "stream_messages (?c1 @ ?c2)") auto
  from quiet_chunk [OF ok _ p1(2,3) this] obtain s2 where s2: "connDataReceived log_raise None (\<lambda>_. None) 7 ?c2 s1 = Inr s2"
    by auto
  have run: "recv_chunks log_raise 7 [?c1, ?c2] idle_server = Inr s2" using s1 s2 by simp
  have fits: "stream_fits (pending_bytes idle_server) [?c1, ?c2]" using m by simp
  have c: "concat [?c1, ?c2] = ?c1 @ ?c2" by simp
  from stream_chunks [OF _ _ _ _ fits run]
  have "l_log s2 = stream_messages (?c1 @ ?c2)" "pending_bytes s2 = snd (crlf_split (?c1 @ ?c2))"
    unfolding c by simp_all
  then have "map m_command (l_log s2) = [MSG_NOTICE]" "pending_bytes s2 = ''QU''" by (simp_all only: m)
  with run show ?thesis by - (rule exI [of _ s2], intro conjI, assumption+)
qed

end
