(* ===== verification/Conn.thy ===== *)
theory Conn
  imports ObjQueue Client
begin

text \<open>
  \<open>src/lib/ircbot/connection.c\<close>: the ring of write records, reading, the TLS handshake, the
  timers of a connection attempt, the lookup of the peer's name, closing and the deferred
  deletion. The state is a record whose extension is the rest of the program; an event of the
  connection is raised by the parameter \<open>raise\<close>. Which descriptors and timers are registered
  with the service is part of the state, and so are the two globals of the file and the
  blacklist. What the kernel and the TLS library answer are arguments. A connection without
  TLS has \<open>tls\<close> null and runs the other branches.
\<close>

section \<open>State\<close>

abbreviation (input) NWRITERECS :: nat where "NWRITERECS \<equiv> 16"
abbreviation (input) CONNBUFSZ :: nat where "CONNBUFSZ \<equiv> 4096"
abbreviation (input) CONNTICKS :: int where "CONNTICKS \<equiv> 6"

record WriteRecord =
  wrbuf :: "char list"      \<comment> \<open>its length is \<open>wrbuflen\<close>\<close>
  wr_id :: "nat option"
  wrbufpos :: nat

datatype createmode = CCM_NORMAL | CCM_WAIT | CCM_CONNECTING

text \<open>\<open>SSL_ERROR_WANT_READ\<close> and \<open>SSL_ERROR_WANT_WRITE\<close>; the value 0 of a state is \<open>None\<close>.\<close>

datatype ssl_want = WANT_READ | WANT_WRITE

text \<open>The argument of \<open>closed\<close>: whether it is the connection and not null.\<close>

datatype conn_ev = EvConnConnected | EvConnClosed bool | EvDataReceived "char list" | EvDataSent nat

datatype conn_call = CtxNew | CtxFree | SslShutdown | SslFree | PoolEnqueue nat | PoolCancel nat | DataDeleter nat

record Connection =
  c_writerecs :: "WriteRecord array"
  c_nrecs :: nat
  c_baserecidx :: nat
  c_connecting :: int
  c_handling :: bool
  c_tls :: bool                    \<comment> \<open>whether \<open>tls\<close> is not null\<close>
  c_connect_st :: "ssl_want option"
  c_read_st :: "ssl_want option"
  c_write_st :: "ssl_want option"
  c_connect_ticks :: int
  c_addr :: "string option"
  c_name :: "string option"
  c_resolveJob :: "nat option"
  c_sa :: "address option"         \<comment> \<open>\<open>resolveArgs\<close>: \<open>None\<close> when not initialised, the length is \<open>addrlen\<close>\<close>
  c_data :: "nat option"           \<comment> \<open>the data, when it has a deleter\<close>
  c_deleteScheduled :: nat
  c_handlers :: bool               \<comment> \<open>\<open>readConnection\<close> and \<open>writeConnection\<close> are registered\<close>
  c_readreg :: bool                \<comment> \<open>the descriptor is registered for reading\<close>
  c_writereg :: bool
  c_tickreg :: bool                \<comment> \<open>\<open>checkPendingConnection\<close> is registered\<close>
  c_tlstickreg :: bool             \<comment> \<open>\<open>checkPendingTls\<close> is registered\<close>
  c_donereg :: nat                 \<comment> \<open>registrations of \<open>deleteConnection\<close>\<close>
  c_closes :: nat                  \<comment> \<open>how often the descriptor was closed\<close>
  c_frees :: nat                   \<comment> \<open>how often the object was freed\<close>
  c_wire :: "char list"            \<comment> \<open>the bytes the kernel or the TLS library took\<close>
  c_calls :: "conn_call list"
  c_tls_ctx :: bool                \<comment> \<open>the globals\<close>
  c_tls_nconn :: nat
  c_blacklist :: "BlacklistEntry list"

text \<open>
  The answer to \<open>write\<close> and \<open>SSL_write_ex\<close> (the number of bytes), to \<open>read\<close> and \<open>SSL_read_ex\<close>
  (the bytes) and to \<open>SSL_connect\<close>. Without TLS, \<open>Again\<close> stands for \<open>EWOULDBLOCK\<close> and \<open>EAGAIN\<close>,
  and \<open>Broken\<close> for any other error and for the end of the stream.
\<close>

datatype 'r answer = Ready 'r | Again ssl_want | Broken

definition log_conn :: "conn_call \<Rightarrow> 'x Connection_scheme \<Rightarrow> 'x Connection_scheme" where
  "log_conn k self = self\<lparr>c_calls := c_calls self @ [k]\<rparr>"

definition ssl_wants :: "ssl_want \<Rightarrow> 'x Connection_scheme \<Rightarrow> bool" where
  "ssl_wants w self \<longleftrightarrow> c_connect_st self = Some w \<or> c_read_st self = Some w \<or> c_write_st self = Some w"

definition wantreadwrite :: "'x Connection_scheme \<Rightarrow> 'x Connection_scheme" where
  "wantreadwrite self =
     (let self = (if c_connecting self \<noteq> 0 \<or> ssl_wants WANT_WRITE self \<or> c_nrecs self \<noteq> 0
                  then self\<lparr>c_writereg := True\<rparr> else self\<lparr>c_writereg := False\<rparr>)
      in if ssl_wants WANT_READ self \<or> \<not> c_handling self
         then self\<lparr>c_readreg := True\<rparr> else self\<lparr>c_readreg := False\<rparr>)"

text \<open>Loading a client certificate is logged only, whether it succeeds or not, and left out.\<close>

definition Connection_create :: "createmode \<Rightarrow> bool \<Rightarrow> 'x Connection_scheme \<Rightarrow> 'x Connection_scheme" where
  "Connection_create mode tls mem =
     (let self = mem\<lparr>c_writerecs := uninit NWRITERECS, c_resolveJob := None, c_connecting := 0, c_addr := None,
                     c_name := None, c_data := None, c_sa := None, c_donereg := 0, c_closes := 0, c_frees := 0,
                     c_wire := [], c_readreg := False, c_writereg := False, c_tickreg := False, c_tlstickreg := False\<rparr>;
          self = (if tls
                  then (let self = (if c_tls_ctx self then self else log_conn CtxNew (self\<lparr>c_tls_ctx := True\<rparr>))
                        in self\<lparr>c_tls_nconn := c_tls_nconn self + 1, c_tls := True\<rparr>)
                  else self\<lparr>c_tls := False\<rparr>);
          self = self\<lparr>c_connect_st := None, c_read_st := None, c_write_st := None, c_handling := False,
                      c_deleteScheduled := 0, c_nrecs := 0, c_baserecidx := 0, c_handlers := True\<rparr>
      in case mode of
           CCM_CONNECTING \<Rightarrow> self\<lparr>c_connecting := CONNTICKS, c_tickreg := True, c_writereg := True\<rparr>
         | CCM_NORMAL \<Rightarrow> self\<lparr>c_readreg := True\<rparr>
         | CCM_WAIT \<Rightarrow> self)"

section \<open>The name of the peer\<close>

definition Connection_remoteAddr :: "'x Connection_scheme \<Rightarrow> string" where
  "Connection_remoteAddr self = (case c_addr self of None \<Rightarrow> ''<unknown>'' | Some a \<Rightarrow> a)"

text \<open>\<open>rc\<close> and \<open>host\<close> are the answer of \<open>getnameinfo\<close>, \<open>job\<close> the job that is created.\<close>

definition Connection_setRemoteAddr :: "address \<Rightarrow> bool \<Rightarrow> int \<Rightarrow> string \<Rightarrow> bool \<Rightarrow> nat
    \<Rightarrow> 'x Connection_scheme \<Rightarrow> 'x Connection_scheme" where
  "Connection_setRemoteAddr addr numericOnly rc host active job self =
     (let self = self\<lparr>c_addr := None, c_name := None\<rparr> in
      if rc \<ge> 0
      then (let self = self\<lparr>c_addr := Some host\<rparr> in
            if c_resolveJob self = None
            then (let self = self\<lparr>c_sa := Some addr\<rparr> in
                  if \<not> numericOnly \<and> active
                  then log_conn (PoolEnqueue job) (self\<lparr>c_resolveJob := Some job\<rparr>) else self)
            else self)
      else self)"

definition Connection_setRemoteAddrStr :: "string \<Rightarrow> 'x Connection_scheme \<Rightarrow> 'x Connection_scheme" where
  "Connection_setRemoteAddrStr addr self = self\<lparr>c_addr := Some addr, c_name := None\<rparr>"

definition Connection_remoteHost :: "'x Connection_scheme \<Rightarrow> string option" where
  "Connection_remoteHost self = c_name self"

text \<open>
  The job looks up the copied address; its arguments are uninitialised when none was copied. \<open>getnameinfo\<close> is a
  parameter.
\<close>

definition resolveRemoteAddrProc :: "(address \<Rightarrow> int \<times> string) \<Rightarrow> 'x Connection_scheme \<Rightarrow> (int \<times> string) result" where
  "resolveRemoteAddrProc getnameinfo self = (case c_sa self of None \<Rightarrow> Inl Indeterminate | Some sa \<Rightarrow> Inr (getnameinfo sa))"

text \<open>\<open>rc\<close> and \<open>name\<close> are what the job left in its arguments.\<close>

definition resolveRemoteAddrFinished :: "bool \<Rightarrow> int \<Rightarrow> string \<Rightarrow> 'x Connection_scheme \<Rightarrow> 'x Connection_scheme result" where
  "resolveRemoteAddrFinished hasCompleted rc name self =
     bind_result
       (if hasCompleted \<and> rc \<ge> 0
        then (case c_addr self of
                None \<Rightarrow> Inl NullDeref
              | Some a \<Rightarrow> Inr (if name \<noteq> a then self\<lparr>c_name := Some name\<rparr> else self))
        else Inr self)
       (\<lambda>self. Inr (self\<lparr>c_resolveJob := None\<rparr>))"

text \<open>Data of the owner, with the function that deletes it.\<close>

definition delete_data :: "'x Connection_scheme \<Rightarrow> 'x Connection_scheme" where
  "delete_data self = (case c_data self of None \<Rightarrow> self | Some d \<Rightarrow> log_conn (DataDeleter d) self)"

definition Connection_setData :: "nat option \<Rightarrow> 'x Connection_scheme \<Rightarrow> 'x Connection_scheme" where
  "Connection_setData d self = (delete_data self)\<lparr>c_data := d\<rparr>"

section \<open>Closing and deleting\<close>

definition deleteLater :: "'x Connection_scheme \<Rightarrow> 'x Connection_scheme" where
  "deleteLater self =
     (if c_deleteScheduled self = 0
      then self\<lparr>c_closes := c_closes self + 1, c_donereg := c_donereg self + 1, c_deleteScheduled := 1\<rparr>
      else self)"

definition Connection_close :: "(conn_ev \<Rightarrow> 'x Connection_scheme \<Rightarrow> 'x Connection_scheme) \<Rightarrow> bool
    \<Rightarrow> 'x Connection_scheme \<Rightarrow> 'x Connection_scheme result" where
  "Connection_close raise blacklist self =
     (let self = (if c_tls self \<and> c_connecting self = 0 \<and> c_connect_st self = None then log_conn SslShutdown self else self) in
      bind_result
        (if blacklist
         then (case c_sa self of
                 None \<Rightarrow> Inl Indeterminate
               | Some a \<Rightarrow> Inr (if length a \<noteq> 0
                   then self\<lparr>c_blacklist := Connection_blacklistAddress a (c_blacklist self)\<rparr> else self))
         else Inr self)
        (\<lambda>self. Inr (deleteLater (raise (EvConnClosed (c_connecting self = 0)) self))))"

text \<open>The loop of the destructor over the records that wait: each with an id is reported as sent.\<close>

fun destroy_recs :: "(conn_ev \<Rightarrow> 'x Connection_scheme \<Rightarrow> 'x Connection_scheme) \<Rightarrow> nat
    \<Rightarrow> 'x Connection_scheme \<Rightarrow> 'x Connection_scheme result option" where
  "destroy_recs raise 0 self = (if c_nrecs self = 0 then Some (Inr self) else None)"
| "destroy_recs raise (Suc fuel) self =
     (if c_nrecs self = 0 then Some (Inr self)
      else (case c_writerecs self ! c_baserecidx self of
              None \<Rightarrow> Some (Inl Indeterminate)
            | Some rec \<Rightarrow>
                let self = (case wr_id rec of None \<Rightarrow> self | Some i \<Rightarrow> raise (EvDataSent i) self);
                    base = c_baserecidx self + 1;
                    self = self\<lparr>c_baserecidx := (if base = NWRITERECS then 0 else base), c_nrecs := c_nrecs self - 1\<rparr>
                in destroy_recs raise fuel self))"

text \<open>
  The rest of the destructor. A job that still waits in the pool's queue is ended by
  \<open>ThreadPool_cancel\<close> at once, which calls \<open>resolveRemoteAddrFinished\<close>.
\<close>

definition cancel_resolve :: "bool \<Rightarrow> 'x Connection_scheme \<Rightarrow> 'x Connection_scheme result" where
  "cancel_resolve queued self =
     (case c_resolveJob self of
        None \<Rightarrow> Inr self
      | Some job \<Rightarrow>
          let self = log_conn (PoolCancel job) self in
          bind_result (if queued then resolveRemoteAddrFinished False 0 [] self else Inr self)
            (\<lambda>self. case c_resolveJob self of None \<Rightarrow> Inl NullDeref | Some job \<Rightarrow> Inr self))"

definition Connection_destroy :: "(conn_ev \<Rightarrow> 'x Connection_scheme \<Rightarrow> 'x Connection_scheme) \<Rightarrow> bool \<Rightarrow> nat
    \<Rightarrow> 'x Connection_scheme \<Rightarrow> 'x Connection_scheme result option" where
  "Connection_destroy raise queued fuel self =
     (if c_deleteScheduled self = 1 then Some (Inr self)
      else map_option (\<lambda>r. bind_result r (\<lambda>self.
             let self = (if c_deleteScheduled self \<noteq> 0 then self\<lparr>c_donereg := c_donereg self - 1\<rparr>
                         else self\<lparr>c_closes := c_closes self + 1\<rparr>);
                 self = (if c_tls self then log_conn SslFree self else self);
                 n = c_tls_nconn self;
                 self = (if n \<noteq> 0
                         then (if n = 1 then log_conn CtxFree (self\<lparr>c_tls_nconn := 0, c_tls_ctx := False\<rparr>)
                               else self\<lparr>c_tls_nconn := n - 1\<rparr>)
                         else self);
                 self = self\<lparr>c_tlstickreg := False, c_tickreg := False, c_handlers := False\<rparr>
             in bind_result (cancel_resolve queued self) (\<lambda>self.
                  Inr ((delete_data self)\<lparr>c_frees := c_frees self + 1\<rparr>))))
           (destroy_recs raise fuel (self\<lparr>c_readreg := False, c_writereg := False\<rparr>)))"

definition deleteConnection :: "(conn_ev \<Rightarrow> 'x Connection_scheme \<Rightarrow> 'x Connection_scheme) \<Rightarrow> bool \<Rightarrow> nat
    \<Rightarrow> 'x Connection_scheme \<Rightarrow> 'x Connection_scheme result option" where
  "deleteConnection raise queued fuel self = Connection_destroy raise queued fuel (self\<lparr>c_deleteScheduled := 2\<rparr>)"

section \<open>Connecting\<close>

text \<open>The two handlers of the service's tick.\<close>

definition checkPendingConnection :: "(conn_ev \<Rightarrow> 'x Connection_scheme \<Rightarrow> 'x Connection_scheme)
    \<Rightarrow> 'x Connection_scheme \<Rightarrow> 'x Connection_scheme result" where
  "checkPendingConnection raise self =
     (if c_connecting self \<noteq> 0
      then (let self = self\<lparr>c_connecting := c_connecting self - 1\<rparr> in
            if c_connecting self = 0 then Connection_close raise True (self\<lparr>c_writereg := False\<rparr>) else Inr self)
      else Inr self)"

definition checkPendingTls :: "(conn_ev \<Rightarrow> 'x Connection_scheme \<Rightarrow> 'x Connection_scheme)
    \<Rightarrow> 'x Connection_scheme \<Rightarrow> 'x Connection_scheme result" where
  "checkPendingTls raise self =
     (if c_connect_ticks self \<noteq> 0
      then (let self = self\<lparr>c_connect_ticks := c_connect_ticks self - 1\<rparr> in
            if c_connect_ticks self = 0 then Connection_close raise True self else Inr self)
      else Inr self)"

definition dohandshake :: "(conn_ev \<Rightarrow> 'x Connection_scheme \<Rightarrow> 'x Connection_scheme) \<Rightarrow> unit answer
    \<Rightarrow> 'x Connection_scheme \<Rightarrow> 'x Connection_scheme result" where
  "dohandshake raise ans self =
     (case ans of
        Ready _ \<Rightarrow>
          let self = self\<lparr>c_connect_st := None, c_tlstickreg := False, c_connect_ticks := 0\<rparr>
          in Inr (wantreadwrite (raise EvConnConnected self))
      | Again w \<Rightarrow> Inr (wantreadwrite (self\<lparr>c_connect_st := Some w\<rparr>))
      | Broken \<Rightarrow> Connection_close raise True (self\<lparr>c_tlstickreg := False\<rparr>))"

section \<open>Writing\<close>

text \<open>\<open>Connection_write\<close>: a new record behind those that wait, unless the ring is full.\<close>

definition Connection_write :: "char list \<Rightarrow> nat option \<Rightarrow> 'x Connection_scheme \<Rightarrow> int \<times> 'x Connection_scheme" where
  "Connection_write buf i self =
     (if c_nrecs self = NWRITERECS then (-1, self)
      else let at = (c_baserecidx self + c_nrecs self) mod NWRITERECS in
           (0, wantreadwrite (self\<lparr>c_writerecs := (c_writerecs self)[at := Some \<lparr>wrbuf = buf, wr_id = i, wrbufpos = 0\<rparr>],
                                   c_nrecs := c_nrecs self + 1\<rparr>)))"

definition dowrite :: "(conn_ev \<Rightarrow> 'x Connection_scheme \<Rightarrow> 'x Connection_scheme) \<Rightarrow> nat answer
    \<Rightarrow> 'x Connection_scheme \<Rightarrow> 'x Connection_scheme result" where
  "dowrite raise ans self =
     (case c_writerecs self ! c_baserecidx self of
        None \<Rightarrow> Inl Indeterminate
      | Some rec \<Rightarrow>
          let rest = length (wrbuf rec) - wrbufpos rec in
          (case ans of
             Ready n \<Rightarrow>
               let self = self\<lparr>c_wire := c_wire self @ take n (drop (wrbufpos rec) (wrbuf rec))\<rparr>;
                   self = (if c_tls self then self\<lparr>c_write_st := None\<rparr> else self) in
               if n < rest
               then (let self = self\<lparr>c_writerecs := (c_writerecs self)[c_baserecidx self := Some (rec\<lparr>wrbufpos := wrbufpos rec + n\<rparr>)]\<rparr>
                     in Inr (if c_tls self then wantreadwrite self else self))
               else (let base = c_baserecidx self + 1;
                         self = self\<lparr>c_baserecidx := (if base = NWRITERECS then 0 else base), c_nrecs := c_nrecs self - 1\<rparr>;
                         sent = (\<lambda>self. case wr_id rec of None \<Rightarrow> self | Some i \<Rightarrow> raise (EvDataSent i) self)
                     in Inr (if c_tls self then wantreadwrite (sent self) else sent (wantreadwrite self)))
           | Again w \<Rightarrow> Inr (if c_tls self then wantreadwrite (self\<lparr>c_write_st := Some w\<rparr>) else self)
           | Broken \<Rightarrow> Connection_close raise False self))"

section \<open>Reading\<close>

text \<open>Of the bytes that are there, a read takes as many as fit into the buffer.\<close>

definition doread :: "(conn_ev \<Rightarrow> 'x Connection_scheme \<Rightarrow> 'x Connection_scheme) \<Rightarrow> char list answer
    \<Rightarrow> 'x Connection_scheme \<Rightarrow> 'x Connection_scheme result" where
  "doread raise ans self =
     (case ans of
        Ready data \<Rightarrow>
          let self = (if c_tls self then self\<lparr>c_read_st := None\<rparr> else self)
          in Inr (wantreadwrite (raise (EvDataReceived (take CONNBUFSZ data)) self))
      | Again w \<Rightarrow> Inr (if c_tls self then wantreadwrite (self\<lparr>c_read_st := Some w\<rparr>) else self)
      | Broken \<Rightarrow> Connection_close raise False self)"

section \<open>The handlers of the descriptor\<close>

text \<open>What the system would answer to each call a handler may make.\<close>

record sys_answers =
  sa_failed :: bool               \<comment> \<open>\<open>getsockopt\<close> fails or reports an error\<close>
  sa_handshake :: "unit answer"
  sa_write :: "nat answer"
  sa_read :: "char list answer"

definition writeConnection :: "(conn_ev \<Rightarrow> 'x Connection_scheme \<Rightarrow> 'x Connection_scheme) \<Rightarrow> sys_answers
    \<Rightarrow> 'x Connection_scheme \<Rightarrow> 'x Connection_scheme result" where
  "writeConnection raise sa self =
     (if c_connecting self \<noteq> 0
      then (let self = self\<lparr>c_tickreg := False\<rparr> in
            if sa_failed sa then Connection_close raise True self
            else let self = self\<lparr>c_connecting := 0\<rparr> in
                 if c_tls self
                 then dohandshake raise (sa_handshake sa) (self\<lparr>c_connect_ticks := CONNTICKS, c_tlstickreg := True\<rparr>)
                 else Inr (raise EvConnConnected (wantreadwrite self)))
      else if c_connect_st self = Some WANT_WRITE then dohandshake raise (sa_handshake sa) self
      else if c_read_st self = Some WANT_WRITE then doread raise (sa_read sa) self
      else if c_write_st self = Some WANT_WRITE then dowrite raise (sa_write sa) self
      else if c_nrecs self = 0 then Inr (wantreadwrite self)
      else dowrite raise (sa_write sa) self)"

definition readConnection :: "(conn_ev \<Rightarrow> 'x Connection_scheme \<Rightarrow> 'x Connection_scheme) \<Rightarrow> sys_answers
    \<Rightarrow> 'x Connection_scheme \<Rightarrow> 'x Connection_scheme result" where
  "readConnection raise sa self =
     (if c_connect_st self = Some WANT_READ then dohandshake raise (sa_handshake sa) self
      else if c_read_st self = Some WANT_READ then doread raise (sa_read sa) self
      else if c_write_st self = Some WANT_READ then dowrite raise (sa_write sa) self
      else if c_handling self then Inr self
      else doread raise (sa_read sa) self)"

definition Connection_activate :: "'x Connection_scheme \<Rightarrow> 'x Connection_scheme" where
  "Connection_activate self = (if c_handling self then self else wantreadwrite self)"

definition Connection_confirmDataReceived :: "'x Connection_scheme \<Rightarrow> int \<times> 'x Connection_scheme" where
  "Connection_confirmDataReceived self =
     (if \<not> c_handling self then (-1, self) else (0, Connection_activate (self\<lparr>c_handling := False\<rparr>)))"

end
