(* ===== verification/ConnUser.thy ===== *)
theory ConnUser
  imports Conn
begin

text \<open>
  A connection and the code that uses it. The user has a state of its own; it reacts to the
  events of the connection and acts by itself. The locale \<open>conn_user\<close> is the contract between
  the two: what a user has to keep, for what a connection keeps of its own: the bytes and
  confirmations in order, the read buffer, registrations and timers.
\<close>

section \<open>The ring of write records\<close>

definition rec_cell :: "'x Connection_scheme \<Rightarrow> nat \<Rightarrow> WriteRecord option" where
  "rec_cell c i = c_writerecs c ! ((c_baserecidx c + i) mod NWRITERECS)"

definition rec_cells :: "'x Connection_scheme \<Rightarrow> WriteRecord option list" where
  "rec_cells c = map (rec_cell c) [0..<c_nrecs c]"

definition recs :: "'x Connection_scheme \<Rightarrow> WriteRecord list" where
  "recs c = map the (rec_cells c)"

definition ring_ok :: "'x Connection_scheme \<Rightarrow> bool" where
  "ring_ok c \<longleftrightarrow> length (c_writerecs c) = NWRITERECS \<and> c_baserecidx c < NWRITERECS \<and> c_nrecs c \<le> NWRITERECS
     \<and> None \<notin> set (rec_cells c)"

text \<open>The bytes of the records not yet taken by the kernel, and the ids not yet reported.\<close>

definition unsent :: "'x Connection_scheme \<Rightarrow> char list" where
  "unsent c = concat (map (\<lambda>r. drop (wrbufpos r) (wrbuf r)) (recs c))"

lemma rec_cells_cong:
  "c_writerecs c = c_writerecs d \<Longrightarrow> c_baserecidx c = c_baserecidx d \<Longrightarrow> c_nrecs c = c_nrecs d \<Longrightarrow> rec_cells c = rec_cells d"
  by (simp add: rec_cells_def rec_cell_def)

lemma wantreadwrite_regs:
  "wantreadwrite c = c\<lparr>c_writereg := (c_connecting c \<noteq> 0 \<or> ssl_wants WANT_WRITE c \<or> c_nrecs c \<noteq> 0),
     c_readreg := (ssl_wants WANT_READ c \<or> \<not> c_handling c)\<rparr>"
proof -
  have [simp]: "ssl_wants w (c\<lparr>c_writereg := b\<rparr>) = ssl_wants w c" for w b by (simp add: ssl_wants_def)
  show ?thesis by (simp add: wantreadwrite_def Let_def)
qed

lemma put_cells:
  fixes r :: WriteRecord and c :: "'x Connection_scheme"
  assumes "ring_ok c" "c_nrecs c \<noteq> NWRITERECS"
  defines "d \<equiv> c\<lparr>c_writerecs := (c_writerecs c)[(c_baserecidx c + c_nrecs c) mod NWRITERECS := Some r], c_nrecs := c_nrecs c + 1\<rparr>"
  shows "rec_cells d = rec_cells c @ [Some r]"
proof -
  have b: "c_baserecidx c < NWRITERECS" "c_nrecs c < NWRITERECS" "length (c_writerecs c) = NWRITERECS"
    using assms(1,2) by (auto simp: ring_ok_def)
  have "rec_cell d i = rec_cell c i" if "i < c_nrecs c" for i
    using ring_distinct [OF b(1) that b(2)] by (simp add: rec_cell_def d_def)
  moreover have "rec_cell d (c_nrecs c) = Some r" using b by (simp add: rec_cell_def d_def)
  ultimately show ?thesis by (simp add: rec_cells_def d_def)
qed

lemma head_cell:
  assumes "ring_ok c" "c_nrecs c \<noteq> 0"
  obtains r rs where "c_writerecs c ! c_baserecidx c = Some r" "recs c = r # rs" "rec_cells c = Some r # map Some rs"
proof -
  have b: "c_baserecidx c < NWRITERECS" using assms(1) by (simp add: ring_ok_def)
  obtain m where m: "c_nrecs c = Suc m" using assms(2) by (cases "c_nrecs c") auto
  have cells: "rec_cells c = rec_cell c 0 # map (\<lambda>i. rec_cell c (Suc i)) [0..<m]"
    unfolding rec_cells_def m by (simp add: upt_conv_Cons map_Suc_upt [symmetric] del: upt_Suc)
  obtain r where r: "rec_cell c 0 = Some r" using assms(1) cells by (cases "rec_cell c 0") (auto simp: ring_ok_def)
  let ?rs = "map the (map (\<lambda>i. rec_cell c (Suc i)) [0..<m])"
  have "rec_cell c (Suc i) \<noteq> None" if "i < m" for i
    using assms(1) that unfolding ring_ok_def cells by (auto simp: image_iff) (metis atLeastLessThan_iff le0 not_None_eq)
  then have "map Some ?rs = map (\<lambda>i. rec_cell c (Suc i)) [0..<m]" by auto
  with that [of r ?rs] r cells b show thesis by (simp add: recs_def rec_cell_def)
qed

lemma pop_cells:
  assumes "ring_ok c" "c_nrecs c \<noteq> 0"
  defines "d \<equiv> c\<lparr>c_baserecidx := (if c_baserecidx c + 1 = NWRITERECS then 0 else c_baserecidx c + 1), c_nrecs := c_nrecs c - 1\<rparr>"
  shows "ring_ok d" "recs d = tl (recs c)"
proof -
  have b: "c_baserecidx c < NWRITERECS" using assms(1) by (simp add: ring_ok_def)
  obtain m where m: "c_nrecs c = Suc m" using assms(2) by (cases "c_nrecs c") auto
  have base: "c_baserecidx d = (c_baserecidx c + 1) mod NWRITERECS" "c_nrecs d = m"
    using wrap_succ [OF b] m by (auto simp: d_def)
  have "rec_cell d i = rec_cell c (Suc i)" for i
    unfolding rec_cell_def base by (simp add: mod_add_left_eq) (simp add: d_def)
  moreover have "rec_cells c = rec_cell c 0 # map (\<lambda>i. rec_cell c (Suc i)) [0..<m]"
    unfolding rec_cells_def m by (simp add: upt_conv_Cons map_Suc_upt [symmetric] del: upt_Suc)
  ultimately have "rec_cells d = tl (rec_cells c)" by (simp add: rec_cells_def base)
  moreover from this have "set (rec_cells d) \<subseteq> set (rec_cells c)" by (cases "rec_cells c") auto
  ultimately show "ring_ok d" "recs d = tl (recs c)"
    using assms(1) m base by (auto simp: ring_ok_def recs_def map_tl d_def)
qed

section \<open>A user of the connection\<close>

text \<open>
  The state of the user, and a record of what was accepted, confirmed and received. The user
  answers an event by keeping the read buffer (only when data arrives), by further calls and by
  a change of its state, all of which may depend on everything that happened so far.
\<close>

record 'u client_conn = Connection +
  cl_user :: 'u
  cl_accepted :: "(char list \<times> nat option) list"
  cl_sent :: "nat list"
  cl_received :: "char list"
  cl_overrun :: bool       \<comment> \<open>data arrived while the read buffer was kept\<close>
  cl_closed :: "bool list"

datatype client_op = CWrite "char list" "nat option" | CActivate | CConfirm

type_synonym 'u reaction = "conn_ev \<Rightarrow> 'u client_conn \<Rightarrow> bool \<times> client_op list \<times> 'u"

fun client_do :: "client_op \<Rightarrow> 'u client_conn \<Rightarrow> 'u client_conn" where
  "client_do (CWrite buf i) c =
     (case Connection_write buf i c of (rc, c) \<Rightarrow> if rc = 0 then c\<lparr>cl_accepted := cl_accepted c @ [(buf, i)]\<rparr> else c)"
| "client_do CActivate c = Connection_activate c"
| "client_do CConfirm c = snd (Connection_confirmDataReceived c)"

fun note_event :: "conn_ev \<Rightarrow> 'u client_conn \<Rightarrow> 'u client_conn" where
  "note_event EvConnConnected c = c"
| "note_event (EvConnClosed b) c = c\<lparr>cl_closed := cl_closed c @ [b]\<rparr>"
| "note_event (EvDataReceived d) c = c\<lparr>cl_received := cl_received c @ d, cl_overrun := cl_overrun c \<or> c_handling c\<rparr>"
| "note_event (EvDataSent i) c = c\<lparr>cl_sent := cl_sent c @ [i]\<rparr>"

fun keep_buffer :: "conn_ev \<Rightarrow> bool \<Rightarrow> 'u client_conn \<Rightarrow> 'u client_conn" where
  "keep_buffer (EvDataReceived d) b c = (if b then c\<lparr>c_handling := True\<rparr> else c)"
| "keep_buffer _ b c = c"

definition client_raise :: "'u reaction \<Rightarrow> conn_ev \<Rightarrow> 'u client_conn \<Rightarrow> 'u client_conn" where
  "client_raise react e c =
     (let c = note_event e c in case react e c of (b, ks, u) \<Rightarrow> fold client_do ks (keep_buffer e b (c\<lparr>cl_user := u\<rparr>)))"

text \<open>
  Everything that can happen to a connection until it is deleted. In an action of its own
  (\<open>OpAct\<close>), the user makes calls, changes its state and may close the connection at last.
\<close>

datatype 'u conn_op =
    OpAct "'u client_conn \<Rightarrow> client_op list \<times> bool option \<times> 'u" | OpWritable sys_answers | OpReadable sys_answers | OpTick
  | OpResolved bool int string | OpClose bool

definition conn_tick :: "'u reaction \<Rightarrow> 'u client_conn \<Rightarrow> 'u client_conn result" where
  "conn_tick react c =
     bind_result (if c_tickreg c then checkPendingConnection (client_raise react) c else Inr c)
       (\<lambda>c. if c_tlstickreg c then checkPendingTls (client_raise react) c else Inr c)"

fun conn_step :: "'u reaction \<Rightarrow> 'u conn_op \<Rightarrow> 'u client_conn \<Rightarrow> 'u client_conn result" where
  "conn_step react (OpAct f) c =
     (case f c of (ks, close, u) \<Rightarrow>
        let c = fold client_do ks (c\<lparr>cl_user := u\<rparr>)
        in case close of None \<Rightarrow> Inr c | Some b \<Rightarrow> Connection_close (client_raise react) b c)"
| "conn_step react (OpWritable sa) c = writeConnection (client_raise react) sa c"
| "conn_step react (OpReadable sa) c = readConnection (client_raise react) sa c"
| "conn_step react OpTick c = conn_tick react c"
| "conn_step react (OpResolved b rc name) c =
     (if c_resolveJob c = None then Inr c else resolveRemoteAddrFinished b rc name c)"
| "conn_step react (OpClose b) c = Connection_close (client_raise react) b c"

fun conn_run :: "'u reaction \<Rightarrow> 'u conn_op list \<Rightarrow> 'u client_conn \<Rightarrow> 'u client_conn result" where
  "conn_run react [] c = Inr c"
| "conn_run react (k # ks) c = bind_result (conn_step react k c) (conn_run react ks)"

text \<open>A new connection whose peer's address has a numeric form.\<close>

definition open_conn :: "createmode \<Rightarrow> bool \<Rightarrow> address \<Rightarrow> string \<Rightarrow> bool \<Rightarrow> bool \<Rightarrow> 'u client_conn \<Rightarrow> 'u client_conn" where
  "open_conn mode tls addr host numeric active mem =
     Connection_setRemoteAddr addr numeric 0 host active 0
       (Connection_create mode tls (mem\<lparr>cl_accepted := [], cl_sent := [], cl_received := [], cl_overrun := False, cl_closed := []\<rparr>))"

section \<open>The invariant\<close>

definition the_ids :: "nat option list \<Rightarrow> nat list" where
  "the_ids ns = map the (filter (\<lambda>i. i \<noteq> None) ns)"

lemma the_ids_simps [simp]:
  "the_ids [] = []" "the_ids (i # ns) = (case i of None \<Rightarrow> [] | Some n \<Rightarrow> [n]) @ the_ids ns"
  "the_ids (ns @ ms) = the_ids ns @ the_ids ms"
  by (simp_all add: the_ids_def split: option.split)

definition ids :: "(char list \<times> nat option) list \<Rightarrow> nat list" where
  "ids acc = the_ids (map snd acc)"

text \<open>The records that wait are the last of the accepted writes, and the ids of the others were reported.\<close>

definition stream_ok :: "'u client_conn \<Rightarrow> bool" where
  "stream_ok c \<longleftrightarrow> ring_ok c \<and> c_wire c @ unsent c = concat (map fst (cl_accepted c))
     \<and> (\<exists>ns. map snd (cl_accepted c) = ns @ map wr_id (recs c) \<and> cl_sent c = the_ids ns)"

text \<open>What the user keeps: a condition on its state and on what it knows of the connection.\<close>

type_synonym 'u history = "'u \<Rightarrow> (char list \<times> nat option) list \<Rightarrow> nat list \<Rightarrow> char list \<Rightarrow> bool list \<Rightarrow> bool"

definition history_ok :: "'u history \<Rightarrow> 'u client_conn \<Rightarrow> bool" where
  "history_ok P c \<longleftrightarrow> P (cl_user c) (cl_accepted c) (cl_sent c) (cl_received c) (cl_closed c)"

definition states_ok :: "'u client_conn \<Rightarrow> bool" where
  "states_ok c \<longleftrightarrow> (c_write_st c \<noteq> None \<longrightarrow> c_nrecs c \<noteq> 0 \<and> c_tls c) \<and> (c_handling c \<or> \<not> c_tls c \<longrightarrow> c_read_st c = None) \<and> \<not> cl_overrun c
     \<and> c_sa c \<noteq> None \<and> c_addr c \<noteq> None \<and> c_deleteScheduled c \<le> 1 \<and> c_closes c = c_deleteScheduled c
     \<and> c_donereg c = c_deleteScheduled c \<and> c_frees c = 0 \<and> c_handlers c \<and> (c_deleteScheduled c \<noteq> 0 \<longrightarrow> cl_closed c \<noteq> [])"

text \<open>Until it is closed, a connection that waits for something is registered for it.\<close>

definition waits_ok :: "'u client_conn \<Rightarrow> bool" where
  "waits_ok c \<longleftrightarrow>
     ((c_connecting c \<noteq> 0 \<or> ssl_wants WANT_WRITE c \<or> c_nrecs c \<noteq> 0) \<longrightarrow> c_writereg c) \<and> (ssl_wants WANT_READ c \<longrightarrow> c_readreg c)"

definition timers_ok :: "'u client_conn \<Rightarrow> bool" where
  "timers_ok c \<longleftrightarrow> (c_connecting c \<noteq> 0 \<longrightarrow> c_tickreg c) \<and> (c_connect_st c \<noteq> None \<longrightarrow> c_tlstickreg c \<and> c_connect_ticks c \<noteq> 0)"

definition live_ok :: "'u client_conn \<Rightarrow> bool" where
  "live_ok c \<longleftrightarrow> (c_deleteScheduled c = 0 \<longrightarrow> waits_ok c \<and> timers_ok c)"

definition conn_ok :: "'u history \<Rightarrow> 'u client_conn \<Rightarrow> bool" where
  "conn_ok P c \<longleftrightarrow> stream_ok c \<and> states_ok c \<and> history_ok P c"

definition good :: "'u history \<Rightarrow> 'u client_conn \<Rightarrow> bool" where
  "good P c \<longleftrightarrow> conn_ok P c \<and> live_ok c"

definition goes_on :: "'u history \<Rightarrow> 'u client_conn result \<Rightarrow> bool" where
  "goes_on P r \<longleftrightarrow> (\<exists>d. r = Inr d \<and> good P d)"

lemma goes_onI: "good P d \<Longrightarrow> goes_on P (Inr d)"
  by (simp add: goes_on_def)

text \<open>An update of other fields does not matter to the records.\<close>

definition same_recs :: "'u client_conn \<Rightarrow> 'u client_conn \<Rightarrow> bool" where
  "same_recs c d \<longleftrightarrow> c_writerecs d = c_writerecs c \<and> c_baserecidx d = c_baserecidx c \<and> c_nrecs d = c_nrecs c
     \<and> c_wire d = c_wire c \<and> cl_accepted d = cl_accepted c \<and> cl_sent d = cl_sent c"

lemma recs_cong:
  "c_writerecs c = c_writerecs d \<Longrightarrow> c_baserecidx c = c_baserecidx d \<Longrightarrow> c_nrecs c = c_nrecs d \<Longrightarrow> recs c = recs d"
  using rec_cells_cong [of c d] by (simp add: recs_def)

lemma stream_same: "same_recs c d \<Longrightarrow> stream_ok d \<longleftrightarrow> stream_ok c"
  using rec_cells_cong [of d c] by (auto simp: same_recs_def stream_ok_def ring_ok_def unsent_def recs_def)

lemma ssl_wants_regs [simp]:
  "ssl_wants w (c\<lparr>c_readreg := b\<rparr>) = ssl_wants w c" "ssl_wants w (c\<lparr>c_writereg := b\<rparr>) = ssl_wants w c"
  by (simp_all add: ssl_wants_def)

lemma want_stream [simp]: "stream_ok (wantreadwrite c) \<longleftrightarrow> stream_ok c"
  by (rule stream_same) (simp add: wantreadwrite_regs same_recs_def)

lemma want_states [simp]: "states_ok (wantreadwrite c) \<longleftrightarrow> states_ok c"
  by (simp add: wantreadwrite_regs states_ok_def)

lemma want_timers [simp]: "timers_ok (wantreadwrite c) \<longleftrightarrow> timers_ok c"
  by (simp add: wantreadwrite_regs timers_ok_def)

lemma want_waits [simp]: "waits_ok (wantreadwrite c)"
  unfolding wantreadwrite_regs waits_ok_def by simp

section \<open>What the user does keeps the invariant\<close>

lemma write_stream:
  assumes "stream_ok c" "c_nrecs c \<noteq> NWRITERECS"
  shows "stream_ok (c\<lparr>c_writerecs := (c_writerecs c)[(c_baserecidx c + c_nrecs c) mod NWRITERECS := Some \<lparr>wrbuf = b, wr_id = i, wrbufpos = 0\<rparr>],
    c_nrecs := c_nrecs c + 1, cl_accepted := cl_accepted c @ [(b, i)]\<rparr>)" (is "stream_ok ?d")
proof -
  let ?r = "\<lparr>wrbuf = b, wr_id = i, wrbufpos = 0\<rparr>"
  have c: "ring_ok c" "c_wire c @ unsent c = concat (map fst (cl_accepted c))"
    using assms(1) by (simp_all add: stream_ok_def)
  obtain ns where ns: "map snd (cl_accepted c) = ns @ map wr_id (recs c)" "cl_sent c = the_ids ns"
    using assms(1) by (auto simp: stream_ok_def)
  have cells: "rec_cells ?d = rec_cells c @ [Some ?r]"
    using put_cells [OF c(1) assms(2), of ?r] by (simp add: rec_cells_def rec_cell_def)
  have r: "recs ?d = recs c @ [?r]" unfolding recs_def cells by simp
  have u: "unsent ?d = unsent c @ b" unfolding unsent_def r by simp
  have "ring_ok ?d" using c(1) assms(2) unfolding ring_ok_def cells by auto
  moreover have "c_wire ?d @ unsent ?d = concat (map fst (cl_accepted ?d))"
    unfolding u using c(2) by (simp add: append_assoc [symmetric] del: append_assoc)
  moreover have "map snd (cl_accepted ?d) = ns @ map wr_id (recs ?d) \<and> cl_sent ?d = the_ids ns"
    unfolding r using ns by simp
  ultimately show ?thesis unfolding stream_ok_def by blast
qed

lemma do_stream:
  assumes "stream_ok c"
  shows "stream_ok (client_do k c)"
proof (cases k)
  case (CWrite b i)
  show ?thesis
  proof (cases "c_nrecs c = NWRITERECS")
    case False
    have "stream_ok (client_do k c) \<longleftrightarrow> stream_ok (c\<lparr>c_writerecs := (c_writerecs c)[(c_baserecidx c + c_nrecs c) mod NWRITERECS
        := Some \<lparr>wrbuf = b, wr_id = i, wrbufpos = 0\<rparr>], c_nrecs := c_nrecs c + 1, cl_accepted := cl_accepted c @ [(b, i)]\<rparr>)"
      using False by (intro stream_same) (simp add: CWrite Connection_write_def Let_def wantreadwrite_regs same_recs_def)
    with write_stream [OF assms False] show ?thesis by simp
  qed (use assms CWrite in \<open>simp add: Connection_write_def\<close>)
next
  case CConfirm
  have "stream_ok (c\<lparr>c_handling := False\<rparr>)" using assms stream_same [of c "c\<lparr>c_handling := False\<rparr>"] by (simp add: same_recs_def)
  with CConfirm assms show ?thesis by (simp add: Connection_confirmDataReceived_def Connection_activate_def)
qed (use assms in \<open>simp add: Connection_activate_def\<close>)

lemma do_states: "states_ok c \<Longrightarrow> states_ok (client_do k c)"
  by (cases k) (simp_all add: states_ok_def Connection_write_def Connection_activate_def Connection_confirmDataReceived_def
      Let_def wantreadwrite_regs)

lemma do_timers [simp]: "timers_ok (client_do k c) \<longleftrightarrow> timers_ok c" "c_deleteScheduled (client_do k c) = c_deleteScheduled c"
  by (cases k; simp add: timers_ok_def Connection_write_def Connection_activate_def Connection_confirmDataReceived_def
      Let_def wantreadwrite_regs)+

lemma waits_update [simp]:
  "waits_ok (c\<lparr>c_handling := b\<rparr>) \<longleftrightarrow> waits_ok c" "waits_ok (c\<lparr>cl_accepted := a\<rparr>) \<longleftrightarrow> waits_ok c"
  "waits_ok (c\<lparr>cl_sent := l\<rparr>) \<longleftrightarrow> waits_ok c" "waits_ok (c\<lparr>cl_received := d, cl_overrun := o1\<rparr>) \<longleftrightarrow> waits_ok c"
  "waits_ok (c\<lparr>cl_closed := cs\<rparr>) \<longleftrightarrow> waits_ok c"
  by (simp_all add: waits_ok_def ssl_wants_def)

lemma user_update [simp]:
  "waits_ok (c\<lparr>cl_user := u\<rparr>) \<longleftrightarrow> waits_ok c" "timers_ok (c\<lparr>cl_user := u\<rparr>) \<longleftrightarrow> timers_ok c"
  "states_ok (c\<lparr>cl_user := u\<rparr>) \<longleftrightarrow> states_ok c" "stream_ok (c\<lparr>cl_user := u\<rparr>) \<longleftrightarrow> stream_ok c"
proof -
  show "stream_ok (c\<lparr>cl_user := u\<rparr>) \<longleftrightarrow> stream_ok c" by (rule stream_same) (simp add: same_recs_def)
qed (simp_all add: waits_ok_def timers_ok_def states_ok_def ssl_wants_def)

lemma do_waits: "waits_ok c \<Longrightarrow> waits_ok (client_do k c)"
  by (cases k) (simp_all add: Connection_write_def Connection_activate_def Connection_confirmDataReceived_def Let_def)

lemma do_all:
  "stream_ok c \<Longrightarrow> stream_ok (fold client_do ks c)" "states_ok c \<Longrightarrow> states_ok (fold client_do ks c)"
  "waits_ok c \<Longrightarrow> waits_ok (fold client_do ks c)" "timers_ok (fold client_do ks c) \<longleftrightarrow> timers_ok c"
  "c_deleteScheduled (fold client_do ks c) = c_deleteScheduled c"
  by (induction ks arbitrary: c) (simp_all add: do_stream do_states do_waits)

text \<open>Raising an event keeps what holds once the event is noted.\<close>

lemma keep_stream [simp]: "stream_ok (keep_buffer e b c) \<longleftrightarrow> stream_ok c"
  by (rule stream_same) (cases e; simp add: same_recs_def)

lemma keep_other [simp]: "waits_ok (keep_buffer e b c) \<longleftrightarrow> waits_ok c" "timers_ok (keep_buffer e b c) \<longleftrightarrow> timers_ok c"
  "c_deleteScheduled (keep_buffer e b c) = c_deleteScheduled c"
  by (cases e; simp add: timers_ok_def)+

lemma note_other [simp]: "waits_ok (note_event e c) \<longleftrightarrow> waits_ok c" "timers_ok (note_event e c) \<longleftrightarrow> timers_ok c"
  "c_deleteScheduled (note_event e c) = c_deleteScheduled c"
  by (cases e; simp add: timers_ok_def)+

lemma keep_states:
  "states_ok c \<Longrightarrow> (\<And>d. e = EvDataReceived d \<Longrightarrow> c_read_st c = None) \<Longrightarrow> states_ok (keep_buffer e b c)"
  by (cases e) (simp_all add: states_ok_def)

lemma raise_keeps [simp]:
  "timers_ok (client_raise react e c) \<longleftrightarrow> timers_ok c" "c_deleteScheduled (client_raise react e c) = c_deleteScheduled c"
  by (simp_all add: client_raise_def Let_def split_beta do_all)

lemma raise_waits: "waits_ok c \<Longrightarrow> waits_ok (client_raise react e c)"
  by (simp add: client_raise_def Let_def split_beta do_all)

lemma raise_stream: "stream_ok (note_event e c) \<Longrightarrow> stream_ok (client_raise react e c)"
  by (auto simp: client_raise_def Let_def split_beta intro!: do_all)

lemma raise_states:
  assumes "states_ok (note_event e c)" "\<And>d. e = EvDataReceived d \<Longrightarrow> c_read_st c = None"
  shows "states_ok (client_raise react e c)"
proof -
  have "c_read_st (note_event e c) = c_read_st c" by (cases e) simp_all
  with assms show ?thesis
    by (auto simp: client_raise_def Let_def split_beta intro!: do_all keep_states)
qed

lemma fold_closed [simp]:
  fixes c :: "'u client_conn"
  shows
  "cl_closed (fold client_do ks c) = cl_closed c" "c_blacklist (fold client_do ks c) = c_blacklist c"
  "c_tlstickreg (fold client_do ks c) = c_tlstickreg c" "c_tlstickreg (keep_buffer e b c) = c_tlstickreg c"
  "cl_closed (keep_buffer e b c) = cl_closed c" "c_blacklist (keep_buffer e b c) = c_blacklist c"
proof -
  have "cl_closed (client_do k c) = cl_closed c \<and> c_blacklist (client_do k c) = c_blacklist c \<and> c_tlstickreg (client_do k c) = c_tlstickreg c"
    for k and c :: "'u client_conn"
    by (cases k) (simp_all add: Connection_write_def Connection_activate_def Connection_confirmDataReceived_def Let_def wantreadwrite_regs)
  then show "cl_closed (fold client_do ks c) = cl_closed c" "c_blacklist (fold client_do ks c) = c_blacklist c"
      "c_tlstickreg (fold client_do ks c) = c_tlstickreg c"
    by (induction ks arbitrary: c) simp_all
  show "cl_closed (keep_buffer e b c) = cl_closed c" "c_blacklist (keep_buffer e b c) = c_blacklist c"
      "c_tlstickreg (keep_buffer e b c) = c_tlstickreg c"
    by (cases e; simp)+
qed

lemma fold_user [simp]:
  fixes c :: "'u client_conn"
  shows "cl_user (fold client_do ks c) = cl_user c" "cl_sent (fold client_do ks c) = cl_sent c"
    "cl_received (fold client_do ks c) = cl_received c"
proof -
  have "cl_user (client_do k c) = cl_user c \<and> cl_sent (client_do k c) = cl_sent c \<and> cl_received (client_do k c) = cl_received c"
    for k and c :: "'u client_conn"
    by (cases k) (simp_all add: Connection_write_def Connection_activate_def Connection_confirmDataReceived_def Let_def wantreadwrite_regs)
  then show "cl_user (fold client_do ks c) = cl_user c" "cl_sent (fold client_do ks c) = cl_sent c"
      "cl_received (fold client_do ks c) = cl_received c"
    by (induction ks arbitrary: c) simp_all
qed

text \<open>The user does not touch what the connection knows of the system.\<close>

definition same_link :: "'u client_conn \<Rightarrow> 'u client_conn \<Rightarrow> bool" where
  "same_link c d \<longleftrightarrow> c_wire d = c_wire c \<and> c_connecting d = c_connecting c \<and> c_tls d = c_tls c \<and> c_connect_st d = c_connect_st c
     \<and> c_read_st d = c_read_st c \<and> c_write_st d = c_write_st c"

lemma fold_link: "same_link c (fold client_do ks c)"
proof (induction ks arbitrary: c)
  case (Cons k ks)
  have "same_link c (client_do k c)"
    by (cases k) (simp_all add: same_link_def Connection_write_def Connection_activate_def Connection_confirmDataReceived_def Let_def
        wantreadwrite_regs)
  with Cons [of "client_do k c"] show ?case by (simp add: same_link_def)
qed (simp add: same_link_def)

lemma raise_link: "same_link c (client_raise react e c)"
proof -
  let ?d = "keep_buffer e (fst (react e (note_event e c))) ((note_event e c)\<lparr>cl_user := snd (snd (react e (note_event e c)))\<rparr>)"
  have "same_link c ?d" by (cases e) (simp_all add: same_link_def)
  with fold_link [of ?d "fst (snd (react e (note_event e c)))"] show ?thesis
    by (simp add: client_raise_def Let_def split_beta same_link_def)
qed

lemma raise_closed [simp]:
  "cl_closed (client_raise react (EvConnClosed b) c) = cl_closed c @ [b]"
  "c_blacklist (client_raise react e c) = c_blacklist c" "c_tlstickreg (client_raise react e c) = c_tlstickreg c"
proof -
  show "cl_closed (client_raise react (EvConnClosed b) c) = cl_closed c @ [b]" by (simp add: client_raise_def split_beta Let_def)
  show "c_blacklist (client_raise react e c) = c_blacklist c" "c_tlstickreg (client_raise react e c) = c_tlstickreg c"
    by (cases e; simp add: client_raise_def split_beta Let_def)+
qed

lemma stream_update [simp]:
  "stream_ok (c\<lparr>c_calls := l\<rparr>) \<longleftrightarrow> stream_ok c" "stream_ok (c\<lparr>c_blacklist := bl\<rparr>) \<longleftrightarrow> stream_ok c"
  "stream_ok (c\<lparr>cl_closed := cs\<rparr>) \<longleftrightarrow> stream_ok c" "stream_ok (c\<lparr>c_connecting := n\<rparr>) \<longleftrightarrow> stream_ok c"
  "stream_ok (c\<lparr>c_writereg := b\<rparr>) \<longleftrightarrow> stream_ok c" "stream_ok (c\<lparr>c_tickreg := b\<rparr>) \<longleftrightarrow> stream_ok c"
  "stream_ok (c\<lparr>c_tlstickreg := b\<rparr>) \<longleftrightarrow> stream_ok c" "stream_ok (c\<lparr>c_connect_ticks := n\<rparr>) \<longleftrightarrow> stream_ok c"
  "stream_ok (c\<lparr>c_connect_st := w\<rparr>) \<longleftrightarrow> stream_ok c" "stream_ok (c\<lparr>c_read_st := w\<rparr>) \<longleftrightarrow> stream_ok c"
  "stream_ok (c\<lparr>c_write_st := w\<rparr>) \<longleftrightarrow> stream_ok c" "stream_ok (c\<lparr>c_name := nm\<rparr>) \<longleftrightarrow> stream_ok c"
  "stream_ok (c\<lparr>c_resolveJob := j\<rparr>) \<longleftrightarrow> stream_ok c"
  "stream_ok (c\<lparr>cl_received := d, cl_overrun := o1\<rparr>) \<longleftrightarrow> stream_ok c"
  "stream_ok (c\<lparr>c_closes := m, c_donereg := k, c_deleteScheduled := ds\<rparr>) \<longleftrightarrow> stream_ok c"
  by (rule stream_same; simp add: same_recs_def)+

lemma states_update [simp]:
  "states_ok (c\<lparr>c_calls := l\<rparr>) \<longleftrightarrow> states_ok c" "states_ok (c\<lparr>c_blacklist := bl\<rparr>) \<longleftrightarrow> states_ok c"
  "states_ok (c\<lparr>c_connecting := n\<rparr>) \<longleftrightarrow> states_ok c"
  "states_ok (c\<lparr>c_writereg := b\<rparr>) \<longleftrightarrow> states_ok c" "states_ok (c\<lparr>c_tickreg := b\<rparr>) \<longleftrightarrow> states_ok c"
  "states_ok (c\<lparr>c_tlstickreg := b\<rparr>) \<longleftrightarrow> states_ok c" "states_ok (c\<lparr>c_connect_ticks := n\<rparr>) \<longleftrightarrow> states_ok c"
  "states_ok (c\<lparr>c_connect_st := w\<rparr>) \<longleftrightarrow> states_ok c" "states_ok (c\<lparr>c_name := nm\<rparr>) \<longleftrightarrow> states_ok c"
  "states_ok (c\<lparr>c_resolveJob := j\<rparr>) \<longleftrightarrow> states_ok c" "states_ok (c\<lparr>c_wire := w2\<rparr>) \<longleftrightarrow> states_ok c"
  "states_ok (c\<lparr>c_writerecs := ws\<rparr>) \<longleftrightarrow> states_ok c" "states_ok (c\<lparr>cl_sent := cs2\<rparr>) \<longleftrightarrow> states_ok c"
  "states_ok c \<Longrightarrow> states_ok (c\<lparr>cl_closed := cl_closed c @ [b2]\<rparr>)"
  by (simp_all add: states_ok_def)

lemma history_update [simp]:
  "history_ok P (c\<lparr>c_calls := l\<rparr>) \<longleftrightarrow> history_ok P c" "history_ok P (c\<lparr>c_blacklist := bl\<rparr>) \<longleftrightarrow> history_ok P c"
  "history_ok P (c\<lparr>c_connecting := n\<rparr>) \<longleftrightarrow> history_ok P c" "history_ok P (c\<lparr>c_handling := b\<rparr>) \<longleftrightarrow> history_ok P c"
  "history_ok P (c\<lparr>c_writereg := b\<rparr>) \<longleftrightarrow> history_ok P c" "history_ok P (c\<lparr>c_tickreg := b\<rparr>) \<longleftrightarrow> history_ok P c"
  "history_ok P (c\<lparr>c_tlstickreg := b\<rparr>) \<longleftrightarrow> history_ok P c" "history_ok P (c\<lparr>c_connect_ticks := n\<rparr>) \<longleftrightarrow> history_ok P c"
  "history_ok P (c\<lparr>c_connect_st := w\<rparr>) \<longleftrightarrow> history_ok P c" "history_ok P (c\<lparr>c_read_st := w\<rparr>) \<longleftrightarrow> history_ok P c"
  "history_ok P (c\<lparr>c_write_st := w\<rparr>) \<longleftrightarrow> history_ok P c" "history_ok P (c\<lparr>c_name := nm\<rparr>) \<longleftrightarrow> history_ok P c"
  "history_ok P (c\<lparr>c_resolveJob := j\<rparr>) \<longleftrightarrow> history_ok P c" "history_ok P (c\<lparr>c_wire := w2\<rparr>) \<longleftrightarrow> history_ok P c"
  "history_ok P (c\<lparr>c_writerecs := ws\<rparr>) \<longleftrightarrow> history_ok P c"
  "history_ok P (c\<lparr>c_baserecidx := n1, c_nrecs := m1\<rparr>) \<longleftrightarrow> history_ok P c"
  "history_ok P (c\<lparr>c_closes := m, c_donereg := k, c_deleteScheduled := ds\<rparr>) \<longleftrightarrow> history_ok P c"
  "history_ok P (wantreadwrite c) \<longleftrightarrow> history_ok P c"
  by (simp_all add: history_ok_def wantreadwrite_regs)

lemma wantreadwrite_deleteScheduled [simp]: "c_deleteScheduled (wantreadwrite c) = c_deleteScheduled c"
  by (simp add: wantreadwrite_regs)

lemma timers_update [simp]:
  "timers_ok (c\<lparr>c_read_st := w\<rparr>) \<longleftrightarrow> timers_ok c" "timers_ok (c\<lparr>c_write_st := w\<rparr>) \<longleftrightarrow> timers_ok c"
  "timers_ok (c\<lparr>c_wire := w2\<rparr>) \<longleftrightarrow> timers_ok c" "timers_ok (c\<lparr>c_writerecs := ws\<rparr>) \<longleftrightarrow> timers_ok c"
  "timers_ok (c\<lparr>c_baserecidx := n, c_nrecs := m\<rparr>) \<longleftrightarrow> timers_ok c"
  by (simp_all add: timers_ok_def)

lemma name_update:
  "stream_ok (c\<lparr>c_name := n\<rparr>) \<longleftrightarrow> stream_ok c" "states_ok (c\<lparr>c_name := n\<rparr>) \<longleftrightarrow> states_ok c"
  "ssl_wants w (c\<lparr>c_name := n\<rparr>) \<longleftrightarrow> ssl_wants w c" "ssl_wants w (c\<lparr>c_resolveJob := j\<rparr>) \<longleftrightarrow> ssl_wants w c"
  by (simp_all add: ssl_wants_def)

text \<open>The kernel takes some bytes of the first record.\<close>

lemma head_update:
  fixes r :: WriteRecord
  assumes "ring_ok c" "c_nrecs c \<noteq> 0"
  shows "ring_ok (c\<lparr>c_writerecs := (c_writerecs c)[c_baserecidx c := Some r], c_wire := w\<rparr>)"
    "recs (c\<lparr>c_writerecs := (c_writerecs c)[c_baserecidx c := Some r], c_wire := w\<rparr>) = r # tl (recs c)"
proof -
  let ?d = "c\<lparr>c_writerecs := (c_writerecs c)[c_baserecidx c := Some r], c_wire := w\<rparr>"
  have b: "c_baserecidx c < NWRITERECS" "length (c_writerecs c) = NWRITERECS" "c_nrecs c \<le> NWRITERECS"
    using assms(1) by (simp_all add: ring_ok_def)
  obtain m where m: "c_nrecs c = Suc m" using assms(2) by (cases "c_nrecs c") auto
  have split: "rec_cells x = rec_cell x 0 # map (\<lambda>i. rec_cell x (Suc i)) [0..<m]" if "c_nrecs x = Suc m" for x :: "'a Connection_scheme"
    unfolding rec_cells_def that by (simp add: upt_conv_Cons map_Suc_upt [symmetric] del: upt_Suc)
  have "c_baserecidx c \<noteq> (c_baserecidx c + Suc i) mod NWRITERECS" if "i < m" for i
    using that b(1,3) m by (subst mod_wrap) auto
  then have "rec_cell ?d (Suc i) = rec_cell c (Suc i)" if "i < m" for i
    using that by (simp add: rec_cell_def)
  moreover have "rec_cell ?d 0 = Some r" using b by (simp add: rec_cell_def)
  ultimately have cells: "rec_cells ?d = Some r # tl (rec_cells c)"
    using split [of ?d] split [of c] m by simp
  have "set (tl (rec_cells c)) \<subseteq> set (rec_cells c)" by (cases "rec_cells c") auto
  with assms(1) show "ring_ok ?d" unfolding ring_ok_def cells by auto
  show "recs ?d = r # tl (recs c)" unfolding recs_def cells by (simp add: map_tl)
qed

lemma take_some:
  assumes "stream_ok c" "c_nrecs c \<noteq> 0" "c_writerecs c ! c_baserecidx c = Some r" "n < length (wrbuf r) - wrbufpos r"
  shows "stream_ok (c\<lparr>c_writerecs := (c_writerecs c)[c_baserecidx c := Some (r\<lparr>wrbufpos := wrbufpos r + n\<rparr>)],
    c_wire := c_wire c @ take n (drop (wrbufpos r) (wrbuf r))\<rparr>)" (is "stream_ok ?d")
proof -
  have c: "ring_ok c" "c_wire c @ unsent c = concat (map fst (cl_accepted c))"
    "\<exists>ns. map snd (cl_accepted c) = ns @ map wr_id (recs c) \<and> cl_sent c = the_ids ns"
    using assms(1) by (simp_all add: stream_ok_def)
  obtain rs where rs: "recs c = r # rs" using head_cell [OF c(1) assms(2)] assms(3) by auto
  note d = head_update [OF c(1) assms(2), where r = "r\<lparr>wrbufpos := wrbufpos r + n\<rparr>" and w = "c_wire c @ take n (drop (wrbufpos r) (wrbuf r))"]
  let ?x = "drop (wrbufpos r) (wrbuf r)"
  have "take n ?x @ drop n ?x @ y = ?x @ y" for y by (metis append_assoc append_take_drop_id)
  then have "c_wire ?d @ unsent ?d = c_wire c @ unsent c"
    unfolding unsent_def d(2) rs by (simp add: add.commute)
  with c d show ?thesis by (simp add: stream_ok_def rs)
qed

text \<open>It takes the rest of it, and the record is done.\<close>

lemma take_rest:
  assumes "stream_ok c" "c_nrecs c \<noteq> 0" "c_writerecs c ! c_baserecidx c = Some r" "\<not> n < length (wrbuf r) - wrbufpos r"
  shows "stream_ok (c\<lparr>c_baserecidx := (if c_baserecidx c + 1 = NWRITERECS then 0 else c_baserecidx c + 1), c_nrecs := c_nrecs c - 1,
    c_wire := c_wire c @ take n (drop (wrbufpos r) (wrbuf r)),
    cl_sent := cl_sent c @ (case wr_id r of None \<Rightarrow> [] | Some i \<Rightarrow> [i])\<rparr>)" (is "stream_ok ?d")
proof -
  have c: "ring_ok c" "c_wire c @ unsent c = concat (map fst (cl_accepted c))" using assms(1) by (simp_all add: stream_ok_def)
  obtain ns where ns: "map snd (cl_accepted c) = ns @ map wr_id (recs c)" "cl_sent c = the_ids ns"
    using assms(1) by (auto simp: stream_ok_def)
  obtain rs where rs: "recs c = r # rs" using head_cell [OF c(1) assms(2)] assms(3) by auto
  let ?p = "c\<lparr>c_baserecidx := (if c_baserecidx c + 1 = NWRITERECS then 0 else c_baserecidx c + 1), c_nrecs := c_nrecs c - 1\<rparr>"
  note p = pop_cells [OF c(1) assms(2)]
  have "recs ?d = recs ?p" by (rule recs_cong) simp_all
  then have d: "recs ?d = rs" using p(2) rs by simp
  have "rec_cells ?d = rec_cells ?p" by (rule rec_cells_cong) simp_all
  then have "ring_ok ?d" using p(1) by (simp add: ring_ok_def)
  moreover have "c_wire ?d @ unsent ?d = c_wire c @ unsent c" using assms(4) unfolding unsent_def d rs by simp
  moreover have "map snd (cl_accepted ?d) = (ns @ [wr_id r]) @ map wr_id (recs ?d) \<and> cl_sent ?d = the_ids (ns @ [wr_id r])"
    unfolding d using ns rs by simp
  ultimately show ?thesis using c unfolding stream_ok_def by auto
qed

text \<open>The record is reported when it has an id.\<close>

definition report :: "'u reaction \<Rightarrow> WriteRecord \<Rightarrow> 'u client_conn \<Rightarrow> 'u client_conn" where
  "report react r c = (case wr_id r of None \<Rightarrow> c | Some i \<Rightarrow> client_raise react (EvDataSent i) c)"

definition note_report :: "WriteRecord \<Rightarrow> 'u client_conn \<Rightarrow> 'u client_conn" where
  "note_report r c = c\<lparr>cl_sent := cl_sent c @ (case wr_id r of None \<Rightarrow> [] | Some i \<Rightarrow> [i])\<rparr>"

lemma report_keeps [simp]: "timers_ok (report react r c) \<longleftrightarrow> timers_ok c" "c_deleteScheduled (report react r c) = c_deleteScheduled c"
  "waits_ok c \<Longrightarrow> waits_ok (report react r c)"
  by (simp_all add: report_def raise_waits split: option.split)

text \<open>The parts of \<open>dowrite\<close> when the kernel or the library takes \<open>n\<close> bytes of the record.\<close>

definition taken :: "WriteRecord \<Rightarrow> nat \<Rightarrow> 'u client_conn \<Rightarrow> 'u client_conn" where
  "taken r n c = (let c = c\<lparr>c_wire := c_wire c @ take n (drop (wrbufpos r) (wrbuf r))\<rparr>
     in if c_tls c then c\<lparr>c_write_st := None\<rparr> else c)"

definition part_rec :: "WriteRecord \<Rightarrow> nat \<Rightarrow> 'u client_conn \<Rightarrow> 'u client_conn" where
  "part_rec r n c = c\<lparr>c_writerecs := (c_writerecs c)[c_baserecidx c := Some (r\<lparr>wrbufpos := wrbufpos r + n\<rparr>)]\<rparr>"

definition done_rec :: "'u client_conn \<Rightarrow> 'u client_conn" where
  "done_rec c = c\<lparr>c_baserecidx := (if c_baserecidx c + 1 = NWRITERECS then 0 else c_baserecidx c + 1), c_nrecs := c_nrecs c - 1\<rparr>"

lemma dowrite_Ready:
  assumes "c_writerecs c ! c_baserecidx c = Some r"
  shows "dowrite (client_raise react) (Ready n) c = Inr
    (if n < length (wrbuf r) - wrbufpos r
     then (if c_tls c then wantreadwrite (part_rec r n (taken r n c)) else part_rec r n (taken r n c))
     else (if c_tls c then wantreadwrite (report react r (done_rec (taken r n c)))
           else report react r (wantreadwrite (done_rec (taken r n c)))))"
  unfolding dowrite_def assms option.case answer.case Let_def taken_def part_rec_def done_rec_def report_def
  by simp

lemma taken_keeps [simp]: "c_deleteScheduled (taken r n c) = c_deleteScheduled c" "timers_ok (taken r n c) \<longleftrightarrow> timers_ok c"
  "c_deleteScheduled (part_rec r n c) = c_deleteScheduled c" "timers_ok (part_rec r n c) \<longleftrightarrow> timers_ok c"
  "c_deleteScheduled (done_rec c) = c_deleteScheduled c" "timers_ok (done_rec c) \<longleftrightarrow> timers_ok c"
  by (simp_all add: taken_def part_rec_def done_rec_def Let_def timers_ok_def)

lemma taken_history [simp]:
  "history_ok P (taken r n c) \<longleftrightarrow> history_ok P c" "history_ok P (part_rec r n c) \<longleftrightarrow> history_ok P c"
  "history_ok P (done_rec c) \<longleftrightarrow> history_ok P c"
  by (simp_all add: history_ok_def taken_def part_rec_def done_rec_def Let_def)

lemma taken_states: "states_ok c \<Longrightarrow> states_ok (part_rec r n (taken r n c))" "states_ok c \<Longrightarrow> states_ok (done_rec (taken r n c))"
  by (auto simp: taken_def part_rec_def done_rec_def Let_def states_ok_def)

text \<open>A user that makes no call when its data is reported during the deletion.\<close>

definition quiet :: "'u reaction \<Rightarrow> bool" where
  "quiet react \<longleftrightarrow> (\<forall>i c. c_deleteScheduled c = 2 \<longrightarrow> fst (snd (react (EvDataSent i) c)) = [])"

lemma raise_quiet:
  "quiet react \<Longrightarrow> c_deleteScheduled c = 2 \<Longrightarrow>
    \<exists>u. client_raise react (EvDataSent i) c = c\<lparr>cl_sent := cl_sent c @ [i], cl_user := u\<rparr>"
  by (intro exI) (simp add: quiet_def client_raise_def split_beta Let_def)

lemma destroy_recs_ok:
  assumes "quiet react" "ring_ok c" "c_deleteScheduled c = 2" "c_nrecs c \<le> fuel"
  shows "\<exists>b u. destroy_recs (client_raise react) fuel c =
    Some (Inr (c\<lparr>c_baserecidx := b, c_nrecs := 0, cl_sent := cl_sent c @ the_ids (map wr_id (recs c)), cl_user := u\<rparr>))"
  using assms(2-4)
proof (induction fuel arbitrary: c)
  case 0
  then show ?case by (intro exI [of _ "c_baserecidx c"] exI [of _ "cl_user c"]) (simp add: recs_def rec_cells_def)
next
  case (Suc fuel)
  show ?case
  proof (cases "c_nrecs c = 0")
    case True
    then show ?thesis by (intro exI [of _ "c_baserecidx c"] exI [of _ "cl_user c"]) (simp add: recs_def rec_cells_def)
  next
    case False
    obtain r rs where r: "c_writerecs c ! c_baserecidx c = Some r" "recs c = r # rs"
      using head_cell [OF Suc.prems(1) False] by blast
    let ?base = "if c_baserecidx c + 1 = NWRITERECS then 0 else c_baserecidx c + 1"
    let ?n = "cl_sent c @ (case wr_id r of None \<Rightarrow> [] | Some i \<Rightarrow> [i])"
    let ?p = "c\<lparr>c_baserecidx := ?base, c_nrecs := c_nrecs c - 1\<rparr>"
    let ?d = "\<lambda>u. c\<lparr>cl_sent := ?n, cl_user := u, c_baserecidx := ?base, c_nrecs := c_nrecs c - 1\<rparr>"
    note p = pop_cells [OF Suc.prems(1) False]
    obtain u where step: "destroy_recs (client_raise react) (Suc fuel) c = destroy_recs (client_raise react) fuel (?d u)"
    proof (cases "wr_id r")
      case None
      with that [of "cl_user c"] False r(1) show thesis by (simp add: Let_def)
    next
      case (Some i)
      obtain u where "client_raise react (EvDataSent i) c = c\<lparr>cl_sent := cl_sent c @ [i], cl_user := u\<rparr>"
        using raise_quiet [OF assms(1) Suc.prems(2)] by blast
      with that [of u] False r(1) Some show thesis by (simp add: Let_def cong: if_cong)
    qed
    have d: "recs (?d u) = rs" "rec_cells (?d u) = rec_cells ?p"
      using recs_cong [of "?d u" ?p] rec_cells_cong [of "?d u" ?p] p(2) r(2) by simp_all
    then have ok: "ring_ok (?d u)" using p(1) unfolding ring_ok_def by simp
    have n: "c_deleteScheduled (?d u) = 2" "c_nrecs (?d u) \<le> fuel" using Suc.prems(2,3) by simp_all
    obtain b v where b: "destroy_recs (client_raise react) fuel (?d u) = Some (Inr ((?d u)\<lparr>c_baserecidx := b, c_nrecs := 0,
        cl_sent := cl_sent (?d u) @ the_ids (map wr_id (recs (?d u))), cl_user := v\<rparr>))"
      using Suc.IH [OF ok n] by blast
    have "cl_sent (?d u) @ the_ids (map wr_id (recs (?d u))) = cl_sent c @ the_ids (map wr_id (recs c))" unfolding d r(2) by simp
    with b show ?thesis unfolding step by (intro exI [of _ b] exI [of _ v]) simp
  qed
qed
section \<open>The contract of a user\<close>

text \<open>At most as many bytes as the read buffer has are received at once.\<close>

fun event_fits :: "conn_ev \<Rightarrow> bool" where
  "event_fits (EvDataReceived d) \<longleftrightarrow> length d \<le> CONNBUFSZ"
| "event_fits _ \<longleftrightarrow> True"

lemma event_fits_take [simp]: "event_fits (EvDataReceived (take CONNBUFSZ d))"
  by simp

lemma want_good: "conn_ok P c \<Longrightarrow> (c_deleteScheduled c = 0 \<longrightarrow> timers_ok c) \<Longrightarrow> good P (wantreadwrite c)"
  by (simp add: good_def conn_ok_def live_ok_def)

lemma good_tick_off: "conn_ok P c \<Longrightarrow> conn_ok P (c\<lparr>c_tickreg := b\<rparr>)" "conn_ok P c \<Longrightarrow> conn_ok P (c\<lparr>c_connecting := n\<rparr>)"
  "conn_ok P c \<Longrightarrow> conn_ok P (c\<lparr>c_writereg := b\<rparr>)" "conn_ok P c \<Longrightarrow> conn_ok P (c\<lparr>c_connect_ticks := n\<rparr>)"
  by (simp_all add: conn_ok_def)

lemma job_good: "good P (c\<lparr>c_resolveJob := j\<rparr>) \<longleftrightarrow> good P c"
  unfolding good_def conn_ok_def live_ok_def waits_ok_def timers_ok_def name_update by simp

lemma name_good: "good P (c\<lparr>c_name := n\<rparr>) \<longleftrightarrow> good P c"
  unfolding good_def conn_ok_def live_ok_def waits_ok_def timers_ok_def name_update by simp

lemma create_fields:
  "c_writerecs (Connection_create mode tls m) = uninit NWRITERECS" "c_baserecidx (Connection_create mode tls m) = 0"
  "c_nrecs (Connection_create mode tls m) = 0" "c_wire (Connection_create mode tls m) = []"
  by (cases mode; simp add: Connection_create_def Let_def log_conn_def)+

lemma create_user:
  fixes m :: "'u client_conn"
  shows "cl_accepted (Connection_create mode tls m) = cl_accepted m" "cl_sent (Connection_create mode tls m) = cl_sent m"
  "cl_received (Connection_create mode tls m) = cl_received m" "cl_closed (Connection_create mode tls m) = cl_closed m"
  "cl_user (Connection_create mode tls m) = cl_user m"
  by (cases mode; simp add: Connection_create_def Let_def log_conn_def)+

lemma addr_fields:
  "c_writerecs (Connection_setRemoteAddr addr numeric rc host active job m) = c_writerecs m"
  "c_baserecidx (Connection_setRemoteAddr addr numeric rc host active job m) = c_baserecidx m"
  "c_nrecs (Connection_setRemoteAddr addr numeric rc host active job m) = c_nrecs m"
  "c_wire (Connection_setRemoteAddr addr numeric rc host active job m) = c_wire m"
  by (simp_all add: Connection_setRemoteAddr_def Let_def log_conn_def)

lemma addr_user:
  fixes m :: "'u client_conn"
  shows "cl_accepted (Connection_setRemoteAddr addr numeric rc host active job m) = cl_accepted m"
  "cl_sent (Connection_setRemoteAddr addr numeric rc host active job m) = cl_sent m"
  "cl_received (Connection_setRemoteAddr addr numeric rc host active job m) = cl_received m"
  "cl_closed (Connection_setRemoteAddr addr numeric rc host active job m) = cl_closed m"
  "cl_user (Connection_setRemoteAddr addr numeric rc host active job m) = cl_user m"
  by (simp_all add: Connection_setRemoteAddr_def Let_def log_conn_def)

lemmas created = create_fields create_user addr_fields addr_user

lemma open_good:
  assumes "P (cl_user mem) [] [] [] []"
  shows "good P (open_conn mode tls addr host numeric active mem)"
proof -
  have r: "ring_ok c" "recs c = []" if "c_writerecs c = uninit NWRITERECS" "c_baserecidx c = 0" "c_nrecs c = 0" for c :: "'u client_conn"
    using that by (simp_all add: ring_ok_def recs_def rec_cells_def uninit_def)
  let ?c = "open_conn mode tls addr host numeric active mem"
  have f: "c_writerecs ?c = uninit NWRITERECS" "c_baserecidx ?c = 0" "c_nrecs ?c = 0" "c_wire ?c = []" "cl_accepted ?c = []"
    "cl_sent ?c = []" "cl_received ?c = []" "cl_closed ?c = []" "cl_user ?c = cl_user mem"
    by (simp_all add: open_conn_def created)
  have "stream_ok ?c" using r [of ?c] f by (simp add: stream_ok_def unsent_def)
  moreover have "states_ok ?c \<and> live_ok ?c"
    by (cases mode) (simp_all add: open_conn_def Connection_setRemoteAddr_def Connection_create_def Let_def log_conn_def
        states_ok_def live_ok_def waits_ok_def timers_ok_def ssl_wants_def)
  moreover have "history_ok P ?c" using assms f by (simp add: history_ok_def)
  ultimately show ?thesis by (simp add: good_def conn_ok_def)
qed

text \<open>
  Whoever keeps its own condition \<open>P\<close> when it reacts to an event and when it acts by itself may
  rely on what the connection keeps meanwhile, and has both after every run.
\<close>

locale conn_user =
  fixes react :: "'u reaction" and P :: "'u history" and allowed :: "'u conn_op \<Rightarrow> bool"
  assumes raises: "stream_ok (note_event e c) \<Longrightarrow> history_ok P c \<Longrightarrow> event_fits e \<Longrightarrow> history_ok P (client_raise react e c)"
    and acts: "allowed (OpAct f) \<Longrightarrow> stream_ok c \<Longrightarrow> history_ok P c \<Longrightarrow> f c = (ks, close, u) \<Longrightarrow>
      history_ok P (fold client_do ks (c\<lparr>cl_user := u\<rparr>))"
begin

lemma raise_ok:
  assumes "stream_ok (note_event e c)" "states_ok (note_event e c)" "history_ok P c" "event_fits e"
    "\<And>d. e = EvDataReceived d \<Longrightarrow> c_read_st c = None"
  shows "conn_ok P (client_raise react e c)"
  using raise_stream [OF assms(1)] raise_states [OF assms(2,5)] raises [OF assms(1,3,4)] by (simp add: conn_ok_def)

lemma close_ok:
  assumes "conn_ok P c"
  shows "\<exists>d. Connection_close (client_raise react) b c = Inr d \<and> good P d \<and> c_deleteScheduled d = 1"
proof -
  let ?c1 = "if c_tls c \<and> c_connecting c = 0 \<and> c_connect_st c = None then log_conn SslShutdown c else c"
  obtain a where a: "c_sa c = Some a" using assms by (auto simp: conn_ok_def states_ok_def)
  let ?c2 = "if b \<and> a \<noteq> [] then ?c1\<lparr>c_blacklist := Connection_blacklistAddress a (c_blacklist c)\<rparr> else ?c1"
  have c2: "conn_ok P ?c2" using assms by (simp add: conn_ok_def log_conn_def)
  let ?d = "client_raise react (EvConnClosed (c_connecting ?c2 = 0)) ?c2"
  have d: "conn_ok P ?d" using c2 by (intro raise_ok) (simp_all add: conn_ok_def)
  have "Connection_close (client_raise react) b c = Inr (deleteLater ?d)"
    using a by (simp add: Connection_close_def Let_def log_conn_def)
  moreover have "conn_ok P (deleteLater ?d)"
    using d by (auto simp: conn_ok_def deleteLater_def) (simp_all add: states_ok_def)
  moreover have "c_deleteScheduled (deleteLater ?d) = 1"
    using d by (auto simp: deleteLater_def conn_ok_def states_ok_def)
  ultimately show ?thesis by (simp add: good_def live_ok_def)
qed

lemma close_goes_on: "conn_ok P c \<Longrightarrow> goes_on P (Connection_close (client_raise react) b c)"
  using close_ok [of c b] by (auto simp: goes_on_def)

lemma handshake_ok:
  assumes "conn_ok P c" "c_deleteScheduled c = 0 \<longrightarrow> (c_connecting c \<noteq> 0 \<longrightarrow> c_tickreg c) \<and> c_tlstickreg c \<and> c_connect_ticks c \<noteq> 0"
  shows "goes_on P (dohandshake (client_raise react) ans c)"
proof (cases ans)
  case (Ready u)
  let ?c = "c\<lparr>c_connect_st := None, c_tlstickreg := False, c_connect_ticks := 0\<rparr>"
  have "conn_ok P (client_raise react EvConnConnected ?c)"
    using assms(1) by (intro raise_ok) (simp_all add: conn_ok_def)
  then have "good P (wantreadwrite (client_raise react EvConnConnected ?c))"
    using assms(2) by (intro want_good) (simp_all add: timers_ok_def [of ?c])
  with Ready show ?thesis by (simp add: dohandshake_def goes_on_def Let_def)
next
  case (Again w)
  have "good P (wantreadwrite (c\<lparr>c_connect_st := Some w\<rparr>))"
    using assms by (intro want_good) (simp_all add: conn_ok_def timers_ok_def)
  with Again show ?thesis by (simp add: dohandshake_def goes_on_def)
next
  case Broken
  with assms(1) show ?thesis by (simp add: dohandshake_def close_goes_on conn_ok_def)
qed

lemma read_ok:
  assumes "good P c" "\<not> c_handling c"
  shows "goes_on P (doread (client_raise react) ans c)"
proof (cases ans)
  case (Ready data)
  let ?c = "if c_tls c then c\<lparr>c_read_st := None\<rparr> else c"
  let ?data = "take CONNBUFSZ data"
  let ?d = "client_raise react (EvDataReceived ?data) ?c"
  have c: "stream_ok c" "states_ok c" "history_ok P c" "c_deleteScheduled c = 0 \<longrightarrow> timers_ok c"
    using assms(1) by (simp_all add: good_def conn_ok_def live_ok_def)
  have "states_ok (note_event (EvDataReceived ?data) ?c)" using c(2) assms(2) by (auto simp: states_ok_def)
  moreover have "c_read_st ?c = None" using c(2) by (auto simp: states_ok_def)
  ultimately have "conn_ok P ?d" using c by (intro raise_ok) auto
  with c(4) have "good P (wantreadwrite ?d)" by (intro want_good) auto
  with Ready show ?thesis by (simp add: doread_def Let_def goes_on_def)
next
  case (Again w)
  have "good P (wantreadwrite (c\<lparr>c_read_st := Some w\<rparr>))" if "c_tls c"
    using assms that by (intro want_good) (auto simp: good_def conn_ok_def live_ok_def states_ok_def)
  with Again assms(1) show ?thesis by (simp add: doread_def goes_on_def)
next
  case Broken
  with assms(1) show ?thesis by (simp add: doread_def close_goes_on good_def)
qed

lemma report_ok:
  assumes "stream_ok (note_report r c)" "states_ok c" "history_ok P c"
  shows "conn_ok P (report react r c)"
proof (cases "wr_id r")
  case None
  with assms stream_same [of c "note_report r c"] show ?thesis
    by (simp add: conn_ok_def same_recs_def report_def note_report_def)
next
  case (Some i)
  with assms have "conn_ok P (client_raise react (EvDataSent i) c)"
    by (intro raise_ok) (simp_all add: conn_ok_def note_report_def)
  with Some show ?thesis by (simp add: report_def)
qed

lemma write_rest_ok:
  assumes "good P c" "c_nrecs c \<noteq> 0" "c_writerecs c ! c_baserecidx c = Some r" "\<not> n < length (wrbuf r) - wrbufpos r"
  shows "good P (wantreadwrite (report react r (done_rec (taken r n c))))"
    "good P (report react r (wantreadwrite (done_rec (taken r n c))))"
proof -
  have c: "stream_ok c" "states_ok c" "c_deleteScheduled c = 0 \<longrightarrow> timers_ok c" "history_ok P c"
    using assms(1) by (simp_all add: good_def conn_ok_def live_ok_def)
  let ?d = "done_rec (taken r n c)"
  have rest: "stream_ok (note_report r ?d)"
    by (rule stream_same [OF _, THEN iffD2, OF _ take_rest [OF c(1) assms(2-4)]])
       (simp add: same_recs_def note_report_def done_rec_def taken_def Let_def)
  then have "conn_ok P (report react r ?d)" using taken_states(2) [OF c(2)] c(4) by (intro report_ok) simp_all
  with c(3) show "good P (wantreadwrite (report react r ?d))" by (intro want_good) simp_all
  have "stream_ok (note_report r (wantreadwrite ?d)) \<longleftrightarrow> stream_ok (note_report r ?d)"
    by (rule stream_same) (simp add: same_recs_def note_report_def wantreadwrite_regs)
  then have "conn_ok P (report react r (wantreadwrite ?d))" using rest taken_states(2) [OF c(2)] c(4) by (intro report_ok) simp_all
  with c(3) show "good P (report react r (wantreadwrite ?d))" by (simp add: good_def live_ok_def)
qed

lemma write_some_ok:
  assumes "good P c" "c_nrecs c \<noteq> 0" "c_writerecs c ! c_baserecidx c = Some r" "n < length (wrbuf r) - wrbufpos r"
  shows "good P (wantreadwrite (part_rec r n (taken r n c)))" "\<not> c_tls c \<Longrightarrow> good P (part_rec r n (taken r n c))"
proof -
  have c: "stream_ok c" "states_ok c" "c_deleteScheduled c = 0 \<longrightarrow> timers_ok c \<and> waits_ok c" "history_ok P c"
    using assms(1) by (simp_all add: good_def conn_ok_def live_ok_def)
  let ?d = "part_rec r n (taken r n c)"
  have "stream_ok ?d"
    by (rule stream_same [OF _, THEN iffD2, OF _ take_some [OF c(1) assms(2-4)]])
       (simp add: same_recs_def part_rec_def taken_def Let_def)
  then have d: "conn_ok P ?d" using taken_states(1) [OF c(2)] c(4) by (simp add: conn_ok_def)
  with c(3) show "good P (wantreadwrite ?d)" by (intro want_good) simp_all
  have "waits_ok ?d \<longleftrightarrow> waits_ok c" if "\<not> c_tls c"
    using that by (simp add: waits_ok_def ssl_wants_def part_rec_def taken_def Let_def)
  with d c(3) show "good P ?d" if "\<not> c_tls c" using that by (simp add: good_def live_ok_def)
qed

lemma dowrite_ok:
  assumes "good P c" "c_nrecs c \<noteq> 0"
  shows "goes_on P (dowrite (client_raise react) ans c)"
proof -
  obtain r where r: "c_writerecs c ! c_baserecidx c = Some r"
    using head_cell [of c] assms by (auto simp: good_def conn_ok_def stream_ok_def)
  show ?thesis
  proof (cases ans)
    case (Ready n)
    show ?thesis
      using write_some_ok [OF assms r, of n] write_rest_ok [OF assms r, of n]
      by (simp add: Ready dowrite_Ready [OF r] goes_on_def)
  next
    case (Again w)
    have "good P (wantreadwrite (c\<lparr>c_write_st := Some w\<rparr>))" if "c_tls c"
      using assms that by (intro want_good) (auto simp: good_def conn_ok_def live_ok_def states_ok_def)
    with Again assms(1) show ?thesis by (simp add: dowrite_def r goes_on_def)
  next
    case Broken
    with assms(1) show ?thesis by (simp add: dowrite_def r close_goes_on good_def)
  qed
qed

lemma writeConnection_ok:
  assumes "good P c"
  shows "goes_on P (writeConnection (client_raise react) sa c)"
proof -
  have c: "conn_ok P c" "c_deleteScheduled c = 0 \<longrightarrow> timers_ok c \<and> waits_ok c" using assms by (simp_all add: good_def live_ok_def)
  show ?thesis
  proof (cases "c_connecting c = 0")
    case True
    have hs: "goes_on P (dohandshake (client_raise react) (sa_handshake sa) c)" if "c_connect_st c \<noteq> None"
      using c that by (intro handshake_ok) (auto simp: timers_ok_def True)
    have rd: "goes_on P (doread (client_raise react) (sa_read sa) c)" if "c_read_st c \<noteq> None"
      using assms that by (intro read_ok) (auto simp: good_def conn_ok_def states_ok_def)
    have "c_write_st c \<noteq> None \<Longrightarrow> c_nrecs c \<noteq> 0" using c(1) by (simp add: conn_ok_def states_ok_def)
    moreover have "good P (wantreadwrite c)" using c by (intro want_good) simp_all
    ultimately show ?thesis
      using True hs rd dowrite_ok [OF assms] by (auto simp: writeConnection_def intro: goes_onI)
  next
    case False
    let ?c = "c\<lparr>c_tickreg := False, c_connecting := 0\<rparr>"
    have close: "goes_on P (Connection_close (client_raise react) True (c\<lparr>c_tickreg := False\<rparr>))"
      using c(1) by (intro close_goes_on good_tick_off)
    have tls: "goes_on P (dohandshake (client_raise react) (sa_handshake sa) (?c\<lparr>c_connect_ticks := CONNTICKS, c_tlstickreg := True\<rparr>))"
      using c(1) by (intro handshake_ok) (simp_all add: conn_ok_def)
    have "good P (wantreadwrite ?c)" using c by (intro want_good) (auto simp: good_tick_off timers_ok_def)
    moreover have "conn_ok P x \<Longrightarrow> conn_ok P (client_raise react EvConnConnected x)" for x
      by (rule raise_ok) (simp_all add: conn_ok_def)
    ultimately have "good P (client_raise react EvConnConnected (wantreadwrite ?c))"
      by (auto simp: good_def live_ok_def raise_waits)
    with close tls False show ?thesis by (simp add: writeConnection_def Let_def goes_onI)
  qed
qed

lemma readConnection_ok:
  assumes "good P c"
  shows "goes_on P (readConnection (client_raise react) sa c)"
proof -
  have c: "conn_ok P c" "c_deleteScheduled c = 0 \<longrightarrow> timers_ok c" using assms by (simp_all add: good_def live_ok_def)
  have hs: "goes_on P (dohandshake (client_raise react) (sa_handshake sa) c)" if "c_connect_st c \<noteq> None"
    using c that by (intro handshake_ok) (auto simp: timers_ok_def)
  have rd: "goes_on P (doread (client_raise react) (sa_read sa) c)" if "\<not> c_handling c \<or> c_read_st c \<noteq> None"
    using assms that by (intro read_ok) (auto simp: good_def conn_ok_def states_ok_def)
  have "c_write_st c \<noteq> None \<Longrightarrow> c_nrecs c \<noteq> 0" using c(1) by (simp add: conn_ok_def states_ok_def)
  then show ?thesis using hs rd dowrite_ok [OF assms] assms by (auto simp: readConnection_def intro: goes_onI)
qed

lemma tick_ok:
  assumes "good P c"
  shows "goes_on P (conn_tick react c)"
proof -
  have first: "goes_on P (if c_tickreg c then checkPendingConnection (client_raise react) c else Inr c)"
  proof -
    have "goes_on P (Connection_close (client_raise react) True (c\<lparr>c_connecting := n, c_writereg := False\<rparr>))" for n
      using assms by (intro close_goes_on good_tick_off) (simp add: good_def)
    moreover have "good P (c\<lparr>c_connecting := c_connecting c - 1\<rparr>)" if "c_connecting c \<noteq> 0"
      using assms that by (simp add: good_def conn_ok_def live_ok_def waits_ok_def timers_ok_def ssl_wants_def)
    ultimately show ?thesis using assms by (simp add: checkPendingConnection_def Let_def goes_onI)
  qed
  have second: "goes_on P (if c_tlstickreg d then checkPendingTls (client_raise react) d else Inr d)" if "good P d" for d
  proof -
    have "goes_on P (Connection_close (client_raise react) True (d\<lparr>c_connect_ticks := n\<rparr>))" for n
      using that by (intro close_goes_on good_tick_off) (simp add: good_def)
    moreover have "good P (d\<lparr>c_connect_ticks := c_connect_ticks d - 1\<rparr>)" if "c_connect_ticks d \<noteq> 1" "c_connect_ticks d \<noteq> 0"
      using \<open>good P d\<close> that by (simp add: good_def conn_ok_def live_ok_def waits_ok_def timers_ok_def ssl_wants_def)
    ultimately show ?thesis using that by (simp add: checkPendingTls_def Let_def goes_onI)
  qed
  from first obtain d where d: "(if c_tickreg c then checkPendingConnection (client_raise react) c else Inr c) = Inr d" "good P d"
    unfolding goes_on_def by blast
  with second [OF d(2)] show ?thesis unfolding conn_tick_def by simp
qed

lemma resolved_ok: "good P c \<Longrightarrow> goes_on P (resolveRemoteAddrFinished b rc name c)"
  proof -
  assume c: "good P c"
  then obtain a where "c_addr c = Some a" by (auto simp: good_def conn_ok_def states_ok_def)
  with c show ?thesis by (simp add: resolveRemoteAddrFinished_def goes_on_def name_good job_good)
qed

lemma act_ok:
  assumes "good P c" "allowed (OpAct f)"
  shows "goes_on P (conn_step react (OpAct f) c)"
proof -
  obtain ks close u where f: "f c = (ks, close, u)" by (cases "f c") auto
  let ?d = "fold client_do ks (c\<lparr>cl_user := u\<rparr>)"
  have "history_ok P ?d" using acts [OF assms(2) _ _ f] assms(1) by (simp add: good_def conn_ok_def)
  with assms(1) have "conn_ok P ?d" "live_ok ?d" by (simp_all add: good_def conn_ok_def live_ok_def do_all)
  then show ?thesis by (cases close) (simp_all add: f Let_def close_goes_on goes_onI good_def)
qed

lemma step_ok: "good P c \<Longrightarrow> allowed k \<Longrightarrow> goes_on P (conn_step react k c)"
  by (cases k) (simp_all add: act_ok [simplified] goes_onI writeConnection_ok readConnection_ok tick_ok resolved_ok close_goes_on
      good_def [of P c])

lemma run_ok: "good P c \<Longrightarrow> list_all allowed ks \<Longrightarrow> goes_on P (conn_run react ks c)"
proof (induction ks arbitrary: c)
  case (Cons k ks)
  obtain d where "conn_step react k c = Inr d" "good P d" using step_ok [of c k] Cons.prems by (auto simp: goes_on_def)
  with Cons show ?case by simp
qed (simp add: goes_onI)

lemma run_open:
  assumes "P (cl_user mem) [] [] [] []" "list_all allowed ks"
  shows "\<exists>c. conn_run react ks (open_conn mode tls addr host numeric active mem) = Inr c \<and> good P c"
  using run_ok [OF open_good [of P mem] assms(2)] assms(1) unfolding goes_on_def by blast

text \<open>The destructor after its loop.\<close>

lemma deleteConnection_ok:
  assumes "quiet react" "good P c" "c_deleteScheduled c = 1"
  shows "c_resolveJob c = None \<or> \<not> queued \<Longrightarrow>
      \<exists>d. deleteConnection (client_raise react) queued NWRITERECS c = Some (Inr d) \<and> c_wire d = c_wire c \<and> c_nrecs d = 0
        \<and> cl_sent d = cl_sent c @ the_ids (map wr_id (recs c)) \<and> c_closes d = c_closes c \<and> c_frees d = c_frees c + 1 \<and> c_donereg d = c_donereg c - 1
        \<and> \<not> (c_handlers d \<or> c_readreg d \<or> c_writereg d \<or> c_tickreg d \<or> c_tlstickreg d)"
    "c_resolveJob c \<noteq> None \<and> queued \<Longrightarrow>
      deleteConnection (client_raise react) queued NWRITERECS c = Some (Inl NullDeref)"
proof -
  let ?c = "c\<lparr>c_deleteScheduled := 2, c_readreg := False, c_writereg := False\<rparr>"
  have r: "recs ?c = recs c" "rec_cells ?c = rec_cells c" by (rule recs_cong rec_cells_cong; simp)+
  have "ring_ok c" using assms(2) by (simp add: good_def conn_ok_def stream_ok_def)
  then have ring: "ring_ok ?c" "c_nrecs ?c \<le> NWRITERECS" using r(2) by (simp_all add: ring_ok_def)
  obtain b u where b: "destroy_recs (client_raise react) NWRITERECS ?c =
      Some (Inr (?c\<lparr>c_baserecidx := b, c_nrecs := 0, cl_sent := cl_sent ?c @ the_ids (map wr_id (recs ?c)), cl_user := u\<rparr>))"
    using destroy_recs_ok [OF assms(1) ring(1) _ ring(2)] by auto
  show "\<exists>d. deleteConnection (client_raise react) queued NWRITERECS c = Some (Inr d) \<and> c_wire d = c_wire c \<and> c_nrecs d = 0
        \<and> cl_sent d = cl_sent c @ the_ids (map wr_id (recs c)) \<and> c_closes d = c_closes c \<and> c_frees d = c_frees c + 1 \<and> c_donereg d = c_donereg c - 1
        \<and> \<not> (c_handlers d \<or> c_readreg d \<or> c_writereg d \<or> c_tickreg d \<or> c_tlstickreg d)" if "c_resolveJob c = None \<or> \<not> queued"
    using that b by (cases "c_resolveJob c"; cases "c_data c")
      (simp_all add: deleteConnection_def Connection_destroy_def cancel_resolve_def delete_data_def log_conn_def Let_def r(1))
  show "deleteConnection (client_raise react) queued NWRITERECS c = Some (Inl NullDeref)" if "c_resolveJob c \<noteq> None \<and> queued"
    using that b by (cases "c_resolveJob c")
      (simp_all add: deleteConnection_def Connection_destroy_def cancel_resolve_def resolveRemoteAddrFinished_def log_conn_def Let_def)
qed

end

section \<open>Any user\<close>

text \<open>A user that promises nothing may do what it likes.\<close>

interpretation any_user: conn_user react "\<lambda>_ _ _ _ _. True" "\<lambda>_. True"
  by unfold_locales (simp_all add: history_ok_def)

lemmas any_run = any_user.run_open [OF TrueI, unfolded list_all_iff, OF ballI, OF TrueI]

abbreviation (input) sound :: "'u client_conn \<Rightarrow> bool" where
  "sound \<equiv> good (\<lambda>_ _ _ _ _. True)"

lemma run_open_sound: "conn_run react ks (open_conn mode tls addr host numeric active mem) = Inr c \<Longrightarrow> sound c"
  using any_run [of react ks mode tls addr host numeric active mem] by auto

end
