(* ===== verification/ConnStream.thy ===== *)
theory ConnStream
  imports ConnUser
begin

text \<open>
  What a connection (\<open>src/lib/ircbot/connection.c\<close>) promises to any user, over any run of its
  handlers, timers and calls: the bytes and confirmations in order, that it never gets stuck,
  what its deletion does, and how an attempt to connect ends.
\<close>

lemma stream_bytes:
  "stream_ok c \<Longrightarrow> c_wire c @ unsent c = concat (map fst (cl_accepted c))" "stream_ok c \<Longrightarrow> length (recs c) \<le> NWRITERECS"
  by (auto simp: stream_ok_def ring_ok_def recs_def rec_cells_def)

lemma sent_ids: "stream_ok c \<Longrightarrow> cl_sent c @ the_ids (map wr_id (recs c)) = ids (cl_accepted c)"
  by (auto simp: stream_ok_def ids_def)

section \<open>An example for the witnesses\<close>

text \<open>A user that writes once it is connected, and answers the first confirmation by another write.\<close>

definition blank_conn :: "unit client_conn" where
  "blank_conn =
    \<lparr>c_writerecs = uninit NWRITERECS, c_nrecs = 0, c_baserecidx = 0, c_connecting = 0, c_handling = False,
     c_tls = False, c_connect_st = None, c_read_st = None, c_write_st = None, c_connect_ticks = 0,
     c_addr = None, c_name = None, c_resolveJob = None, c_sa = None, c_data = None, c_deleteScheduled = 0,
     c_handlers = False, c_readreg = False, c_writereg = False, c_tickreg = False, c_tlstickreg = False,
     c_donereg = 0, c_closes = 0, c_frees = 0, c_wire = [], c_calls = [], c_tls_ctx = False, c_tls_nconn = 0,
     c_blacklist = blacklist_init, cl_user = (), cl_accepted = [], cl_sent = [], cl_received = [], cl_overrun = False,
     cl_closed = []\<rparr>"

fun demo_react :: "unit reaction" where
  "demo_react EvConnConnected c = (False, [CWrite ''ab'' (Some 1), CWrite ''c'' None], ())"
| "demo_react (EvDataSent i) c = (False, if i = 1 \<and> c_deleteScheduled c \<noteq> 2 then [CWrite ''d'' (Some 2)] else [], ())"
| "demo_react _ c = (False, [], ())"

definition demo_open :: "bool \<Rightarrow> unit client_conn" where
  "demo_open active = open_conn CCM_CONNECTING True ''A'' ''a'' False active blank_conn"

definition demo_answers :: sys_answers where
  "demo_answers = \<lparr>sa_failed = False, sa_handshake = Ready (), sa_write = Ready 1, sa_read = Again WANT_READ\<rparr>"

text \<open>The connect succeeds, the handshake too, and three times one byte is written.\<close>

definition demo_ops :: "unit conn_op list" where
  "demo_ops = replicate 4 (OpWritable demo_answers)"

definition demo_run :: "bool \<Rightarrow> unit conn_op list \<Rightarrow> unit client_conn" where
  "demo_run active ks = projr (conn_run demo_react ks (demo_open active))"

lemma demo_runs: "conn_run demo_react ks (demo_open active) = Inr (demo_run active ks)"
  using any_run [of demo_react ks CCM_CONNECTING True "''A''" "''a''" False active blank_conn]
  by (auto simp: demo_run_def demo_open_def)

text \<open>What the witnesses look at.\<close>

definition demo_view :: "unit client_conn \<Rightarrow> nat \<times> nat option \<times> string \<times> string \<times> nat list \<times> nat list" where
  "demo_view c = (c_deleteScheduled c, c_resolveJob c, c_wire c, unsent c, cl_sent c, ids (cl_accepted c))"

lemma demo_views:
  "demo_view (demo_run True demo_ops) = (0, Some 0, ''abc'', ''d'', [1], [1, 2])"
  "demo_view (demo_run False (demo_ops @ [OpClose False])) = (1, None, ''abc'', ''d'', [1], [1, 2])"
  "demo_view (demo_run True [OpClose False]) = (1, Some 0, [], [], [], [])"
  by code_simp+

lemmas demo_values = demo_views [unfolded demo_view_def prod.inject]

lemma quiet_demo: "quiet demo_react"
  by (simp add: quiet_def)

section \<open>What a connection promises\<close>


text \<open>C21: a connection that is not closed never gets stuck: while it is connecting, has bytes to
  write, or the TLS library wants to write, its descriptor is registered for writing; when the
  library wants to read, for reading; and a pending connect or TLS handshake has its timer
  running.\<close>

theorem conn_waits:
  assumes "conn_run react ks (open_conn mode tls addr host numeric active mem) = Inr c" "c_deleteScheduled c = 0"
  shows "(c_connecting c \<noteq> 0 \<or> unsent c \<noteq> [] \<or> ssl_wants WANT_WRITE c \<longrightarrow> c_writereg c)
    \<and> (ssl_wants WANT_READ c \<longrightarrow> c_readreg c) \<and> (c_connecting c \<noteq> 0 \<longrightarrow> c_tickreg c)
    \<and> (c_connect_st c \<noteq> None \<longrightarrow> c_tlstickreg c \<and> c_connect_ticks c \<noteq> 0)"
proof -
  have "sound c" by (rule run_open_sound [OF assms(1)])
  moreover have "unsent c \<noteq> [] \<Longrightarrow> c_nrecs c \<noteq> 0" by (auto simp: unsent_def recs_def rec_cells_def)
  ultimately show ?thesis using assms(2) by (auto simp: good_def live_ok_def waits_ok_def timers_ok_def)
qed

theorem conn_waits_witness:
  "c_deleteScheduled (demo_run True demo_ops) = 0 \<and> unsent (demo_run True demo_ops) = ''d'' \<and> c_writereg (demo_run True demo_ops)"
proof -
  show ?thesis using conn_waits [OF demo_runs [of demo_ops True, unfolded demo_open_def]] demo_values(1) by simp
qed



text \<open>A connection that is deleted while the lookup of its peer's name still waits in the queue
  of the thread pool uses a null pointer: cancelling the job resets \<open>resolveJob\<close>, which the
  destructor reads again.\<close>

theorem delete_while_queued:
  assumes "conn_run react ks (open_conn mode tls addr host numeric active mem) = Inr c" "c_deleteScheduled c = 1"
    "quiet react" "c_resolveJob c \<noteq> None"
  shows "deleteConnection (client_raise react) True NWRITERECS c = Some (Inl NullDeref)"
proof -
  have "sound c" by (rule run_open_sound [OF assms(1)])
  with any_user.deleteConnection_ok(2) [OF assms(3)] assms(2,4) show ?thesis by simp
qed

theorem delete_while_queued_witness:
  "deleteConnection (client_raise demo_react) True NWRITERECS (demo_run True [OpClose False]) = Some (Inl NullDeref)"
proof -
  show ?thesis
    using delete_while_queued [OF demo_runs [of "[OpClose False]" True, unfolded demo_open_def] _ quiet_demo] demo_values(3) by simp
qed

section \<open>A connection attempt that fails\<close>

lemma tick_pending:
  "c_tickreg c \<Longrightarrow> \<not> c_tlstickreg c \<Longrightarrow> c_connecting c > 1 \<Longrightarrow> conn_tick react c = Inr (c\<lparr>c_connecting := c_connecting c - 1\<rparr>)"
  by (simp add: conn_tick_def checkPendingConnection_def Let_def)

lemma ticks_pending:
  "c_tickreg c \<Longrightarrow> \<not> c_tlstickreg c \<Longrightarrow> int n < c_connecting c \<Longrightarrow>
   conn_run react (replicate n OpTick) c = Inr (c\<lparr>c_connecting := c_connecting c - int n\<rparr>)"
proof (induction n arbitrary: c)
  case (Suc n)
  then show ?case by (simp add: tick_pending algebra_simps)
qed simp

lemma run_append: "conn_run react (ks @ ls) c = bind_result (conn_run react ks c) (conn_run react ls)"
  by (induction ks arbitrary: c) (simp_all add: bind_result_def split: sum.splits)

text \<open>Closing an attempt that is reported with the argument \<open>b\<close>.\<close>

lemma close_pending:
  assumes "c_sa c = Some addr" "addr \<noteq> []" "c_deleteScheduled c = 0"
  shows "\<exists>d. Connection_close (client_raise react) True c = Inr d \<and> c_deleteScheduled d = 1 \<and> c_tlstickreg d = c_tlstickreg c
    \<and> cl_closed d = cl_closed c @ [c_connecting c = 0] \<and> c_blacklist d = Connection_blacklistAddress addr (c_blacklist c)"
  using assms by (simp add: Connection_close_def Let_def deleteLater_def log_conn_def)

lemma open_pending:
  fixes mem :: "'u client_conn"
  fixes tls addr host numeric active
  defines "c \<equiv> open_conn CCM_CONNECTING tls addr host numeric active mem"
  shows "c_tickreg c" "\<not> c_tlstickreg c" "c_connecting c = CONNTICKS" "c_deleteScheduled c = 0" "c_sa c = Some addr"
    "cl_closed c = []" "c_blacklist c = c_blacklist mem"
  by (simp_all add: c_def open_conn_def Connection_setRemoteAddr_def Connection_create_def Let_def log_conn_def)

text \<open>An attempt to connect survives five ticks of the service and is closed by the sixth, with its
  address blacklisted; but it is then reported as the close of an established connection, while
  an attempt the kernel reports as failed is reported, with a null argument, as an attempt.\<close>

theorem connect_fails:
  assumes "addr \<noteq> []" "sa_failed sa" "start = open_conn CCM_CONNECTING tls addr host numeric active mem"
  shows "(\<forall>n < 6. \<exists>c. conn_run react (replicate n OpTick) start = Inr c \<and> c_deleteScheduled c = 0 \<and> cl_closed c = [])
    \<and> (\<exists>c. conn_run react (replicate 6 OpTick) start = Inr c \<and> c_deleteScheduled c = 1 \<and> cl_closed c = [True]
         \<and> c_blacklist c = Connection_blacklistAddress addr (c_blacklist mem))
    \<and> (\<exists>c. conn_run react [OpWritable sa] start = Inr c \<and> c_deleteScheduled c = 1 \<and> cl_closed c = [False]
         \<and> c_blacklist c = Connection_blacklistAddress addr (c_blacklist mem))"
proof (intro conjI allI impI)
  note p = open_pending [of tls addr host numeric active mem, folded assms(3)]
  have run: "conn_run react (replicate n OpTick) start = Inr (start\<lparr>c_connecting := 6 - int n\<rparr>)" if "n < 6" for n
    using ticks_pending [OF p(1,2), of n react] that p(3) by simp
  then show "\<exists>c. conn_run react (replicate n OpTick) start = Inr c \<and> c_deleteScheduled c = 0 \<and> cl_closed c = []" if "n < 6" for n
    using that p by simp
  let ?t = "start\<lparr>c_connecting := 0, c_writereg := False\<rparr>"
  have "conn_run react (replicate 6 OpTick) start = conn_tick react (start\<lparr>c_connecting := 1\<rparr>)"
    using run [of 5] run_append [of react "replicate 5 OpTick" "[OpTick]" start]
    by (simp add: numeral_eq_Suc bind_result_def split: sum.split)
  moreover obtain d where d: "Connection_close (client_raise react) True ?t = Inr d" "c_deleteScheduled d = 1" "\<not> c_tlstickreg d"
      "cl_closed d = [True]" "c_blacklist d = Connection_blacklistAddress addr (c_blacklist mem)"
    using close_pending [of ?t addr react] assms(1) p by auto
  ultimately show "\<exists>c. conn_run react (replicate 6 OpTick) start = Inr c \<and> c_deleteScheduled c = 1 \<and> cl_closed c = [True]
       \<and> c_blacklist c = Connection_blacklistAddress addr (c_blacklist mem)"
    using p by (simp add: conn_tick_def checkPendingConnection_def Let_def)
  show "\<exists>c. conn_run react [OpWritable sa] start = Inr c \<and> c_deleteScheduled c = 1 \<and> cl_closed c = [False]
       \<and> c_blacklist c = Connection_blacklistAddress addr (c_blacklist mem)"
    using close_pending [of "start\<lparr>c_tickreg := False\<rparr>" addr react] assms(1,2) p
    by (auto simp: writeConnection_def Let_def)
qed

theorem connect_fails_witness:
  "(\<exists>c. conn_run demo_react (replicate 6 OpTick) (demo_open False) = Inr c \<and> cl_closed c = [True])
   \<and> (\<exists>c. conn_run demo_react [OpWritable (demo_answers\<lparr>sa_failed := True\<rparr>)] (demo_open False) = Inr c \<and> cl_closed c = [False])"
  using connect_fails [of "''A''" "demo_answers\<lparr>sa_failed := True\<rparr>" "demo_open False" True "''a''" False False blank_conn demo_react]
  by (auto simp: demo_open_def)

end
