(* ===== verification/ServerConn.thy ===== *)
theory ServerConn
  imports ServerListen ConnStream
begin

text \<open>
  A server and its connection together (\<open>ircserver.c\<close> over \<open>connection.c\<close>): the server is a user of
  the connection in the sense of \<open>conn_user\<close>. Its handlers are the reactions to the events, its
  writes become records of the connection, and what both promise alone gives what a session
  promises: which bytes go out, and which messages come in.
\<close>

section \<open>The server as a user of its connection\<close>

text \<open>Each write carries the address of the server as its id.\<close>

abbreviation (input) SELF :: nat where "SELF \<equiv> 1"

record 's owner =
  o_missed :: string                   \<comment> \<open>bytes that came while no handler was registered for them\<close>
  o_server :: "'s result"   \<comment> \<open>a fault ends what the server does\<close>

type_synonym 'x owned = "'x logged_server_scheme owner"

definition conn_registered :: "nat \<Rightarrow> conn_event \<Rightarrow> srv_handler \<Rightarrow> 'x IrcServer_scheme \<Rightarrow> bool" where
  "conn_registered conn ev h s \<longleftrightarrow> RegConn conn ev h \<in> set (s_calls s)"

text \<open>An event of the connection, for the handlers registered by \<open>IrcServer_connect\<close> and \<open>connConnected\<close>.\<close>

fun server_event :: "(srv_event \<Rightarrow> 'x logged_server_scheme \<Rightarrow> 'x logged_server_scheme result) \<Rightarrow> passwd option \<Rightarrow> (string \<Rightarrow> passwd option)
    \<Rightarrow> nat \<Rightarrow> conn_ev \<Rightarrow> 'x logged_server_scheme \<Rightarrow> 'x logged_server_scheme result" where
  "server_event raise pwuid pwnam conn EvConnConnected s =
     Inr (if conn_registered conn ConnectedEv ConnConnected s then connConnected conn s else s)"
| "server_event raise pwuid pwnam conn (EvConnClosed b) s =
     (if conn_registered conn ClosedEv ConnClosed s then connClosed raise conn b s else Inr s)"
| "server_event raise pwuid pwnam conn (EvDataReceived d) s =
     (if conn_registered conn DataReceivedEv ConnDataReceived s then connDataReceived raise pwuid pwnam conn d s else Inr s)"
| "server_event raise pwuid pwnam conn (EvDataSent i) s =
     (if conn_registered conn DataSentEv ConnDataSent s then connDataSent conn s else Inr s)"

definition missed :: "nat \<Rightarrow> conn_ev \<Rightarrow> 'x logged_server_scheme \<Rightarrow> string" where
  "missed conn e s = (case e of EvDataReceived d \<Rightarrow> if conn_registered conn DataReceivedEv ConnDataReceived s then [] else d | _ \<Rightarrow> [])"

text \<open>
  The calls a handler made on the connection. None of them gives the server a result it uses or
  raises an event, but a closing, which is always the last call of its handler.
\<close>

definition new_calls :: "'x IrcServer_scheme \<Rightarrow> 'x IrcServer_scheme \<Rightarrow> srv_call list" where
  "new_calls s s' = drop (length (s_calls s)) (s_calls s')"

definition writes :: "string list \<Rightarrow> client_op list" where
  "writes ls = map (\<lambda>l. CWrite l (Some SELF)) ls"

definition server_writes :: "'x IrcServer_scheme \<Rightarrow> 'x IrcServer_scheme \<Rightarrow> client_op list" where
  "server_writes s s' = writes (written_in (new_calls s s'))"

fun closed_in :: "srv_call list \<Rightarrow> bool option" where
  "closed_in [] = None"
| "closed_in (ConnClose k b # cs) = Some b"
| "closed_in (c # cs) = closed_in cs"

definition server_react :: "(srv_event \<Rightarrow> 'x logged_server_scheme \<Rightarrow> 'x logged_server_scheme result) \<Rightarrow> passwd option \<Rightarrow> (string \<Rightarrow> passwd option)
    \<Rightarrow> nat \<Rightarrow> 'x owned reaction" where
  "server_react raise pwuid pwnam conn e c =
     (let own = cl_user c in
      case o_server own of
        Inl f \<Rightarrow> (False, [], own)
      | Inr s \<Rightarrow>
          let r = server_event raise pwuid pwnam conn e s
          in (False, case r of Inl f \<Rightarrow> [] | Inr s' \<Rightarrow> server_writes s s',
              \<lparr>o_missed = o_missed own @ missed conn e s, o_server = r\<rparr>))"

text \<open>An action of the server by itself.\<close>

definition server_act :: "('x logged_server_scheme \<Rightarrow> 'x logged_server_scheme result) \<Rightarrow> 'x owned client_conn \<Rightarrow> client_op list \<times> bool option \<times> 'x owned" where
  "server_act h c =
     (let own = cl_user c in
      case o_server own of
        Inl f \<Rightarrow> ([], None, own)
      | Inr s \<Rightarrow>
          (case h s of
             Inl f \<Rightarrow> ([], None, own\<lparr>o_server := Inl f\<rparr>)
           | Inr s' \<Rightarrow> (server_writes s s', closed_in (new_calls s s'), own\<lparr>o_server := Inr s'\<rparr>)))"

text \<open>The handlers of the service's tick run while they are registered.\<close>

definition ticking :: "srv_handler \<Rightarrow> 'x IrcServer_scheme \<Rightarrow> bool" where
  "ticking h s = fold (\<lambda>c b. if c = RegTick h then True else if c = UnregTick h then False else b) (s_calls s) False"

text \<open>
  Everything that can happen in a session: the program asks for something, a timer ticks, or
  the descriptor, the resolver or the timers of the connection are handled.
\<close>

datatype server_op =
    AskCmd IrcCommand string | AskMsg string string bool | AskNick string | AskQuit
  | TickLogin | TickActive
  | OnWritable sys_answers | OnReadable sys_answers | OnTick | OnResolved bool int string

fun as_conn_op :: "nat \<Rightarrow> server_op \<Rightarrow> 'x owned conn_op" where
  "as_conn_op conn (AskCmd cmd args) = OpAct (server_act (send_step conn (OpCmd cmd args)))"
| "as_conn_op conn (AskMsg to message action) = OpAct (server_act (send_step conn (OpMsg to message action)))"
| "as_conn_op conn (AskNick nick) = OpAct (server_act (send_step conn (OpNick nick)))"
| "as_conn_op conn AskQuit = OpAct (server_act IrcServer_disconnect)"
| "as_conn_op conn TickLogin = OpAct (server_act (\<lambda>s. if ticking ConnWaitLogin s then connWaitLogin s else Inr s))"
| "as_conn_op conn TickActive = OpAct (server_act (\<lambda>s. if ticking ActiveTick s then activeTick s else Inr s))"
| "as_conn_op conn (OnWritable sa) = OpWritable sa"
| "as_conn_op conn (OnReadable sa) = OpReadable sa"
| "as_conn_op conn OnTick = ConnUser.OpTick"
| "as_conn_op conn (OnResolved b rc name) = OpResolved b rc name"

definition server_run :: "(srv_event \<Rightarrow> 'x logged_server_scheme \<Rightarrow> 'x logged_server_scheme result) \<Rightarrow> passwd option \<Rightarrow> (string \<Rightarrow> passwd option)
    \<Rightarrow> nat \<Rightarrow> server_op list \<Rightarrow> 'x owned client_conn \<Rightarrow> 'x owned client_conn result" where
  "server_run raise pwuid pwnam conn ops = conn_run (server_react raise pwuid pwnam conn) (map (as_conn_op conn) ops)"

text \<open>
  A session begins with \<open>IrcServer_connect\<close>: a connection is created that is still connecting, and its
  events are registered.
\<close>

definition session :: "nat \<Rightarrow> bool \<Rightarrow> address \<Rightarrow> string \<Rightarrow> bool \<Rightarrow> bool \<Rightarrow> 'x owned client_conn \<Rightarrow> 'x logged_server_scheme \<Rightarrow> 'x owned client_conn" where
  "session conn tls addr host numeric active mem s =
     open_conn CCM_CONNECTING tls addr host numeric active
       (mem\<lparr>cl_user := \<lparr>o_missed = [], o_server = Inr (snd (IrcServer_connect (Some conn) s))\<rparr>\<rparr>)"

text \<open>A server that has nothing left of an earlier session.\<close>

definition fresh :: "'x logged_server_scheme \<Rightarrow> bool" where
  "fresh s \<longleftrightarrow> s_conn s = None \<and> s_sendQueue s = None \<and> \<not> s_sending s \<and> s_recvbufsz s = 0
     \<and> length (s_recvbuf s) = RECVBUFSZ \<and> s_calls s = [] \<and> l_log s = []"

lemma created_fresh:
  "length (s_recvbuf mem) = RECVBUFSZ \<Longrightarrow> s_calls mem = [] \<Longrightarrow> l_log mem = [] \<Longrightarrow>
    fresh (IrcServer_create mem sid remotehost port nick user realname)"
  by (simp add: fresh_def IrcServer_create_def)

section \<open>Writes that are accepted\<close>

lemma nrecs_recs: "stream_ok c \<Longrightarrow> c_nrecs c = length (recs c)"
  by (simp add: recs_def rec_cells_def)

lemma the_ids_Some [simp]: "the_ids (map (\<lambda>l. Some i) ls) = map (\<lambda>l. i) ls"
  by (induction ls) simp_all

text \<open>When all writes carry an id, the writes that wait are those not confirmed.\<close>

lemma waiting_writes:
  assumes "stream_ok c" "cl_accepted c = map (\<lambda>l. (l, Some SELF)) ls"
  shows "length ls = length (cl_sent c) + length (recs c)"
proof -
  obtain ns where ns: "map snd (cl_accepted c) = ns @ map wr_id (recs c)" "cl_sent c = the_ids ns"
    using assms(1) by (auto simp: stream_ok_def)
  have all: "ns @ map wr_id (recs c) = map (\<lambda>l. Some SELF) ls" using ns(1) assms(2) by (simp add: comp_def)
  have "None \<notin> set ns"
  proof
    assume "None \<in> set ns"
    then have "None \<in> set (ns @ map wr_id (recs c))" by simp
    then show False unfolding all by auto
  qed
  then have "filter (\<lambda>i. i \<noteq> None) ns = ns" by (intro filter_True) (metis (full_types))
  then have "length (the_ids ns) = length ns" by (simp add: the_ids_def)
  moreover have "length ns + length (recs c) = length ls" using arg_cong [OF all, of length] by simp
  ultimately show ?thesis using ns(2) by simp
qed

lemma do_writes:
  assumes "length ls \<le> 1" "ls \<noteq> [] \<longrightarrow> c_nrecs c \<noteq> NWRITERECS"
  shows "cl_accepted (fold client_do (writes ls) c) = cl_accepted c @ map (\<lambda>l. (l, Some SELF)) ls"
    "cl_user (fold client_do (writes ls) c) = cl_user c" "cl_sent (fold client_do (writes ls) c) = cl_sent c"
    "cl_received (fold client_do (writes ls) c) = cl_received c" "cl_closed (fold client_do (writes ls) c) = cl_closed c"
  using assms by (cases ls; simp add: writes_def Connection_write_def Let_def wantreadwrite_regs)+

section \<open>What the actions of the server do\<close>

text \<open>An action writes like a handler, and may close the connection at last.\<close>

definition asks :: "'x logged_server_scheme \<Rightarrow> 'x logged_server_scheme \<Rightarrow> bool" where
  "asks s s' \<longleftrightarrow> (\<exists>t. heard [] s t \<and> (s' = t \<or> (\<exists>k b. s' = call (ConnClose k b) t)))"

lemma asksI: "heard [] s t \<Longrightarrow> asks s t"
  by (auto simp: asks_def)

lemma call_recv [simp]:
  "s_recvbuf (call c s) = s_recvbuf s" "s_recvbufsz (call c s) = s_recvbufsz s" "pending_bytes (call c s) = pending_bytes s"
  "l_log (call c (t :: 'x logged_server_scheme)) = l_log t"
  by (simp_all add: call_def pending_bytes_def)

lemma conn_close_asks: "heard [] s t \<Longrightarrow> conn_close b t = Inr s' \<Longrightarrow> asks s s'"
  by (auto simp: asks_def conn_close_def split: option.splits)

lemma heard_tick: "heard [] s (call (UnregTick h) s)"
  using talks_call [of s "UnregTick h"] by (simp add: heard_def recv_same_def modest_def is_write_def)

lemma heard_ticks: "heard [] s (s\<lparr>s_loginticks := n\<rparr>)" "heard [] s (s\<lparr>s_idleticks := n\<rparr>)" "heard [] s (s\<lparr>s_sendcreditticks := n\<rparr>)"
  by (simp_all add: heard_def recv_same_def talks_same)

lemma connWaitLogin_asks: "connWaitLogin s = Inr s' \<Longrightarrow> asks s s'"
  using heard_trans [OF heard_ticks(1) heard_tick] conn_close_asks asksI heard_ticks(1)
  by (fastforce simp: connWaitLogin_def Let_def split: if_splits)

lemma disconnect_asks: "IrcServer_disconnect s = Inr s' \<Longrightarrow> asks s s'"
proof -
  assume d: "IrcServer_disconnect s = Inr s'"
  let ?u = "call (UnregTick ConnWaitReconn) (call (UnregTick ConnWaitLogin) s)"
  have u: "heard [] s ?u" using heard_trans [OF heard_tick heard_tick] .
  have "asks s s'" if "sendRawCmd MSG_QUIT (Some '':bye.'') ?u = Inr s'"
    using heard_trans [OF u sendRawCmd_heard [OF that]] by (rule asksI)
  then show "asks s s'"
    using d conn_close_asks [OF u] asksI [OF u] by (auto simp: IrcServer_disconnect_def Let_def split: if_splits)
qed

lemma activeTick_asks:
  assumes "activeTick s = Inr s'"
  shows "asks s s'"
proof -
  let ?s1 = "if s_sendcreditticks s < FULLSENDCREDIT then s\<lparr>s_sendcreditticks := s_sendcreditticks s + 1\<rparr> else s"
  obtain t where t: "sendRaw None ?s1 = Inr t"
    and rest: "(let self = t\<lparr>s_idleticks := s_idleticks t - 1\<rparr> in
        if s_idleticks self = 0 then sendRawCmd MSG_PING (Some (s_nick self)) self
        else if s_idleticks self \<le> - PINGTICKS then conn_close False (call (UnregTick ActiveTick) self)
        else Inr self) = Inr s'"
    using assms by (auto simp: activeTick_def Let_def bind_result_eq_Inr)
  have "heard [] s ?s1" by (simp add: heard_ticks)
  then have u: "heard [] s (t\<lparr>s_idleticks := s_idleticks t - 1\<rparr>)" (is "heard [] s ?u")
    using sendRaw_heard [OF t] heard_ticks(2) heard_trans by blast
  have "asks s s'" if "sendRawCmd MSG_PING (Some (s_nick t)) ?u = Inr s'"
    using heard_trans [OF u sendRawCmd_heard [OF that]] by (rule asksI)
  moreover have "asks s s'" if "conn_close False (call (UnregTick ActiveTick) ?u) = Inr s'"
    using conn_close_asks [OF heard_trans [OF u heard_tick] that] .
  ultimately show ?thesis using rest asksI [OF u] by (auto simp: Let_def split: if_splits)
qed

lemma send_step_asks:
  "send_step conn (OpCmd cmd args) s = Inr s' \<Longrightarrow> asks s s'"
  "send_step conn (OpMsg to message action) s = Inr s' \<Longrightarrow> asks s s'"
  "send_step conn (OpNick nick) s = Inr s' \<Longrightarrow> asks s s'"
proof -
  show "asks s s'" if "send_step conn (OpCmd cmd args) s = Inr s'"
    using that asksI [OF heard_refl, of s] asksI [OF sendRawCmd_heard]
    by (auto simp: IrcServer_sendCmd_def bind_result_eq_Inr split: if_splits)
  show "asks s s'" if "send_step conn (OpMsg to message action) s = Inr s'"
    using that asksI [OF heard_refl, of s] asksI [OF send_lines_heard]
    by (auto simp: IrcServer_sendMsg_def bind_result_eq_Inr Let_def split: if_splits option.splits)
  show "asks s s'" if "send_step conn (OpNick nick) s = Inr s'"
    using that asksI [OF heard_refl, of s] asksI [OF heard_nick [of s nick]]
      asksI [OF heard_trans [OF heard_nick [of s nick] sendRawCmd_heard]]
    by (auto simp: IrcServer_setNick_def Let_def split: if_splits)
qed

text \<open>What may happen in a session: an operation, or any action that does no more than that.\<close>

definition lawful :: "nat \<Rightarrow> 'x owned conn_op \<Rightarrow> bool" where
  "lawful conn k \<longleftrightarrow> (\<exists>op. k = as_conn_op conn op) \<or> (\<exists>h. k = OpAct (server_act h) \<and> (\<forall>s s'. h s = Inr s' \<longrightarrow> asks s s'))"

lemma lawful_op [simp]: "lawful conn (as_conn_op conn op)"
  by (auto simp: lawful_def)

lemma lawful_act: "(\<And>s s'. h s = Inr s' \<Longrightarrow> asks s s') \<Longrightarrow> lawful conn (OpAct (server_act h))"
  by (auto simp: lawful_def)

lemma lawful_asks:
  assumes "lawful conn (OpAct f)"
  shows "\<exists>h. f = server_act h \<and> (\<forall>s s'. h s = Inr s' \<longrightarrow> asks s s')"
proof -
  have "\<exists>h. f = server_act h \<and> (\<forall>s s'. h s = Inr s' \<longrightarrow> asks s s')" if "OpAct f = as_conn_op conn op" for op
    using that
    by (cases op) (auto intro!: exI simp del: send_step.simps intro: send_step_asks disconnect_asks connWaitLogin_asks activeTick_asks
        asksI [OF heard_refl] split: if_splits)
  with assms show ?thesis by (auto simp: lawful_def)
qed

section \<open>The invariant of a session\<close>

text \<open>No line and no unfinished line of the stream is longer than the buffer allows.\<close>

definition short_lines :: "string \<Rightarrow> bool" where
  "short_lines d \<longleftrightarrow> (\<forall>k. length (snd (crlf_split (take k d))) \<le> 4096)"

definition lines_ids :: "string list \<Rightarrow> (string \<times> nat option) list" where
  "lines_ids ls = map (\<lambda>l. (l, Some SELF)) ls"

text \<open>While the connection is open: what waits for a confirmation, and what was made of the bytes received.\<close>

definition open_ok :: "nat \<Rightarrow> string \<Rightarrow> 'x logged_server_scheme \<Rightarrow> nat list \<Rightarrow> string \<Rightarrow> bool" where
  "open_ok conn miss s sent recv \<longleftrightarrow>
     length (written s) = length sent + (if s_sending s then 1 else 0)
     \<and> (\<exists>d. recv = miss @ d \<and> (conn_registered conn DataReceivedEv ConnDataReceived s \<or> d = [])
          \<and> (short_lines d \<longrightarrow> l_log s = stream_messages d \<and> pending_bytes s = snd (crlf_split d)))"

definition server_ok :: "nat \<Rightarrow> string \<Rightarrow> 'x logged_server_scheme \<Rightarrow> (string \<times> nat option) list \<Rightarrow> nat list \<Rightarrow> string \<Rightarrow> bool list \<Rightarrow> bool" where
  "server_ok conn miss s acc sent recv closed \<longleftrightarrow>
     recv_ok s \<and> acc = lines_ids (written s) \<and> conn_registered conn ClosedEv ConnClosed s
     \<and> (s_sendQueue s \<noteq> None \<or> written s \<noteq> [] \<longrightarrow> conn_registered conn DataSentEv ConnDataSent s)
     \<and> (if closed = [] then s_conn s = Some conn \<and> open_ok conn miss s sent recv else s_conn s = None)"

definition session_ok :: "nat \<Rightarrow> 'x owned history" where
  "session_ok conn own acc sent recv closed \<longleftrightarrow>
     (\<forall>s. o_server own = Inr s \<longrightarrow> server_ok conn (o_missed own) s acc sent recv closed)"

text \<open>The calls between two states.\<close>

lemma new_calls_append: "s_calls s' = s_calls s @ cs \<Longrightarrow> new_calls s s' = cs"
  by (simp add: new_calls_def)

lemma modest_no_reg: "list_all (modest k) cs \<Longrightarrow> RegConn conn e h \<notin> set cs" "list_all (modest None) cs \<Longrightarrow> written_in cs = []"
  by (auto simp: list_all_iff modest_def) (induction cs rule: written_in.induct; auto simp: modest_def)

lemma talks_news:
  assumes "talks s s'"
  shows "s_conn s' = s_conn s" "s_sendQueue s' = None \<longleftrightarrow> s_sendQueue s = None" "conn_registered conn e h s' \<longleftrightarrow> conn_registered conn e h s"
    "written s' = written s @ written_in (new_calls s s')" "s_sendQueue s = None \<or> s_conn s = None \<longrightarrow> written_in (new_calls s s') = []"
    "if s_sending s then s_sending s' \<and> written_in (new_calls s s') = []
     else length (written_in (new_calls s s')) = (if s_sending s' then 1 else 0)"
proof -
  obtain cs where cs: "s_calls s' = s_calls s @ cs" "list_all (modest (s_conn s)) cs" "s_sendQueue s = None \<longrightarrow> written_in cs = []"
      "if s_sending s then s_sending s' \<and> written_in cs = [] else length (written_in cs) = (if s_sending s' then 1 else 0)"
      "s_conn s' = s_conn s" "s_sendQueue s' = None \<longleftrightarrow> s_sendQueue s = None"
    using assms by (auto simp: talks_def)
  note n = new_calls_append [OF cs(1)]
  show "s_conn s' = s_conn s" "s_sendQueue s' = None \<longleftrightarrow> s_sendQueue s = None" by (fact cs)+
  show "conn_registered conn e h s' \<longleftrightarrow> conn_registered conn e h s" using modest_no_reg(1) [OF cs(2)] by (simp add: conn_registered_def cs(1))
  show "written s' = written s @ written_in (new_calls s s')" by (simp add: written_def cs(1) n written_in_append)
  show "s_sendQueue s = None \<or> s_conn s = None \<longrightarrow> written_in (new_calls s s') = []" using cs(2,3) modest_no_reg(2) by (auto simp: n)
  show "if s_sending s then s_sending s' \<and> written_in (new_calls s s') = []
     else length (written_in (new_calls s s')) = (if s_sending s' then 1 else 0)" using cs(4) by (simp only: n)
qed

text \<open>
  A step of the server that writes: the connection takes every line, since at most one is
  not confirmed.
\<close>

lemma step_writes:
  assumes "talks s s'" "stream_ok c" "cl_accepted c = lines_ids (written s)"
    "s_conn s \<noteq> None \<longrightarrow> length (written s) = length (cl_sent c) + (if s_sending s then 1 else 0)"
  defines "d \<equiv> fold client_do (server_writes s s') c"
  shows "cl_accepted d = lines_ids (written s')" "cl_user d = cl_user c" "cl_sent d = cl_sent c" "cl_received d = cl_received c"
    "cl_closed d = cl_closed c" "s_conn s \<noteq> None \<longrightarrow> length (written s') = length (cl_sent c) + (if s_sending s' then 1 else 0)"
proof -
  note n = talks_news [OF assms(1)]
  let ?ws = "written_in (new_calls s s')"
  have one: "length ?ws \<le> 1" using n(6) by (auto split: if_splits)
  have "c_nrecs c \<noteq> NWRITERECS" if "?ws \<noteq> []"
  proof -
    have "s_conn s \<noteq> None" "\<not> s_sending s" using that n(5,6) by auto
    then have "length (recs c) = 0"
      using assms(4) waiting_writes [OF assms(2), of "written s"] assms(3) by (simp add: lines_ids_def)
    then show ?thesis by (simp add: nrecs_recs [OF assms(2)])
  qed
  note w = do_writes [OF one, of c, folded server_writes_def, folded d_def]
  show "cl_accepted d = lines_ids (written s')" using w(1) \<open>?ws \<noteq> [] \<Longrightarrow> c_nrecs c \<noteq> NWRITERECS\<close> assms(3) n(4) by (simp add: lines_ids_def)
  show "cl_user d = cl_user c" "cl_sent d = cl_sent c" "cl_received d = cl_received c" "cl_closed d = cl_closed c"
    using w(2-5) \<open>?ws \<noteq> [] \<Longrightarrow> c_nrecs c \<noteq> NWRITERECS\<close> by blast+
  show "s_conn s \<noteq> None \<longrightarrow> length (written s') = length (cl_sent c) + (if s_sending s' then 1 else 0)"
    using n(4,6) assms(4) by (auto split: if_splits)
qed

section \<open>Every step keeps the invariant\<close>

abbreviation (input) serves :: "nat \<Rightarrow> string \<Rightarrow> 'x logged_server_scheme \<Rightarrow> 'x owned client_conn \<Rightarrow> bool" where
  "serves conn miss s c \<equiv> server_ok conn miss s (cl_accepted c) (cl_sent c) (cl_received c) (cl_closed c)"

lemma serves_closed:
  assumes "serves conn miss s c" "stream_ok c" "talks s s'" "cl_closed c \<noteq> []" "recv_ok s'"
  shows "serves conn miss' s' (fold client_do (server_writes s s') c)"
proof -
  note w = step_writes [OF assms(3,2)]
  show ?thesis using w assms(1,4,5) talks_news(1-5) [OF assms(3)] by (auto simp: server_ok_def)
qed

lemma serves_open:
  assumes "serves conn miss s c" "stream_ok c" "talks s s'" "cl_closed c = []" "recv_ok s'"
    "open_ok conn miss s (cl_sent c) (cl_received c) \<Longrightarrow>
      length (written s') = length (cl_sent c) + (if s_sending s' then 1 else 0) \<Longrightarrow> open_ok conn miss' s' (cl_sent c) (cl_received c)"
  shows "serves conn miss' s' (fold client_do (server_writes s s') c)"
proof -
  have s: "open_ok conn miss s (cl_sent c) (cl_received c)" "cl_accepted c = lines_ids (written s)" "s_conn s = Some conn"
    using assms(1,4) by (simp_all add: server_ok_def)
  have "length (written s) = length (cl_sent c) + (if s_sending s then 1 else 0)" using s(1) by (simp add: open_ok_def)
  then have "s_conn s \<noteq> None \<longrightarrow> length (written s) = length (cl_sent c) + (if s_sending s then 1 else 0)" ..
  note w = step_writes [OF assms(3,2) s(2) this]
  show ?thesis using w assms(1,4,5) assms(6) [OF s(1)] s(3) talks_news(1-5) [OF assms(3)] by (auto simp: server_ok_def)
qed

lemma heard_serves:
  assumes "serves conn miss s c" "stream_ok c" "heard [] s s'"
  shows "serves conn miss s' (fold client_do (server_writes s s') c)"
proof -
  have h: "recv_same s s'" "talks s s'" "l_log s' = l_log s" using assms(3) by (simp_all add: heard_def)
  have ok: "recv_ok s'" using h(1) assms(1) by (simp add: recv_ok_def recv_same_def server_ok_def)
  have pend: "pending_bytes s' = pending_bytes s" using h(1) by (simp add: recv_same_def pending_bytes_def)
  show ?thesis
  proof (cases "cl_closed c = []")
    case True
    from assms(1,2) h(2) True ok show ?thesis
      by (rule serves_open) (simp add: open_ok_def h(3) pend talks_news(3) [OF h(2)])
  next
    case False
    with serves_closed [OF assms(1,2) h(2)] ok show ?thesis by blast
  qed
qed

lemma asks_serves:
  assumes "serves conn miss s c" "stream_ok c" "asks s s'"
  shows "serves conn miss s' (fold client_do (server_writes s s') c)"
proof -
  obtain t where t: "heard [] s t" "s' = t \<or> (\<exists>k b. s' = call (ConnClose k b) t)" using assms(3) by (auto simp: asks_def)
  have t_ok: "serves conn miss t (fold client_do (server_writes s t) c)" by (rule heard_serves [OF assms(1,2) t(1)])
  show ?thesis
  proof (cases "s' = t")
    case False
    then obtain k b where s': "s' = call (ConnClose k b) t" using t(2) by blast
    obtain cs where "s_calls t = s_calls s @ cs" using t(1) by (auto simp: heard_def talks_def)
    then have "server_writes s s' = server_writes s t"
      by (simp add: s' server_writes_def new_calls_def call_def written_in_append)
    moreover have "conn_registered conn e h s' \<longleftrightarrow> conn_registered conn e h t" for e h by (simp add: s' conn_registered_def call_def)
    moreover from this have "open_ok conn miss s' sent recv \<longleftrightarrow> open_ok conn miss t sent recv" for sent recv
      by (simp add: open_ok_def s')
    ultimately show ?thesis using t_ok by (simp add: s' server_ok_def recv_ok_def)
  qed (use t_ok in simp)
qed

lemma act_serves:
  assumes "history_ok (session_ok conn) c" "stream_ok c" "server_act h c = (ks, close, u)" "\<And>s s'. h s = Inr s' \<Longrightarrow> asks s s'"
  shows "history_ok (session_ok conn) (fold client_do ks (c\<lparr>cl_user := u\<rparr>))"
proof (cases "o_server (cl_user c)")
  case (Inl f)
  with assms(1,3) show ?thesis by (auto simp: server_act_def Let_def history_ok_def)
next
  case s: (Inr s)
  show ?thesis
  proof (cases "h s")
    case (Inl f)
    with assms(3) s show ?thesis by (auto simp: server_act_def Let_def history_ok_def session_ok_def)
  next
    case (Inr s')
    let ?c = "c\<lparr>cl_user := (cl_user c)\<lparr>o_server := Inr s'\<rparr>\<rparr>"
    have "serves conn (o_missed (cl_user c)) s ?c" using assms(1) s by (simp add: history_ok_def session_ok_def)
    from asks_serves [OF this] assms(2,4) Inr
    have "serves conn (o_missed (cl_user c)) s' (fold client_do (server_writes s s') ?c)" by simp
    moreover have "u = (cl_user c)\<lparr>o_server := Inr s'\<rparr>" "ks = server_writes s s'"
      using assms(3) s Inr by (simp_all add: server_act_def Let_def)
    ultimately show ?thesis by (simp add: history_ok_def session_ok_def)
  qed
qed

lemma event_user [simp]: "cl_user (note_event e c) = cl_user c" "cl_user (keep_buffer e b c) = cl_user c" "keep_buffer e False c = c"
  by (cases e; simp)+

lemma note_user: "(note_event e c)\<lparr>cl_user := u\<rparr> = note_event e (c\<lparr>cl_user := u\<rparr>)"
  by (cases e; cases c; simp)

text \<open>A reaction of the server: what it writes, after its new state is set.\<close>

lemma react_raise:
  assumes "o_server (cl_user c) = Inr s" "server_event raise pwuid pwnam conn e s = Inr s'"
  shows "client_raise (server_react raise pwuid pwnam conn) e c = fold client_do (server_writes s s')
    ((note_event e c)\<lparr>cl_user := \<lparr>o_missed = o_missed (cl_user c) @ missed conn e s, o_server = Inr s'\<rparr>\<rparr>)"
  using assms by (simp add: client_raise_def server_react_def Let_def)

lemma react_faults:
  assumes "\<And>s s'. o_server (cl_user c) = Inr s \<Longrightarrow> server_event raise pwuid pwnam conn e s \<noteq> Inr s'"
  shows "history_ok (session_ok conn) (client_raise (server_react raise pwuid pwnam conn) e c)"
proof (cases "o_server (cl_user c)")
  case (Inl f)
  then show ?thesis by (simp add: client_raise_def server_react_def Let_def history_ok_def session_ok_def)
next
  case (Inr s)
  with assms obtain f where "server_event raise pwuid pwnam conn e s = Inl f"
    by (cases "server_event raise pwuid pwnam conn e s") auto
  with Inr show ?thesis by (simp add: client_raise_def server_react_def Let_def history_ok_def session_ok_def)
qed

text \<open>So each event is a step of the server in the state that has noted it.\<close>

lemma react_serves:
  assumes "history_ok (session_ok conn) c"
    "\<And>s s'. o_server (cl_user c) = Inr s \<Longrightarrow> server_event raise pwuid pwnam conn e s = Inr s' \<Longrightarrow> serves conn (o_missed (cl_user c)) s c \<Longrightarrow>
      serves conn (o_missed (cl_user c) @ missed conn e s) s' (fold client_do (server_writes s s')
        ((note_event e c)\<lparr>cl_user := \<lparr>o_missed = o_missed (cl_user c) @ missed conn e s, o_server = Inr s'\<rparr>\<rparr>))"
  shows "history_ok (session_ok conn) (client_raise (server_react raise pwuid pwnam conn) e c)"
proof (cases "\<exists>s s'. o_server (cl_user c) = Inr s \<and> server_event raise pwuid pwnam conn e s = Inr s'")
  case True
  then obtain s s' where s: "o_server (cl_user c) = Inr s" "server_event raise pwuid pwnam conn e s = Inr s'" by blast
  have "serves conn (o_missed (cl_user c)) s c" using assms(1) s(1) by (simp add: history_ok_def session_ok_def)
  from assms(2) [OF s this] show ?thesis unfolding react_raise [OF s] by (simp add: history_ok_def session_ok_def)
next
  case False
  then show ?thesis by (intro react_faults) blast
qed

text \<open>Without writes and without a change of what was noted.\<close>

lemma no_writes: "written_in (new_calls s s') = [] \<Longrightarrow> server_writes s s' = []"
  by (simp add: server_writes_def writes_def)

lemma new_calls_call: "new_calls s s = []" "s_calls s' = s_calls s @ cs \<Longrightarrow> new_calls s (call c s') = cs @ [c]"
  by (simp_all add: new_calls_def call_def)

lemma conn_registered_call [simp]: "conn_registered conn e h (call c s) \<longleftrightarrow> c = RegConn conn e h \<or> conn_registered conn e h s"
  by (auto simp: conn_registered_def call_def)

lemma conn_registered_update [simp]:
  "conn_registered conn e h (s\<lparr>s_sendcmd := a, s_sending := b\<rparr>) \<longleftrightarrow> conn_registered conn e h s"
  by (simp add: conn_registered_def)

lemma connected_serves:
  assumes "serves conn miss s c"
  shows "server_writes s (connConnected conn s) = []" "serves conn miss (connConnected conn s) c"
proof -
  show "server_writes s (connConnected conn s) = []"
    by (rule no_writes) (simp add: connConnected_def Let_def new_calls_def call_def)
  let ?s' = "connConnected conn s"
  have f: "recv_ok ?s' = recv_ok s" "written ?s' = written s" "s_conn ?s' = s_conn s" "s_sending ?s' = s_sending s"
      "pending_bytes ?s' = pending_bytes s" "l_log ?s' = l_log s"
    by (simp_all add: connConnected_def Let_def recv_ok_def pending_bytes_def written_def call_def written_in_append)
  have r: "conn_registered conn e h s \<Longrightarrow> conn_registered conn e h ?s'" for e h
    by (auto simp: connConnected_def Let_def conn_registered_def call_def)
  have "s_sendQueue ?s' \<noteq> None \<or> written s \<noteq> [] \<Longrightarrow> conn_registered conn DataSentEv ConnDataSent ?s'"
    using assms by (auto simp: server_ok_def connConnected_def Let_def conn_registered_def call_def)
  then show "serves conn miss ?s' c" using assms r by (auto simp: server_ok_def open_ok_def f)
qed

text \<open>The session of a server with any listeners.\<close>

locale server_session = listener raise
  for raise :: "srv_event \<Rightarrow> 'x logged_server_scheme \<Rightarrow> 'x logged_server_scheme result" +
  fixes pwuid :: "passwd option" and pwnam :: "string \<Rightarrow> passwd option" and conn :: nat
begin

lemma closed_serves:
  assumes "serves conn miss s c" "connClosed raise conn b s = Inr s'"
  shows "server_writes s s' = []" "serves conn miss s' (c\<lparr>cl_closed := cl_closed c @ [b]\<rparr>)"
proof -
  have "server_writes s s' = [] \<and> serves conn miss s' (c\<lparr>cl_closed := cl_closed c @ [b]\<rparr>)"
  proof (cases "s_conn s = Some conn")
    case False
    with assms show ?thesis by (auto simp: connClosed_def server_ok_def no_writes new_calls_call split: if_splits)
  next
    case True
    let ?x = "s\<lparr>s_conn := None, s_reconnticks := (if b then QUICKRECONNTICKS else RECONNTICKS), s_connst := 0, s_sendQueue := None\<rparr>"
    obtain t where t: "raise EvDisconnected ?x = Inr t"
        and s': "s' = call (RegTick ConnWaitReconn) (call (UnregTick ConnWaitLogin) (t\<lparr>s_name := None\<rparr>))"
      using assms(2) True by (auto simp: connClosed_def Let_def bind_result_eq_Inr)
    have h: "recv_same ?x t" "talks ?x t" using hears [OF t] by (simp_all add: heard_def)
    note n = talks_news [OF h(2)]
    have w: "written_in (new_calls ?x t) = []" using n(5) by simp
    obtain cs where cs: "s_calls t = s_calls s @ cs" using h(2) by (auto simp: talks_def)
    have "written_in (new_calls s s') = []" using w by (simp add: s' new_calls_def call_def cs written_in_append)
    moreover have "written s' = written s" using n(4) w by (simp add: s' written_def call_def written_in_append)
    moreover have "conn_registered conn e h s' \<longleftrightarrow> conn_registered conn e h s" for e h using n(3) [of conn e h] by (simp add: s' conn_registered_def call_def)
    moreover have "recv_ok s' \<longleftrightarrow> recv_ok s" using h(1) by (simp add: s' recv_ok_def recv_same_def call_def)
    moreover have "s_conn s' = None" "s_sendQueue s' = None" using n(1,2) by (simp_all add: s' call_def)
    ultimately show ?thesis using assms(1) by (simp add: server_ok_def no_writes)
  qed
  then show "server_writes s s' = []" "serves conn miss s' (c\<lparr>cl_closed := cl_closed c @ [b]\<rparr>)" by simp_all
qed

lemma sent_serves:
  assumes "serves conn miss s c" "server_event raise pwuid pwnam conn (EvDataSent i) s = Inr s'"
    "stream_ok (c\<lparr>cl_sent := cl_sent c @ [i]\<rparr>)" (is "stream_ok ?c")
  shows "serves conn miss s' (fold client_do (server_writes s s') ?c)"
proof (cases "cl_closed c = []")
  case True
  then have s: "s_conn s = Some conn" "open_ok conn miss s (cl_sent c) (cl_received c)" "cl_accepted c = lines_ids (written s)"
    using assms(1) by (simp_all add: server_ok_def)
  have "length (written s) = length (cl_sent c) + 1 + length (recs ?c)"
    using waiting_writes [OF assms(3), of "written s"] s(3) by (simp add: lines_ids_def)
  then have sending: "s_sending s" "written s \<noteq> []" using s(2) by (auto simp: open_ok_def split: if_splits)
  let ?x = "s\<lparr>s_sendcmd := None, s_sending := False\<rparr>"
  have send: "sendRaw None ?x = Inr s'" using assms(1,2) sending s(1) by (simp add: server_ok_def connDataSent_def)
  have "serves conn miss ?x ?c"
    using assms(1) True sending by (simp add: server_ok_def open_ok_def recv_ok_def) (simp add: conn_registered_def pending_bytes_def written_def)
  from heard_serves [OF this assms(3) sendRaw_heard [OF send]]
  show ?thesis by (simp add: server_writes_def new_calls_def)
next
  case False
  then have "s' = s" using assms(1,2) by (auto simp: server_ok_def connDataSent_def split: if_splits)
  with False assms(1) show ?thesis by (simp add: server_ok_def no_writes new_calls_call)
qed

text \<open>Data arrives.\<close>

lemma short_lines_append: "short_lines (d @ e) \<Longrightarrow> short_lines d"
proof -
  assume sh: "short_lines (d @ e)"
  have "length (snd (crlf_split (take k d))) \<le> 4096" for k
    using sh [unfolded short_lines_def, THEN spec, of "min k (length d)"] by (simp add: min_def split: if_splits)
  then show ?thesis by (simp add: short_lines_def)
qed

lemma short_lines_rest: "short_lines d \<Longrightarrow> length (snd (crlf_split d)) \<le> 4096"
  by (drule short_lines_def [THEN iffD1, THEN spec, of _ "length d"]) simp

lemma open_received:
  assumes "open_ok conn miss s sent recv" "conn_registered conn DataReceivedEv ConnDataReceived s" "recv_ok s" "length data \<le> 4096"
    "s_conn s = Some conn" "connDataReceived raise pwuid pwnam conn data s = Inr s'"
    "length (written s') = length sent + (if s_sending s' then 1 else 0)"
  shows "open_ok conn miss s' sent (recv @ data)"
proof -
  obtain d where d: "recv = miss @ d" "short_lines d \<longrightarrow> l_log s = stream_messages d \<and> pending_bytes s = snd (crlf_split d)"
    using assms(1) by (auto simp: open_ok_def)
  note h = connDataReceived_hears [OF assms(3-6)]
  have "l_log s' = stream_messages (d @ data) \<and> pending_bytes s' = snd (crlf_split (d @ data))" if sh: "short_lines (d @ data)"
  proof -
    have old: "l_log s = stream_messages d" "pending_bytes s = snd (crlf_split d)" using d(2) short_lines_append [OF sh] by simp_all
    have rest: "snd (crlf_split (d @ data)) = snd (crlf_split (pending_bytes s @ data))"
      using crlf_split_append [of d data] old(2) by simp
    have "pending_bytes s' = snd (crlf_split (d @ data))" using h(5) short_lines_rest [OF sh] unfolding rest by simp
    moreover have "l_log s' = stream_messages (d @ data)" using h(4) old stream_messages_append [of d data] by simp
    ultimately show ?thesis by simp
  qed
  moreover have "conn_registered conn DataReceivedEv ConnDataReceived s'" using talks_news(3) [OF h(2)] assms(2) by simp
  ultimately show ?thesis using d(1) assms(7) by (auto simp: open_ok_def intro!: exI [of _ "d @ data"])
qed

lemma data_serves:
  assumes "serves conn miss s c" "server_event raise pwuid pwnam conn (EvDataReceived data) s = Inr s'" "length data \<le> 4096"
    "stream_ok (c\<lparr>cl_received := cl_received c @ data, cl_overrun := ov\<rparr>)" (is "stream_ok ?c")
  shows "serves conn (miss @ missed conn (EvDataReceived data) s) s' (fold client_do (server_writes s s') ?c)"
proof (cases "conn_registered conn DataReceivedEv ConnDataReceived s \<and> s_conn s = Some conn")
  case True
  then have run: "connDataReceived raise pwuid pwnam conn data s = Inr s'" using assms(2) by simp
  have s: "recv_ok s" "cl_closed c = []" using assms(1) True by (auto simp: server_ok_def split: if_splits)
  note h = connDataReceived_hears [OF s(1) assms(3) _ run]
  have w: "talks s s'" "recv_ok s'" using h True by simp_all
  note n = talks_news [OF w(1)]
  have o: "open_ok conn miss s (cl_sent c) (cl_received c)" using assms(1) s(2) by (simp add: server_ok_def)
  have len: "s_conn s \<noteq> None \<longrightarrow> length (written s) = length (cl_sent ?c) + (if s_sending s then 1 else 0)"
    using o by (simp add: open_ok_def)
  have acc: "cl_accepted ?c = lines_ids (written s)" using assms(1) by (simp add: server_ok_def)
  note st = step_writes [OF w(1) assms(4) acc len]
  have "open_ok conn miss s' (cl_sent c) (cl_received c @ data)"
    using open_received [OF o _ s(1) assms(3) _ run] True st(6) by simp
  then show ?thesis using st(1-5) assms(1) s(2) w(2) n(1-5) True by (auto simp: server_ok_def missed_def)
next
  case False
  then have s': "s' = s" using assms(2) by (auto simp: connDataReceived_def split: if_splits)
  have "open_ok conn (miss @ missed conn (EvDataReceived data) s) s (cl_sent c) (cl_received c @ data)"
    if "open_ok conn miss s (cl_sent c) (cl_received c)" "s_conn s = Some conn"
    using that False by (auto simp: open_ok_def missed_def)
  then show ?thesis using assms(1) by (auto simp: s' server_ok_def no_writes new_calls_call)
qed

end

text \<open>The server keeps the contract of a user of its connection.\<close>

sublocale server_session \<subseteq> conn_user "server_react raise pwuid pwnam conn" "session_ok conn" "lawful conn"
proof
  fix e and c :: "'x owned client_conn"
  assume stream: "stream_ok (note_event e c)" and ok: "history_ok (session_ok conn) c" and fits: "event_fits e"
  show "history_ok (session_ok conn) (client_raise (server_react raise pwuid pwnam conn) e c)"
  proof (rule react_serves [OF ok])
    fix s s'
    assume ev: "server_event raise pwuid pwnam conn e s = Inr s'" and s: "serves conn (o_missed (cl_user c)) s c"
    let ?own = "\<lparr>o_missed = o_missed (cl_user c) @ missed conn e s, o_server = Inr s'\<rparr>"
    show "serves conn (o_missed (cl_user c) @ missed conn e s) s' (fold client_do (server_writes s s') ((note_event e c)\<lparr>cl_user := ?own\<rparr>))"
    proof (cases e)
      case EvConnConnected
      with ev s connected_serves [OF s] show ?thesis by (auto simp: missed_def no_writes new_calls_call split: if_splits)
    next
      case (EvConnClosed b)
      have "connClosed raise conn b s = Inr s'" using ev s EvConnClosed by (simp add: server_ok_def)
      from closed_serves [OF s this] show ?thesis by (simp add: EvConnClosed missed_def)
    next
      case (EvDataReceived d)
      have "serves conn (o_missed (cl_user c)) s (c\<lparr>cl_user := ?own\<rparr>)" using s by simp
      from data_serves [OF this, of d s' "cl_overrun c \<or> c_handling c"] show ?thesis
        using ev fits stream EvDataReceived unfolding note_user by simp
    next
      case (EvDataSent i)
      have "serves conn (o_missed (cl_user c)) s (c\<lparr>cl_user := ?own\<rparr>)" using s by simp
      moreover have "stream_ok (note_event e (c\<lparr>cl_user := ?own\<rparr>))" using stream unfolding note_user [symmetric] by simp
      ultimately show ?thesis using sent_serves [of "o_missed (cl_user c)" s "c\<lparr>cl_user := ?own\<rparr>" i s'] ev EvDataSent
        unfolding note_user by (simp add: missed_def)
    qed
  qed
next
  fix f :: "'x owned client_conn \<Rightarrow> client_op list \<times> bool option \<times> 'x owned" and c ks close u
  assume "lawful conn (OpAct f)" "stream_ok c" "history_ok (session_ok conn) c" "f c = (ks, close, u)"
  then show "history_ok (session_ok conn) (fold client_do ks (c\<lparr>cl_user := u\<rparr>))"
    using act_serves lawful_asks by metis
qed

end
