(* ===== verification/Session.thy ===== *)
theory Session
  imports ServerConn
begin

text \<open>
  What a session of a server with its connection promises (\<open>ircserver.c\<close> over \<open>connection.c\<close>),
  from both contracts together; and two ways in which bytes get lost or mixed up.
\<close>

interpretation log_session: server_session log_raise pwuid pwnam conn
  for pwuid pwnam conn
  by unfold_locales

interpretation join_session: server_session "join_raise names" pwuid pwnam conn
  for names pwuid pwnam conn
  by unfold_locales

lemma session_starts:
  assumes "fresh s"
  shows "session_ok conn \<lparr>o_missed = [], o_server = Inr (snd (IrcServer_connect (Some conn) s))\<rparr> [] [] [] []"
proof -
  let ?s = "snd (IrcServer_connect (Some conn) s)"
  have "s_conn s = None" using assms by (simp add: fresh_def)
  then have s: "?s = call (RegConn conn ClosedEv ConnClosed) (call (RegConn conn ConnectedEv ConnConnected) (s\<lparr>s_conn := Some conn\<rparr>))"
    by (simp add: IrcServer_connect_def)
  have "server_ok conn [] ?s [] [] [] []"
    using assms unfolding s
    by (auto simp: server_ok_def open_ok_def fresh_def recv_ok_def lines_ids_def stream_messages_def)
       (simp_all add: call_def written_def pending_bytes_def line_at_def)
  then show ?thesis by (simp add: session_ok_def)
qed

context server_session
begin

lemma session_good:
  assumes "fresh s"
  shows "\<exists>c. server_run raise pwuid pwnam conn ops (session conn tls addr host numeric active mem s) = Inr c \<and> good (session_ok conn) c"
  unfolding server_run_def session_def
  by (rule run_open) (use session_starts [OF assms] in \<open>auto simp: list_all_iff\<close>)

text \<open>The same with any actions that do no more than the operations.\<close>

lemma session_good_acts:
  assumes "fresh s" "list_all (lawful conn) ks"
  shows "\<exists>c. conn_run (server_react raise pwuid pwnam conn) ks (session conn tls addr host numeric active mem s) = Inr c
    \<and> good (session_ok conn) c"
  unfolding session_def
  by (rule run_open) (use session_starts [OF assms(1)] assms(2) in auto)

end

lemmas session_good = server_session.session_good [OF server_session.intro]
lemmas session_good_acts = server_session.session_good_acts [OF server_session.intro]

text \<open>What the invariant says of a server that still works.\<close>

lemma session_server:
  assumes "good (session_ok conn) c" "o_server (cl_user c) = Inr s"
  shows "stream_ok c" "serves conn (o_missed (cl_user c)) s c" "cl_closed c = [] \<Longrightarrow> c_deleteScheduled c = 0 \<and> waits_ok c"
    "cl_closed c = [] \<Longrightarrow> length (recs c) = (if s_sending s then 1 else 0)"
proof -
  have c: "stream_ok c" "states_ok c" "live_ok c" using assms(1) by (simp_all add: good_def conn_ok_def)
  show "stream_ok c" by (rule c)
  show s: "serves conn (o_missed (cl_user c)) s c" using assms by (simp add: good_def conn_ok_def history_ok_def session_ok_def)
  show "c_deleteScheduled c = 0 \<and> waits_ok c" if "cl_closed c = []"
    using c that by (auto simp: states_ok_def live_ok_def)
  show "length (recs c) = (if s_sending s then 1 else 0)" if "cl_closed c = []"
  proof -
    have "length (written s) = length (cl_sent c) + length (recs c)"
      using waiting_writes [OF c(1), of "written s"] s by (simp add: server_ok_def lines_ids_def)
    moreover have "length (written s) = length (cl_sent c) + (if s_sending s then 1 else 0)"
      using s that by (simp add: server_ok_def open_ok_def)
    ultimately show ?thesis by simp
  qed
qed

lemma session_bytes:
  assumes "good (session_ok conn) c" "o_server (cl_user c) = Inr s"
  shows "c_wire c @ unsent c = concat (written s)" "map fst (cl_accepted c) = written s"
proof -
  note f = session_server [OF assms]
  show acc: "map fst (cl_accepted c) = written s" using f(2) by (simp add: server_ok_def lines_ids_def comp_def)
  show "c_wire c @ unsent c = concat (written s)" using acc stream_bytes(1) [OF f(1)] by simp
qed

section \<open>What goes out\<close>

text \<open>C1: whatever happens in a session, with any listeners, and as long as the server makes no fault:
  the bytes the kernel took, followed by those that wait in the connection, are the lines the
  server wrote, whole and in order; no write is refused, although \<open>sendRaw\<close> ignores what
  \<open>Connection_write\<close> returns; and while the connection is open exactly one line waits when the
  server awaits a confirmation, with its descriptor registered for writing, and none otherwise.\<close>

theorem session_wire:
  assumes "listener raise" "fresh s0"
  shows "\<exists>c. server_run raise pwuid pwnam conn ops (session conn tls addr host numeric active mem s0) = Inr c
    \<and> (\<forall>s. o_server (cl_user c) = Inr s \<longrightarrow>
        c_wire c @ unsent c = concat (written s) \<and> map fst (cl_accepted c) = written s
        \<and> (cl_closed c = [] \<longrightarrow> length (recs c) = (if s_sending s then 1 else 0) \<and> (s_sending s \<longrightarrow> c_writereg c)))"
proof -
  obtain c where c: "server_run raise pwuid pwnam conn ops (session conn tls addr host numeric active mem s0) = Inr c"
      "good (session_ok conn) c"
    using session_good [OF assms] by blast
  have "c_wire c @ unsent c = concat (written s) \<and> map fst (cl_accepted c) = written s
        \<and> (cl_closed c = [] \<longrightarrow> length (recs c) = (if s_sending s then 1 else 0) \<and> (s_sending s \<longrightarrow> c_writereg c))"
    if s: "o_server (cl_user c) = Inr s" for s
  proof -
    note f = session_server [OF c(2) s]
    have "c_writereg c" if "cl_closed c = []" "s_sending s"
      using f(3,4) that nrecs_recs [OF f(1)] by (auto simp: waits_ok_def)
    with f(4) session_bytes [OF c(2) s] show ?thesis by simp
  qed
  with c(1) show ?thesis by blast
qed

section \<open>What comes in\<close>

text \<open>C2: in every session, the messages handed to the listeners are those of the bytes that were received
  since the server listens to its connection, one for each non-empty line and in order, however the
  stream was cut into packets; the bytes kept are those behind the last line end. (Only unfinished
  lines of more than 4096 bytes would be dropped.)\<close>

theorem session_hears:
  assumes "listener raise" "fresh s0"
    and "server_run raise pwuid pwnam conn ops (session conn tls addr host numeric active mem s0) = Inr c"
    and "o_server (cl_user c) = Inr s" "cl_closed c = []"
  shows "\<exists>d. cl_received c = o_missed (cl_user c) @ d
    \<and> (short_lines d \<longrightarrow> l_log s = stream_messages d \<and> pending_bytes s = snd (crlf_split d)) \<and> recv_ok s"
proof -
  have "good (session_ok conn) c" using session_good [OF assms(1,2)] assms(3) by (metis sum.inject(2))
  from session_server(2) [OF this assms(4)] assms(5) show ?thesis by (auto simp: server_ok_def open_ok_def)
qed

section \<open>Progress\<close>

text \<open>The descriptor is ready for writing, and nothing else of the connection waits for that.\<close>

definition writable :: "'x owned client_conn \<Rightarrow> bool" where
  "writable c \<longleftrightarrow> c_connecting c = 0 \<and> c_connect_st c \<noteq> Some WANT_WRITE \<and> c_read_st c \<noteq> Some WANT_WRITE"

lemma writable_link: "same_link c d \<Longrightarrow> writable c \<Longrightarrow> writable d"
  by (simp add: writable_def same_link_def)

lemma want_link: "same_link c (wantreadwrite c)"
  by (simp add: same_link_def wantreadwrite_regs)

lemma link_trans: "same_link c d \<Longrightarrow> same_link d e \<Longrightarrow> same_link c e"
  by (simp add: same_link_def)

lemma want_user [simp]: "cl_user (wantreadwrite c) = cl_user c"
  by (simp add: wantreadwrite_regs)

text \<open>After an event, the server is in the state its handler left.\<close>

lemma raise_server:
  assumes "o_server (cl_user c) = Inr s"
  shows "o_server (cl_user (client_raise (server_react raise pwuid pwnam conn) e c)) = server_event raise pwuid pwnam conn e s"
  using assms by (simp add: client_raise_def server_react_def Let_def)

lemma write_step:
  assumes "good (session_ok conn) c" "o_server (cl_user c) = Inr s" "cl_closed c = []" "s_sending s" "writable c"
    and "sa_write sa = Ready n" "length (unsent c) \<le> n"
  shows "\<exists>d. writeConnection (client_raise (server_react raise pwuid pwnam conn)) sa c = Inr d
    \<and> c_wire d = concat (written s) \<and> o_server (cl_user d) = connDataSent conn s \<and> writable d"
proof -
  let ?react = "server_react raise pwuid pwnam conn"
  note f = session_server [OF assms(1,2)]
  have len: "length (recs c) = 1" using f(4) assms(3,4) by simp
  have nr: "c_nrecs c \<noteq> 0" using nrecs_recs [OF f(1)] len by simp
  have "ring_ok c" using f(1) by (simp add: stream_ok_def)
  then obtain r rs where r: "c_writerecs c ! c_baserecidx c = Some r" "recs c = r # rs" using head_cell nr by blast
  have un: "unsent c = drop (wrbufpos r) (wrbuf r)" using r(2) len by (simp add: unsent_def)
  obtain ns where "map snd (cl_accepted c) = ns @ map wr_id (recs c)" using f(1) by (auto simp: stream_ok_def)
  then have "ns @ map wr_id (recs c) = map (\<lambda>l. Some SELF) (written s)" using f(2) by (simp add: server_ok_def lines_ids_def comp_def)
  then have "wr_id r \<in> set (map (\<lambda>l. Some SELF) (written s))" using r(2) by (metis in_set_conv_decomp list.simps(9))
  then have i: "wr_id r = Some SELF" "written s \<noteq> []" by auto
  then have reg: "conn_registered conn DataSentEv ConnDataSent s" using f(2) by (simp add: server_ok_def)
  let ?x = "done_rec (taken r n c)"
  have x: "c_wire ?x = concat (written s)" "cl_user ?x = cl_user c" "writable ?x"
  proof -
    have "c_wire ?x = c_wire c @ unsent c" using assms(7) un by (simp add: done_rec_def taken_def Let_def)
    then show "c_wire ?x = concat (written s)"
      using stream_bytes(1) [OF f(1)] f(2) by (simp add: server_ok_def lines_ids_def comp_def)
    show "cl_user ?x = cl_user c" "writable ?x" using assms(5) by (simp_all add: done_rec_def taken_def Let_def writable_def)
  qed
  have sent: "c_wire (client_raise ?react (EvDataSent SELF) y) = concat (written s)
      \<and> o_server (cl_user (client_raise ?react (EvDataSent SELF) y)) = connDataSent conn s
      \<and> writable (client_raise ?react (EvDataSent SELF) y)" if "same_link ?x y" "cl_user y = cl_user ?x" for y
    using raise_server [of y s raise pwuid pwnam conn "EvDataSent SELF"] raise_link [of y ?react "EvDataSent SELF"] that x assms(2) reg
    by (simp add: same_link_def writable_def)
  let ?d = "if c_tls c then wantreadwrite (report ?react r ?x) else report ?react r (wantreadwrite ?x)"
  have "dowrite (client_raise ?react) (Ready n) c = Inr ?d"
    using dowrite_Ready [OF r(1), of ?react n] assms(7) un by simp
  then have "writeConnection (client_raise ?react) sa c = Inr ?d"
    using assms(5,6) nr by (simp add: writeConnection_def writable_def)
  moreover have "c_wire ?d = concat (written s) \<and> o_server (cl_user ?d) = connDataSent conn s \<and> writable ?d"
    using sent [of ?x] sent [of "wantreadwrite ?x"] want_link [of ?x] want_link [of "report ?react r ?x"]
    by (simp add: report_def i same_link_def writable_def)
  ultimately show ?thesis by blast
qed

lemma server_run_append: "server_run raise pwuid pwnam conn (ops @ ops2) c
    = bind_result (server_run raise pwuid pwnam conn ops c) (server_run raise pwuid pwnam conn ops2)"
  by (simp add: server_run_def run_append)

lemma server_run_step: "server_run raise pwuid pwnam conn (op # ops) c
    = bind_result (conn_step (server_react raise pwuid pwnam conn) (as_conn_op conn op) c) (server_run raise pwuid pwnam conn ops)"
  "server_run raise pwuid pwnam conn [] = Inr"
  by (simp_all add: server_run_def fun_eq_iff)

lemma server_run_last:
  "server_run raise pwuid pwnam conn ops c0 = Inr c \<Longrightarrow>
    conn_step (server_react raise pwuid pwnam conn) (as_conn_op conn op) c = Inr d \<Longrightarrow>
    server_run raise pwuid pwnam conn (ops @ [op]) c0 = Inr d"
  by (simp add: server_run_append server_run_step)

text \<open>C18: in every session: when the server awaits the confirmation of a line and the kernel takes what is
  left of it, all the lines written so far are out, and the confirmation reaches
  \<open>connDataSent\<close>, which writes the next line that waits (as far as the credit goes).\<close>

theorem session_progress:
  assumes "listener raise" "fresh s0"
    and "server_run raise pwuid pwnam conn ops (session conn tls addr host numeric active mem s0) = Inr c"
    and "o_server (cl_user c) = Inr s" "cl_closed c = []" "s_sending s" "writable c"
    and "sa_write sa = Ready n" "length (unsent c) \<le> n"
  shows "\<exists>d. server_run raise pwuid pwnam conn (ops @ [OnWritable sa]) (session conn tls addr host numeric active mem s0) = Inr d
    \<and> c_wire d = concat (written s) \<and> o_server (cl_user d) = connDataSent conn s"
proof -
  have "good (session_ok conn) c" using session_good [OF assms(1,2)] assms(3) by (metis sum.inject(2))
  from write_step [OF this assms(4-9)] obtain d where
    "writeConnection (client_raise (server_react raise pwuid pwnam conn)) sa c = Inr d"
    "c_wire d = concat (written s)" "o_server (cl_user d) = connDataSent conn s" by blast
  then show ?thesis using server_run_last [OF assms(3), of "OnWritable sa" d] by auto
qed

end
