(* ===== verification/SessionInv.thy ===== *)
theory SessionInv
  imports Session
begin

text \<open>
  Conditions on what a server carries with it: the state of those who use the server extends its
  record, and no function of \<open>ircserver.c\<close> touches it. So what the listeners and the actions keep (the
  locale \<open>kept\<close>), a whole session keeps.
\<close>

section \<open>What the functions of the server leave alone\<close>

definition same_rest :: "'x IrcServer_scheme \<Rightarrow> 'x IrcServer_scheme \<Rightarrow> bool" where
  "same_rest s t \<longleftrightarrow> s_id t = s_id s \<and> IrcServer.more t = IrcServer.more s"

named_theorems rest_intros "functions that leave the rest of the program alone"

lemma same_rest_refl [simp]: "same_rest s s"
  by (simp add: same_rest_def)

lemma same_rest_trans: "same_rest s t \<Longrightarrow> same_rest t u \<Longrightarrow> same_rest s u"
  by (simp add: same_rest_def)

lemma same_rest_call [simp]: "same_rest s (call c t) \<longleftrightarrow> same_rest s t"
  by (simp add: same_rest_def call_def)

lemma rest_sendRaw [rest_intros]:
  assumes "sendRaw c s = Inr s'"
  shows "same_rest s s'"
proof -
  obtain t where t: "enqueue_cmd c s = Inr t" "try_send t = Inr s'"
    using assms by (auto simp: sendRaw_def bind_result_eq_Inr)
  have "same_rest s t" using t(1) by (rule enqueue_cmd_cases) (simp_all add: same_rest_def)
  moreover have "same_rest t s'" using t(2) by (rule try_send_cases) (simp_all add: same_rest_def call_def)
  ultimately show ?thesis by (rule same_rest_trans)
qed

lemma rest_sendRawCmd [rest_intros]: "sendRawCmd cmd args s = Inr s' \<Longrightarrow> same_rest s s'"
  by (auto simp: sendRawCmd_def bind_result_eq_Inr intro: rest_intros)

lemma rest_send_lines [rest_intros]: "send_lines ls s = Inr s' \<Longrightarrow> same_rest s s'"
proof (induction ls arbitrary: s)
  case (Cons l ls)
  then obtain t where "sendRaw (Some l) s = Inr t" "send_lines ls t = Inr s'"
    by (auto simp: bind_result_eq_Inr split: if_splits)
  with Cons.IH rest_sendRaw same_rest_trans show ?case by blast
qed simp

lemma rest_from_nick: "sendRawCmd c a (s\<lparr>s_nick := n\<rparr>) = Inr t \<Longrightarrow> same_rest s t"
  by (drule rest_sendRawCmd) (simp add: same_rest_def)

lemma rest_sendMsg [rest_intros]: "IrcServer_sendMsg to message action s = Some (Inr (rc, s')) \<Longrightarrow> same_rest s s'"
  by (auto simp: IrcServer_sendMsg_def Let_def bind_result_eq_Inr split: if_splits intro: rest_intros)

lemma rest_send_step:
  "send_step conn (OpCmd cmd args) s = Inr s' \<Longrightarrow> same_rest s s'" "send_step conn (OpMsg to message action) s = Inr s' \<Longrightarrow> same_rest s s'"
  "send_step conn (OpNick nick) s = Inr s' \<Longrightarrow> same_rest s s'"
  by (auto simp: IrcServer_sendCmd_def bind_result_eq_Inr IrcServer_setNick_def Let_def same_rest_def dest: rest_intros
      split: if_splits option.splits)

lemma rest_connConnected: "same_rest s (connConnected conn s)"
  by (simp add: connConnected_def Let_def) (simp add: same_rest_def call_def)

lemma rest_connDataSent: "connDataSent conn s = Inr s' \<Longrightarrow> same_rest s s'"
  by (auto simp: connDataSent_def same_rest_def dest: rest_intros split: if_splits)

lemma rest_conn_close: "conn_close b s = Inr s' \<Longrightarrow> same_rest s s'"
  by (auto simp: conn_close_def split: option.splits)

lemma rest_disconnect: "IrcServer_disconnect s = Inr s' \<Longrightarrow> same_rest s s'"
  by (auto simp: IrcServer_disconnect_def Let_def dest!: rest_intros rest_conn_close split: if_splits)
    (simp_all add: same_rest_def call_def)

lemma rest_connWaitLogin: "connWaitLogin s = Inr s' \<Longrightarrow> same_rest s s'"
  by (auto simp: connWaitLogin_def Let_def dest!: rest_conn_close split: if_splits)
    (simp_all add: same_rest_def call_def)

lemma rest_activeTick: "activeTick s = Inr s' \<Longrightarrow> same_rest s s'"
  by (auto simp: activeTick_def Let_def bind_result_eq_Inr dest!: rest_intros rest_conn_close split: if_splits)
    (simp_all add: same_rest_def call_def)

lemma rest_send_login: "send_login pwuid pwnam s = Inr s' \<Longrightarrow> same_rest s s'"
  by (auto simp: send_login_def bind_result_eq_Inr Let_def dest!: rest_intros) (simp add: same_rest_def)

lemma rest_recv_keep: "same_rest s (recv_keep pos s)"
  by (simp add: recv_keep_def same_rest_def)

section \<open>The contract of such a condition\<close>

text \<open>Its actions do no more than those of the server, and keep it.\<close>

definition keeping :: "('x logged_server_scheme \<Rightarrow> bool) \<Rightarrow> nat \<Rightarrow> 'x owned conn_op \<Rightarrow> bool" where
  "keeping K conn k \<longleftrightarrow> (\<exists>op. k = as_conn_op conn op)
     \<or> (\<exists>h. k = OpAct (server_act h) \<and> (\<forall>s s'. h s = Inr s' \<longrightarrow> asks s s' \<and> (K s \<longrightarrow> K s')))"

lemma keeping_op [simp]: "keeping K conn (as_conn_op conn op)"
  by (auto simp: keeping_def)

lemma keeping_act: "(\<And>s s'. h s = Inr s' \<Longrightarrow> asks s s' \<and> (K s \<longrightarrow> K s')) \<Longrightarrow> keeping K conn (OpAct (server_act h))"
  by (auto simp: keeping_def)

lemma keeping_lawful: "keeping K conn k \<Longrightarrow> lawful conn k"
  by (auto simp: keeping_def lawful_def)

text \<open>What happens in the server when the program or the service asks it for something.\<close>

lemma op_act:
  assumes "as_conn_op conn op = OpAct f"
  shows "\<exists>h. f = server_act h \<and> (\<forall>s s'. h s = Inr s' \<longrightarrow> same_rest s s')"
  using assms
  by (cases op) (auto intro!: exI simp del: send_step.simps
      intro: rest_send_step rest_disconnect rest_connWaitLogin rest_activeTick split: if_splits)

locale kept = server_session raise pwuid pwnam conn
  for raise :: "srv_event \<Rightarrow> 'x logged_server_scheme \<Rightarrow> 'x logged_server_scheme result" and pwuid pwnam conn +
  fixes K :: "'x logged_server_scheme \<Rightarrow> bool"
  assumes raise_keeps: "raise ev s = Inr t \<Longrightarrow> K s \<Longrightarrow> K t"
    and rest_keeps: "same_rest s t \<Longrightarrow> K s \<Longrightarrow> K t"

sublocale kept \<subseteq> keep: handling "\<lambda>ms s t. K s \<longrightarrow> K t" raise
proof (unfold_locales, goal_cases)
  case (3 s n)
  then show ?case using rest_keeps [of s "s\<lparr>s_nick := n\<rparr>"] by (simp add: same_rest_def)
next
  case (4 s nm)
  then show ?case using rest_keeps by (simp add: same_rest_def) (simp add: call_def)
next
  case (5 s c)
  then show ?case using rest_keeps [of s "snd (chan_new c s)"] by (simp add: chan_new_def Let_def same_rest_def call_def)
next
  case (6 cmd args s t)
  then show ?case using rest_keeps rest_sendRawCmd by blast
qed (use raise_keeps in blast)+

context kept
begin

lemma handled_keeps: "(case msg of None \<Rightarrow> Inr s | Some m \<Rightarrow> handleMessage raise m s) = Inr t \<Longrightarrow> K s \<Longrightarrow> K t"
  using keep.handleMessage_rel by (cases msg) auto

lemma receive_keeps: "receive_loop r buf sz pos s = Inr (pos', t) \<Longrightarrow> r = raise \<Longrightarrow> K s \<Longrightarrow> K t"
proof (induction r buf sz pos s arbitrary: pos' t rule: receive_loop.induct)
  case (1 r buf sz pos s)
  obtain msg pos1 where m: "IrcMessage_create () buf sz pos = Inr (msg, pos1)"
    using 1(2) by (cases "IrcMessage_create () buf sz pos :: (unit IrcMessage option \<times> nat) result")
      (auto simp: receive_loop.simps [of r buf sz pos s])
  then obtain u where u: "(case msg of None \<Rightarrow> Inr s | Some m \<Rightarrow> handleMessage r m s) = Inr u"
    using 1(2) by (cases "case msg of None \<Rightarrow> Inr s | Some m \<Rightarrow> handleMessage r m s") (simp_all add: receive_loop.simps [of r buf sz pos s])
  then have "K u" using handled_keeps 1(4) unfolding 1(3) by blast
  moreover have "pos1 \<noteq> pos \<Longrightarrow> receive_loop r buf sz pos1 u = Inr (pos', t)" "pos1 = pos \<Longrightarrow> t = u"
    using 1(2) m u by (simp_all add: receive_loop.simps [of r buf sz pos s])
  ultimately show ?case using 1(1) [OF m HOL.refl u] 1(3) by metis
qed

lemma data_keeps:
  assumes "connDataReceived raise pwuid pwnam k data s = Inr t" "K s"
  shows "K t"
proof (cases "Some k = s_conn s")
  case False
  with assms show ?thesis by (simp add: connDataReceived_def)
next
  case True
  then obtain buf pos u where u: "receive_loop raise buf (s_recvbufsz s + length data) 0
        (s\<lparr>s_idleticks := 180, s_recvbuf := buf, s_recvbufsz := s_recvbufsz s + length data\<rparr>) = Inr (pos, u)"
      and t: "(if s_connst (recv_keep pos u) = -1 then send_login pwuid pwnam (recv_keep pos u) else Inr (recv_keep pos u)) = Inr t"
    using assms(1) by (auto simp: connDataReceived_def bind_result_eq_Inr Let_def)
  have "K u" using receive_keeps [OF u HOL.refl] rest_keeps [OF _ assms(2)] by (simp add: same_rest_def)
  then have "K (recv_keep pos u)" by (rule rest_keeps [OF rest_recv_keep])
  with t rest_keeps rest_send_login show ?thesis by (metis sum.inject(2))
qed

lemma event_keeps: "server_event raise pwuid pwnam conn e s = Inr t \<Longrightarrow> K s \<Longrightarrow> K t"
proof (cases e)
  case (EvConnClosed b)
  assume e: "server_event raise pwuid pwnam conn e s = Inr t" and s: "K s"
  have "K t" if c: "connClosed raise conn b s = Inr t"
  proof (cases "Some conn = s_conn s")
    case False
    with c s show ?thesis by (simp add: connClosed_def)
  next
    case True
    let ?x = "s\<lparr>s_conn := None, s_reconnticks := (if b then QUICKRECONNTICKS else RECONNTICKS), s_connst := 0, s_sendQueue := None\<rparr>"
    obtain u where u: "raise EvDisconnected ?x = Inr u"
        and t: "t = call (RegTick ConnWaitReconn) (call (UnregTick ConnWaitLogin) (u\<lparr>s_name := None\<rparr>))"
      using c True by (auto simp: connClosed_def Let_def bind_result_eq_Inr)
    have "K u" using raise_keeps [OF u] rest_keeps [OF _ s] by (simp add: same_rest_def)
    then show ?thesis using rest_keeps [of u t] by (simp add: t) (simp add: same_rest_def)
  qed
  with e s EvConnClosed show "K t" by (auto split: if_splits)
next
  case EvConnConnected
  assume "server_event raise pwuid pwnam conn e s = Inr t" "K s"
  with EvConnConnected rest_keeps [OF rest_connConnected] show "K t" by (auto split: if_splits)
next
  case (EvDataSent i)
  assume "server_event raise pwuid pwnam conn e s = Inr t" "K s"
  with EvDataSent rest_keeps [OF rest_connDataSent] show "K t" by (auto split: if_splits)
qed (use data_keeps in \<open>auto split: if_splits\<close>)

lemma act_keeps:
  assumes "keeping K conn (OpAct f)" "f c = (ks, close, u)" "\<And>s. o_server (cl_user c) = Inr s \<Longrightarrow> K s" "o_server u = Inr t"
  shows "K t"
proof -
  obtain h where h: "f = server_act h" "\<And>s s'. h s = Inr s' \<Longrightarrow> K s \<Longrightarrow> K s'"
  proof (cases "\<exists>op. as_conn_op conn op = OpAct f")
    case True
    then obtain h where "f = server_act h" "\<forall>s s'. h s = Inr s' \<longrightarrow> same_rest s s'" using op_act by metis
    with that rest_keeps show thesis by blast
  next
    case False
    with assms(1) that show thesis unfolding keeping_def by (metis conn_op.inject(1))
  qed
  with assms(2-4) show ?thesis
    by (cases "o_server (cl_user c)") (auto simp: server_act_def Let_def split: sum.splits)
qed

end

section \<open>A session with such a condition\<close>

definition kept_ok :: "('x logged_server_scheme \<Rightarrow> bool) \<Rightarrow> nat \<Rightarrow> 'x owned history" where
  "kept_ok K conn own acc sent recv closed \<longleftrightarrow> session_ok conn own acc sent recv closed \<and> (\<forall>s. o_server own = Inr s \<longrightarrow> K s)"

lemma kept_split: "history_ok (kept_ok K conn) c \<longleftrightarrow> history_ok (session_ok conn) c \<and> (\<forall>s. o_server (cl_user c) = Inr s \<longrightarrow> K s)"
  by (simp add: history_ok_def kept_ok_def)

sublocale kept \<subseteq> keep_user: conn_user "server_react raise pwuid pwnam conn" "kept_ok K conn" "keeping K conn"
proof
  fix e and c :: "'x owned client_conn"
  assume a: "stream_ok (note_event e c)" "history_ok (kept_ok K conn) c" "event_fits e"
  let ?d = "client_raise (server_react raise pwuid pwnam conn) e c"
  have "K t" if "o_server (cl_user ?d) = Inr t" for t
  proof (cases "o_server (cl_user c)")
    case (Inl f)
    with that show ?thesis by (simp add: client_raise_def server_react_def Let_def)
  next
    case (Inr s)
    with raise_server [OF Inr, of raise pwuid pwnam conn e] that a(2) event_keeps [of e s t] show ?thesis by (simp add: kept_split)
  qed
  with a raises [OF a(1) _ a(3)] show "history_ok (kept_ok K conn) ?d" by (simp add: kept_split)
next
  fix f :: "'x owned client_conn \<Rightarrow> client_op list \<times> bool option \<times> 'x owned" and c ks close u
  assume a: "keeping K conn (OpAct f)" "stream_ok c" "history_ok (kept_ok K conn) c" "f c = (ks, close, u)"
  then have "history_ok (session_ok conn) (fold client_do ks (c\<lparr>cl_user := u\<rparr>))"
    using acts [OF keeping_lawful [OF a(1)] a(2) _ a(4)] by (simp add: kept_split)
  moreover have "K t" if "o_server u = Inr t" for t using act_keeps [OF a(1,4) _ that] a(3) by (simp add: kept_split)
  moreover have "cl_user (fold client_do ks d) = cl_user d" for d by (simp add: do_all)
  ultimately show "history_ok (kept_ok K conn) (fold client_do ks (c\<lparr>cl_user := u\<rparr>))" by (simp add: kept_split)
qed

context kept
begin

text \<open>Every run succeeds, and what it started with is kept.\<close>

lemma session_kept:
  assumes "fresh s" "K s" "list_all (keeping K conn) ks"
  shows "\<exists>c. conn_run (server_react raise pwuid pwnam conn) ks (session conn tls addr host numeric active mem s) = Inr c
    \<and> good (session_ok conn) c \<and> (\<forall>t. o_server (cl_user c) = Inr t \<longrightarrow> K t)"
proof -
  have "same_rest s (snd (IrcServer_connect (Some conn) s))"
    using assms(1) by (simp add: fresh_def IrcServer_connect_def) (simp add: same_rest_def)
  then have "kept_ok K conn \<lparr>o_missed = [], o_server = Inr (snd (IrcServer_connect (Some conn) s))\<rparr> [] [] [] []"
    using session_starts [OF assms(1)] rest_keeps assms(2) by (simp add: kept_ok_def)
  then obtain c where "conn_run (server_react raise pwuid pwnam conn) ks (session conn tls addr host numeric active mem s) = Inr c"
      "good (kept_ok K conn) c"
    using keep_user.run_open [OF _ assms(3), of "mem\<lparr>cl_user := \<lparr>o_missed = [], o_server = Inr (snd (IrcServer_connect (Some conn) s))\<rparr>\<rparr>"
        CCM_CONNECTING tls addr host numeric active] unfolding session_def by auto
  then show ?thesis by (auto simp: good_def conn_ok_def kept_split)
qed

end

end
