(* ===== verification/SessionLogin.thy ===== *)
theory SessionLogin
  imports Session
begin

text \<open>
  The beginning of a session, step by step (\<open>ircserver.c\<close> over \<open>connection.c\<close>): the connection is
  established, the server says something, and the login data goes out. From it, the witnesses
  for what a session promises.
\<close>

section \<open>The login data\<close>

definition nick_line :: "'x IrcServer_scheme \<Rightarrow> string" where
  "nick_line s = snprintf_fit 513 (''NICK '' @ s_nick s @ CRLF)"

definition user_line :: "passwd option \<Rightarrow> string \<Rightarrow> 'x IrcServer_scheme \<Rightarrow> string" where
  "user_line pwuid realname s =
     snprintf_fit 513 (''USER '' @ snprintf_fit 512 (login_user pwuid s @ '' 0 * :'' @ realname) @ CRLF)"

lemma login_commands: "IrcCommand_str MSG_NICK = Some ''NICK''" "IrcCommand_str MSG_USER = Some ''USER''"
  by code_simp+

lemma login_raw_lines:
  "raw_line MSG_NICK (Some (s_nick s)) = Inr (nick_line s)"
  "raw_line MSG_USER (Some (snprintf_fit 512 (login_user pwuid s @ '' 0 * :'' @ realname))) = Inr (user_line pwuid realname s)"
  by (simp_all add: raw_line_def login_commands nick_line_def user_line_def)

lemma line_length: "length (nick_line s) \<le> 512" "length (user_line pwuid realname s) \<le> 512"
proof -
  have "length (snprintf_fit 513 l) \<le> 512" for l by (simp add: snprintf_fit_def)
  then show "length (nick_line s) \<le> 512" "length (user_line pwuid realname s) \<le> 512" by (simp_all only: nick_line_def user_line_def)
qed

lemma who_same:
  assumes "s_nick t = s_nick s" "s_user t = s_user s" "s_realname t = s_realname s"
  shows "nick_line t = nick_line s" "user_line pwuid r t = user_line pwuid r s" "login_user pwuid t = login_user pwuid s"
    "login_realname pwuid pwnam t = login_realname pwuid pwnam s"
proof -
  have u: "login_user pwuid t = login_user pwuid s" for pwuid by (simp add: login_user_def assms(2))
  then show "login_user pwuid t = login_user pwuid s" .
  show "nick_line t = nick_line s" "user_line pwuid r t = user_line pwuid r s"
    by (simp_all only: nick_line_def user_line_def u assms)
  show "login_realname pwuid pwnam t = login_realname pwuid pwnam s" by (simp only: login_realname_def u assms)
qed

text \<open>A server that may send at once, with nothing waiting, and one that awaits a confirmation.\<close>

lemma sendRaw_idle:
  assumes "send_ok conn s" "pending s = []" "\<not> s_sending s" "s_sendcreditticks s \<ge> 2"
  shows "\<exists>q. sendRaw (Some l) s = Inr (call (ConnWrite conn l)
      (s\<lparr>s_sendQueue := Some q, s_sendcmd := Some l, s_sending := True, s_sendcreditticks := s_sendcreditticks s - 2\<rparr>))
    \<and> IBQueue_ok q \<and> queue_objs q = []"
proof -
  have "length (pending s) < QUEUEINITIALCAPA" using assms(2) by simp
  then obtain q where q: "enqueue_cmd (Some l) s = Inr (s\<lparr>s_sendQueue := Some q\<rparr>)" "IBQueue_ok q" "queue_objs q = pending s @ [l]"
    by (rule enqueue_exact [OF assms(1)])
  then obtain q' where "IBQueue_dequeue q = Inr (Some l, q')" "IBQueue_ok q'" "queue_objs q' = []"
    using sendfifo.deq_cons [OF q(2), of l "[]"] assms(2) by auto
  with q(1) assms show ?thesis by (intro exI [of _ q']) (simp add: sendRaw_def try_send_def send_ok_def)
qed

lemma sendRaw_busy:
  assumes "send_ok conn s" "pending s = []" "s_sending s"
  shows "\<exists>q. sendRaw (Some l) s = Inr (s\<lparr>s_sendQueue := Some q\<rparr>) \<and> IBQueue_ok q \<and> queue_objs q = [l]"
proof -
  have "length (pending s) < QUEUEINITIALCAPA" using assms(2) by simp
  then obtain q where q: "enqueue_cmd (Some l) s = Inr (s\<lparr>s_sendQueue := Some q\<rparr>)" "IBQueue_ok q" "queue_objs q = pending s @ [l]"
    by (rule enqueue_exact [OF assms(1)])
  with assms(2,3) show ?thesis by (intro exI [of _ q]) (simp add: sendRaw_def try_send_def)
qed

text \<open>The two lines of the login: the first is written, the second waits.\<close>

lemma send_login_lines:
  assumes "send_ok conn s" "pending s = []" "\<not> s_sending s" "s_sendcreditticks s \<ge> 2"
    and "login_realname pwuid pwnam s = Inr realname"
  shows "\<exists>t. send_login pwuid pwnam s = Inr t \<and> send_ok conn t \<and> written t = written s @ [nick_line s] \<and> pending t = [user_line pwuid realname s]
    \<and> s_sending t \<and> s_sendcreditticks t = s_sendcreditticks s - 2 \<and> s_connst t = -2"
proof -
  obtain q where q: "sendRaw (Some (nick_line s)) s = Inr (call (ConnWrite conn (nick_line s))
      (s\<lparr>s_sendQueue := Some q, s_sendcmd := Some (nick_line s), s_sending := True, s_sendcreditticks := s_sendcreditticks s - 2\<rparr>))"
      "IBQueue_ok q" "queue_objs q = []"
    using sendRaw_idle [OF assms(1-4)] by blast
  let ?u = "call (ConnWrite conn (nick_line s))
      (s\<lparr>s_sendQueue := Some q, s_sendcmd := Some (nick_line s), s_sending := True, s_sendcreditticks := s_sendcreditticks s - 2\<rparr>)"
  have u: "send_ok conn ?u" "pending ?u = []" "s_sending ?u" using assms(1) q(2,3) by (simp_all add: send_ok_def)
  have who: "login_realname pwuid pwnam ?u = login_realname pwuid pwnam s" "user_line pwuid realname ?u = user_line pwuid realname s"
    by (rule who_same; simp add: call_def)+
  obtain q' where q': "sendRaw (Some (user_line pwuid realname s)) ?u = Inr (?u\<lparr>s_sendQueue := Some q'\<rparr>)"
      "IBQueue_ok q'" "queue_objs q' = [user_line pwuid realname s]"
    using sendRaw_busy [OF u] by blast
  have "send_login pwuid pwnam s = Inr (?u\<lparr>s_sendQueue := Some q', s_connst := -2\<rparr>)"
    by (simp only: send_login_def sendRawCmd_def login_raw_lines bind_result_simps q(1) q'(1) who assms(5) Let_def)
  moreover have "written (?u\<lparr>s_sendQueue := Some q', s_connst := -2\<rparr>) = written s @ [nick_line s]"
    by (simp add: written_def call_def written_in_append)
  ultimately show ?thesis using q' assms(1) by (simp add: send_ok_def pending_def)
qed

section \<open>The connection is established\<close>

text \<open>A server that was connected and has not sent anything.\<close>

definition greeted :: "nat \<Rightarrow> 'x logged_server_scheme \<Rightarrow> 'x logged_server_scheme \<Rightarrow> bool" where
  "greeted conn s t \<longleftrightarrow> recv_ok t \<and> pending_bytes t = pending_bytes s \<and> send_ok conn t \<and> written t = [] \<and> pending t = [] \<and> \<not> s_sending t
     \<and> s_sendcreditticks t = FULLSENDCREDIT \<and> s_connst t = -1 \<and> conn_registered conn DataReceivedEv ConnDataReceived t
     \<and> s_nick t = s_nick s \<and> s_user t = s_user s \<and> s_realname t = s_realname s"

abbreviation (input) connected_server :: "nat \<Rightarrow> 'x logged_server_scheme \<Rightarrow> 'x logged_server_scheme" where
  "connected_server conn s \<equiv> connConnected conn (snd (IrcServer_connect (Some conn) s))"

lemma greeted_connected:
  assumes "recv_ok s" "s_conn s = None" "\<not> s_sending s" "written s = []"
  shows "greeted conn s (connected_server conn s)"
  using assms create_queue_ok
  by (simp add: greeted_def connConnected_def IrcServer_connect_def Let_def send_ok_def conn_registered_def call_def
      recv_ok_def pending_bytes_def written_def written_in_append pending_def)

lemma greeted_fresh: "fresh s \<Longrightarrow> greeted conn s (connected_server conn s) \<and> pending_bytes s = []"
  using greeted_connected [of s conn] by (simp add: fresh_def recv_ok_def written_def pending_bytes_def line_at_def)

text \<open>The first data: the login is sent.\<close>

lemma login_data:
  assumes "greeted conn s t" "length data \<le> 4096" "quiet_messages (stream_messages (pending_bytes s @ data))"
    "login_realname pwuid pwnam s = Inr realname"
  shows "\<exists>u. connDataReceived log_raise pwuid pwnam conn data t = Inr u \<and> send_ok conn u \<and> written u = [nick_line s]
    \<and> pending u = [user_line pwuid realname s] \<and> s_sending u \<and> s_sendcreditticks u = FULLSENDCREDIT - 2 \<and> s_connst u = -2"
proof -
  have t: "recv_ok t" "s_conn t = Some conn" "pending_bytes t = pending_bytes s" "s_connst t = -1"
    using assms(1) by (simp_all add: greeted_def send_ok_def)
  from quiet_data [OF t(1) assms(2) t(2)] assms(3) t(3,4) obtain i b n l where
    d: "connDataReceived log_raise pwuid pwnam conn data t
      = send_login pwuid pwnam (t\<lparr>s_idleticks := i, s_recvbuf := b, s_recvbufsz := n, l_log := l\<rparr>)"
    by (fastforce simp: Let_def)
  let ?x = "t\<lparr>s_idleticks := i, s_recvbuf := b, s_recvbufsz := n, l_log := l\<rparr>"
  have x: "send_ok conn ?x" "pending ?x = []" "\<not> s_sending ?x" "s_sendcreditticks ?x = 9" "written ?x = []"
    using assms(1) by (simp_all add: greeted_def send_ok_def pending_def written_def)
  have who: "login_realname pwuid pwnam ?x = Inr realname" "nick_line ?x = nick_line s" "user_line pwuid realname ?x = user_line pwuid realname s"
    using who_same [of ?x s] assms(1,4) by (simp_all add: greeted_def)
  from send_login_lines [OF x(1-3) _ who(1)] x(4,5) who(2,3) show ?thesis by (simp add: d)
qed

section \<open>A session up to the login\<close>

lemma session_fields:
  "c_connecting (session conn tls addr host numeric active mem s) = CONNTICKS"
  "c_wire (session conn tls addr host numeric active mem s) = []"
  "cl_user (session conn tls addr host numeric active mem s) = \<lparr>o_missed = [], o_server = Inr (snd (IrcServer_connect (Some conn) s))\<rparr>"
  "c_tls (session conn tls addr host numeric active mem s) = tls"
  "c_connect_st (session conn tls addr host numeric active mem s) = None"
  "c_read_st (session conn tls addr host numeric active mem s) = None"
  "c_write_st (session conn tls addr host numeric active mem s) = None"
  "c_handling (session conn tls addr host numeric active mem s) = False"
  "cl_closed (session conn tls addr host numeric active mem s) = []"
  "cl_received (session conn tls addr host numeric active mem s) = []"
  by (simp_all add: session_def open_conn_def created)
     (simp_all add: Connection_setRemoteAddr_def Connection_create_def Let_def log_conn_def)

text \<open>The first readiness for writing establishes the connection.\<close>

lemma session_connects:
  assumes "fresh s" "\<not> sa_failed a"
  shows "\<exists>c. conn_step (server_react raise pwuid pwnam conn) (OpWritable a) (session conn False addr host numeric active mem s) = Inr c
    \<and> o_server (cl_user c) = Inr (connected_server conn s) \<and> c_connecting c = 0 \<and> c_wire c = [] \<and> \<not> c_tls c
    \<and> c_connect_st c = None \<and> c_read_st c = None \<and> c_write_st c = None \<and> \<not> c_handling c
    \<and> cl_closed c = [] \<and> cl_received c = [] \<and> o_missed (cl_user c) = []"
proof -
  let ?c = "session conn False addr host numeric active mem s"
  let ?x = "wantreadwrite (?c\<lparr>c_tickreg := False, c_connecting := 0\<rparr>)"
  let ?s = "snd (IrcServer_connect (Some conn) s)"
  have none: "s_conn s = None" using assms(1) by (simp add: fresh_def)
  have ev: "server_event raise pwuid pwnam conn EvConnConnected ?s = Inr (connected_server conn s)"
    using none by (simp add: IrcServer_connect_def)
  have "server_writes ?s (connected_server conn s) = []"
    by (rule no_writes) (simp add: connConnected_def Let_def new_calls_def call_def)
  moreover have "o_server (cl_user ?x) = Inr ?s" by (simp add: wantreadwrite_regs session_fields)
  ultimately have "client_raise (server_react raise pwuid pwnam conn) EvConnConnected ?x
      = ?x\<lparr>cl_user := \<lparr>o_missed = o_missed (cl_user ?x) @ missed conn EvConnConnected ?s, o_server = Inr (connected_server conn s)\<rparr>\<rparr>"
    using react_raise [OF _ ev, of ?x] by simp
  then show ?thesis using assms(2)
    by (simp add: writeConnection_def Let_def session_fields) (simp add: wantreadwrite_regs session_fields missed_def)
qed

lemma session_login_steps:
  assumes "fresh s" "\<not> sa_failed a" "sa_read b = Ready data" "quiet_messages (stream_messages (take CONNBUFSZ data))"
    and "login_realname pwuid pwnam s = Inr realname"
  shows "\<exists>c u. server_run log_raise pwuid pwnam conn [OnWritable a, OnReadable b] (session conn False addr host numeric active mem s) = Inr c
    \<and> o_server (cl_user c) = Inr u \<and> send_ok conn u \<and> written u = [nick_line s] \<and> pending u = [user_line pwuid realname s]
    \<and> s_sending u \<and> s_sendcreditticks u = FULLSENDCREDIT - 2 \<and> s_connst u = -2 \<and> c_wire c = [] \<and> writable c"
proof -
  let ?react = "server_react log_raise pwuid pwnam conn"
  obtain c where c: "conn_step ?react (OpWritable a) (session conn False addr host numeric active mem s) = Inr c"
      "o_server (cl_user c) = Inr (connected_server conn s)" "c_connecting c = 0" "c_wire c = []" "\<not> c_tls c"
      "c_connect_st c = None" "c_read_st c = None" "c_write_st c = None" "\<not> c_handling c"
    using session_connects [OF assms(1,2)] by blast
  have g: "greeted conn s (connected_server conn s)" "pending_bytes s = []" using greeted_fresh [OF assms(1)] by simp_all
  obtain u where u: "connDataReceived log_raise pwuid pwnam conn (take CONNBUFSZ data) (connected_server conn s) = Inr u"
      "send_ok conn u" "written u = [nick_line s]" "pending u = [user_line pwuid realname s]" "s_sending u"
      "s_sendcreditticks u = FULLSENDCREDIT - 2" "s_connst u = -2"
    using login_data [OF g(1), of "take CONNBUFSZ data" pwuid pwnam realname] assms(4,5) g(2) by auto
  let ?d = "client_raise ?react (EvDataReceived (take CONNBUFSZ data)) c"
  have "o_server (cl_user ?d) = Inr u"
    using raise_server [OF c(2), of log_raise pwuid pwnam conn "EvDataReceived (take CONNBUFSZ data)"] u(1) g by (simp add: greeted_def)
  moreover have "conn_step ?react (OpReadable b) c = Inr (wantreadwrite ?d)"
    using c assms(3) by (simp add: readConnection_def doread_def Let_def)
  moreover have "c_wire (wantreadwrite ?d) = [] \<and> writable (wantreadwrite ?d)"
    using link_trans [OF raise_link want_link, of c ?react "EvDataReceived (take CONNBUFSZ data)"] c
    by (simp add: same_link_def writable_def)
  ultimately show ?thesis using c(1) u by (intro exI [of _ "wantreadwrite ?d"] exI [of _ u]) (simp add: server_run_step)
qed


section \<open>Bytes that are lost or mixed up\<close>

text \<open>An unfinished line survives the loss of its connection: \<open>recvbufsz\<close> is reset neither by the close
  nor by the next connection, so what was received of it is put before the first line the
  next server sends.\<close>

theorem stale_line:
  assumes "recv_ok s" "s_conn s = Some old" "connClosed log_raise old b s = Inr s1" "length data \<le> 4096"
    and "connDataReceived log_raise pwuid pwnam new data (connected_server new s1) = Inr s2"
  shows "l_log s2 = l_log s @ stream_messages (pending_bytes s @ data)"
proof -
  have s1: "recv_ok s1" "s_conn s1 = None" "pending_bytes s1 = pending_bytes s" "l_log s1 = l_log s"
    using assms(1-3) by (auto simp: connClosed_def Let_def bind_result_eq_Inr log_raise_def recv_ok_def pending_bytes_def call_def)
  let ?t = "connected_server new s1"
  have "recv_ok ?t" "s_conn ?t = Some new" "pending_bytes ?t = pending_bytes s1" "l_log ?t = l_log s1"
    using s1(1,2) by (simp_all add: connConnected_def IrcServer_connect_def Let_def recv_ok_def pending_bytes_def call_def)
  with log_listener.connDataReceived_hears(4) [of ?t data new pwuid pwnam s2] assms(4,5) s1(3,4) show ?thesis by simp
qed

text \<open>While the TLS library waits to write during the handshake, a descriptor that is ready for reading is
  read all the same (\<open>readConnection\<close> only looks for a handshake that waits to read). If the
  library finishes the handshake in this call, the data is reported before the connection is,
  when the server has not yet registered for it, and is lost.\<close>

theorem early_data_missed:
  assumes "fresh s" "\<not> sa_failed a" "sa_handshake a = Again WANT_WRITE" "sa_read b = Ready data"
  shows "\<exists>c. server_run raise pwuid pwnam conn [OnWritable a, OnReadable b] (session conn True addr host numeric active mem s) = Inr c
    \<and> cl_received c = take CONNBUFSZ data \<and> o_missed (cl_user c) = take CONNBUFSZ data
    \<and> o_server (cl_user c) = Inr (snd (IrcServer_connect (Some conn) s))"
proof -
  let ?react = "server_react raise pwuid pwnam conn"
  let ?c = "session conn True addr host numeric active mem s"
  let ?s = "snd (IrcServer_connect (Some conn) s)"
  let ?d = "wantreadwrite (?c\<lparr>c_tickreg := False, c_connecting := 0, c_connect_ticks := CONNTICKS, c_tlstickreg := True, c_connect_st := Some WANT_WRITE\<rparr>)"
  have "s_conn s = None" "s_calls s = []" using assms(1) by (simp_all add: fresh_def)
  then have "\<not> conn_registered conn DataReceivedEv ConnDataReceived ?s" by (simp add: IrcServer_connect_def conn_registered_def call_def)
  then have ev: "server_event raise pwuid pwnam conn (EvDataReceived x) ?s = Inr ?s" "missed conn (EvDataReceived x) ?s = x" for x
    by (simp_all add: missed_def)
  have first: "conn_step ?react (OpWritable a) ?c = Inr ?d"
    using assms(2,3) by (simp add: writeConnection_def dohandshake_def Let_def session_fields)
  let ?x = "?d\<lparr>c_read_st := None\<rparr>"
  have x: "cl_user ?x = \<lparr>o_missed = [], o_server = Inr ?s\<rparr>" "cl_received ?x = []"
    by (simp_all add: wantreadwrite_regs session_fields)
  have d: "c_connect_st ?d = Some WANT_WRITE" "c_read_st ?d = None" "c_write_st ?d = None" "\<not> c_handling ?d" "c_tls ?d"
    by (simp_all add: wantreadwrite_regs session_fields)
  let ?e = "wantreadwrite (client_raise ?react (EvDataReceived (take CONNBUFSZ data)) ?x)"
  have "conn_step ?react (OpReadable b) ?d = Inr ?e"
    using d assms(4) by (simp add: readConnection_def doread_def Let_def)
  with first have run: "server_run raise pwuid pwnam conn [OnWritable a, OnReadable b] ?c = Inr ?e" by (simp add: server_run_step)
  have "client_raise ?react (EvDataReceived (take CONNBUFSZ data)) ?x = (note_event (EvDataReceived (take CONNBUFSZ data)) ?x)
      \<lparr>cl_user := \<lparr>o_missed = take CONNBUFSZ data, o_server = Inr ?s\<rparr>\<rparr>"
    using react_raise [of ?x ?s raise pwuid pwnam conn "EvDataReceived (take CONNBUFSZ data)" ?s] x(1) ev
    by (simp add: no_writes new_calls_call)
  with run x(2) show ?thesis by (intro exI [of _ ?e]) (simp add: wantreadwrite_regs)
qed

section \<open>Witnesses\<close>

definition new_server :: logged_server where
  "new_server = idle_server\<lparr>s_conn := None, s_sendQueue := None, s_user := Some ''me'', s_realname := Some ''Me''\<rparr>"

definition greeting :: string where
  "greeting = ''NOTICE a :b'' @ CRLF"

definition ready_answers :: sys_answers where
  "ready_answers = \<lparr>sa_failed = False, sa_handshake = Again WANT_WRITE, sa_write = Ready 600, sa_read = Ready greeting\<rparr>"

lemma new_server_fresh: "fresh new_server"
  by (simp add: new_server_def fresh_def) (simp add: idle_server_def)

lemma new_server_login: "login_realname None (\<lambda>_. None) new_server = Inr ''Me''"
  by (simp add: login_realname_def new_server_def)

lemma greeting_quiet: "quiet_messages (stream_messages greeting)" "take CONNBUFSZ greeting = greeting"
proof -
  have "map m_command (stream_messages greeting) = [MSG_NOTICE]" unfolding greeting_def by code_simp
  then show "quiet_messages (stream_messages greeting)"
    by (cases "stream_messages greeting") (simp_all add: quiet_messages_def)
  show "take CONNBUFSZ greeting = greeting" by (simp add: greeting_def)
qed

lemma new_lines: "nick_line new_server = ''NICK bot'' @ CRLF" "user_line None ''Me'' new_server = ''USER me 0 * :Me'' @ CRLF"
  by (simp_all add: nick_line_def user_line_def login_user_def snprintf_fit_def new_server_def) (simp add: idle_server_def)

text \<open>A session on any memory, up to the login.\<close>

abbreviation (input) new_session :: "unit owned client_conn \<Rightarrow> unit owned client_conn" where
  "new_session mem \<equiv> session 7 False ''A'' ''a'' False False mem new_server"

lemma new_session_steps:
  "\<exists>c u. server_run log_raise None (\<lambda>_. None) 7 [OnWritable ready_answers, OnReadable ready_answers] (new_session mem) = Inr c
    \<and> o_server (cl_user c) = Inr u \<and> send_ok 7 u \<and> written u = [''NICK bot'' @ CRLF] \<and> s_sending u \<and> c_wire c = [] \<and> writable c
    \<and> cl_closed c = [] \<and> unsent c = ''NICK bot'' @ CRLF"
proof -
  obtain c u where c: "server_run log_raise None (\<lambda>_. None) 7 [OnWritable ready_answers, OnReadable ready_answers] (new_session mem) = Inr c"
      "o_server (cl_user c) = Inr u" "send_ok 7 u" "written u = [''NICK bot'' @ CRLF]" "s_sending u" "c_wire c = []" "writable c"
    using session_login_steps [OF new_server_fresh, of ready_answers ready_answers greeting None "\<lambda>_. None" "''Me''" 7
        "''A''" "''a''" False False mem] greeting_quiet new_server_login new_lines by (auto simp: ready_answers_def)
  have "good (session_ok 7) c"
    using session_good [OF log_listener.listener_axioms new_server_fresh] c(1) by (metis sum.inject(2))
  note f = session_server [OF this c(2)]
  have "s_conn u = Some 7" using c(3) by (simp add: send_ok_def)
  then have "cl_closed c = []" using f(2) by (simp add: server_ok_def split: if_splits)
  moreover have "unsent c = ''NICK bot'' @ CRLF"
    using stream_bytes(1) [OF f(1)] f(2) c(4,6) by (simp add: server_ok_def lines_ids_def)
  ultimately show ?thesis using c by blast
qed

theorem session_wire_witness:
  "\<forall>mem. \<exists>c u. server_run log_raise None (\<lambda>_. None) 7 [OnWritable ready_answers, OnReadable ready_answers] (new_session mem) = Inr c
    \<and> o_server (cl_user c) = Inr u \<and> c_wire c @ unsent c = concat (written u) \<and> written u = [''NICK bot'' @ CRLF] \<and> c_writereg c"
proof
  fix mem
  let ?ops = "[OnWritable ready_answers, OnReadable ready_answers]"
  obtain c u where c: "server_run log_raise None (\<lambda>_. None) 7 ?ops (new_session mem) = Inr c" "o_server (cl_user c) = Inr u"
      "written u = [''NICK bot'' @ CRLF]" "s_sending u" "cl_closed c = []"
    using new_session_steps [of mem] by blast
  with session_wire [OF log_listener.listener_axioms new_server_fresh, of None "\<lambda>_. None" 7 ?ops False "''A''" "''a''" False False mem]
  show "\<exists>c u. server_run log_raise None (\<lambda>_. None) 7 ?ops (new_session mem) = Inr c
    \<and> o_server (cl_user c) = Inr u \<and> c_wire c @ unsent c = concat (written u) \<and> written u = [''NICK bot'' @ CRLF] \<and> c_writereg c"
    by auto
qed

theorem session_hears_witness:
  "\<forall>mem. \<exists>c u d. server_run log_raise None (\<lambda>_. None) 7 [OnWritable ready_answers, OnReadable ready_answers] (new_session mem) = Inr c
    \<and> o_server (cl_user c) = Inr u \<and> cl_received c = o_missed (cl_user c) @ d \<and> (short_lines d \<longrightarrow> l_log u = stream_messages d)"
proof
  fix mem
  let ?ops = "[OnWritable ready_answers, OnReadable ready_answers]"
  obtain c u where c: "server_run log_raise None (\<lambda>_. None) 7 ?ops (new_session mem) = Inr c" "o_server (cl_user c) = Inr u" "cl_closed c = []"
    using new_session_steps [of mem] by blast
  with session_hears [OF log_listener.listener_axioms new_server_fresh c]
  show "\<exists>c u d. server_run log_raise None (\<lambda>_. None) 7 ?ops (new_session mem) = Inr c
    \<and> o_server (cl_user c) = Inr u \<and> cl_received c = o_missed (cl_user c) @ d \<and> (short_lines d \<longrightarrow> l_log u = stream_messages d)"
    by blast
qed

theorem session_progress_witness:
  "\<forall>mem. \<exists>d. server_run log_raise None (\<lambda>_. None) 7 [OnWritable ready_answers, OnReadable ready_answers, OnWritable ready_answers]
      (new_session mem) = Inr d \<and> c_wire d = ''NICK bot'' @ CRLF"
proof
  fix mem
  let ?ops = "[OnWritable ready_answers, OnReadable ready_answers]"
  obtain c u where c: "server_run log_raise None (\<lambda>_. None) 7 ?ops (new_session mem) = Inr c" "o_server (cl_user c) = Inr u"
      "written u = [''NICK bot'' @ CRLF]" "s_sending u" "writable c" "cl_closed c = []" "unsent c = ''NICK bot'' @ CRLF"
    using new_session_steps [of mem] by blast
  have "sa_write ready_answers = Ready 600" "length (unsent c) \<le> 600" by (simp_all add: ready_answers_def c(7))
  from session_progress [OF log_listener.listener_axioms new_server_fresh c(1,2,6,4,5) this]
  show "\<exists>d. server_run log_raise None (\<lambda>_. None) 7 [OnWritable ready_answers, OnReadable ready_answers, OnWritable ready_answers]
      (new_session mem) = Inr d \<and> c_wire d = ''NICK bot'' @ CRLF"
    using c(3) by auto
qed


text \<open>The message that ends a login.\<close>

definition demo_welcome :: "unit IrcMessage" where
  "demo_welcome = \<lparr>m_prefix = Some ''s'', m_rawCmd = ''004'', m_rawParams = Some ''bot s v'',
     m_params = foldl (\<lambda>l x. IBList_append l x (Some ())) IBList_create [''bot'', ''s'', ''v''], m_command = RPL_MYINFO\<rparr>"

lemma demo_params: "IBList_size (m_params demo_welcome) = 3"
proof -
  have p: "IBList_ok (m_params demo_welcome)" "objs (m_params demo_welcome) = [''bot'', ''s'', ''v'']"
    unfolding demo_welcome_def by (simp_all add: seq.build del: foldl.simps)
  then show ?thesis by (simp add: IBList_size_objs [OF p(1)])
qed

lemma data_exact:
  assumes "recv_ok s" "length data \<le> 4096" "s_conn s = Some conn" "pending_bytes s = []"
  shows "\<exists>buf pos. connDataReceived raise pwuid pwnam conn data s =
    bind_result (handle_all raise (stream_messages data) (s\<lparr>s_idleticks := IDLETICKS, s_recvbuf := buf, s_recvbufsz := s_recvbufsz s + length data\<rparr>))
      (\<lambda>u. let k = recv_keep pos u in if s_connst k = -1 then send_login pwuid pwnam k else Inr k)"
proof -
  obtain buf where buf: "recv_store (s_recvbuf s) (s_recvbufsz s) data = Inr buf" "length buf = RECVBUFSZ"
      "line_at buf 0 (s_recvbufsz s + length data) = data"
    using recv_store_ok [OF assms(1,2)] assms(4) by auto
  let ?n = "s_recvbufsz s + length data"
  have n: "?n \<le> length buf" using assms(1,2) buf(2) by (simp add: recv_ok_def)
  show ?thesis
    using receive_loop_messages [OF n, of 0 raise "s\<lparr>s_idleticks := 180, s_recvbuf := buf, s_recvbufsz := ?n\<rparr>"] buf assms(3)
    by (intro exI [of _ buf] exI [of _ "?n - length (snd (crlf_split data))"]) (simp add: connDataReceived_def Let_def)
qed

lemma raise_history:
  assumes "o_server (cl_user c) = Inr s"
  shows "cl_closed (client_raise (server_react raise pwuid pwnam conn) (EvDataReceived d) c) = cl_closed c"
    "cl_received (client_raise (server_react raise pwuid pwnam conn) (EvDataReceived d) c) = cl_received c @ d"
    "conn_registered conn DataReceivedEv ConnDataReceived s \<Longrightarrow>
      o_missed (cl_user (client_raise (server_react raise pwuid pwnam conn) (EvDataReceived d) c)) = o_missed (cl_user c)"
  using assms by (simp_all add: client_raise_def server_react_def Let_def missed_def)

text \<open>
  The first data on a plain connection, when the messages in it are handled and something \<open>P\<close>
  holds then that does not depend on the receive buffer.
\<close>

lemma first_data:
  assumes "fresh s" "\<not> sa_failed a" "sa_read b = Ready data" "take CONNBUFSZ data = data" "length data \<le> 4096"
    and "\<And>buf n. \<exists>u. handle_all raise (stream_messages data) ((connected_server conn s)\<lparr>s_idleticks := IDLETICKS, s_recvbuf := buf, s_recvbufsz := n\<rparr>) = Inr u
      \<and> s_connst u \<noteq> -1 \<and> P u"
    and "\<And>pos u. P u \<Longrightarrow> P (recv_keep pos u)"
  shows "\<exists>c u. conn_run (server_react raise pwuid pwnam conn) [OpWritable a, OpReadable b] (session conn False addr host numeric active mem s) = Inr c
    \<and> o_server (cl_user c) = Inr u \<and> P u \<and> cl_closed c = [] \<and> cl_received c = data \<and> o_missed (cl_user c) = []"
proof -
  let ?react = "server_react raise pwuid pwnam conn" and ?t = "connected_server conn s"
  obtain c where c: "conn_step ?react (OpWritable a) (session conn False addr host numeric active mem s) = Inr c"
      "o_server (cl_user c) = Inr ?t" "c_connecting c = 0" "\<not> c_tls c"
      "c_connect_st c = None" "c_read_st c = None" "c_write_st c = None" "\<not> c_handling c"
      "cl_closed c = []" "cl_received c = []" "o_missed (cl_user c) = []"
    using session_connects [OF assms(1,2)] by blast
  have t: "recv_ok ?t" "s_conn ?t = Some conn" "pending_bytes ?t = []" "conn_registered conn DataReceivedEv ConnDataReceived ?t"
    using greeted_fresh [OF assms(1), of conn] by (simp_all add: greeted_def send_ok_def)
  obtain buf pos where d: "connDataReceived raise pwuid pwnam conn data ?t =
    bind_result (handle_all raise (stream_messages data)
        (?t\<lparr>s_idleticks := IDLETICKS, s_recvbuf := buf, s_recvbufsz := s_recvbufsz ?t + length data\<rparr>))
      (\<lambda>u. let k = recv_keep pos u in if s_connst k = -1 then send_login pwuid pwnam k else Inr k)"
    using data_exact [OF t(1) assms(5) t(2,3)] by blast
  obtain u where u: "handle_all raise (stream_messages data)
        (?t\<lparr>s_idleticks := IDLETICKS, s_recvbuf := buf, s_recvbufsz := s_recvbufsz ?t + length data\<rparr>) = Inr u" "s_connst u \<noteq> -1" "P u"
    using assms(6) by blast
  have data: "connDataReceived raise pwuid pwnam conn data ?t = Inr (recv_keep pos u)"
    unfolding d u(1) using u(2) by (simp add: Let_def recv_keep_other)
  let ?d = "client_raise ?react (EvDataReceived data) c"
  have "o_server (cl_user ?d) = Inr (recv_keep pos u)"
    using raise_server [OF c(2), of raise pwuid pwnam conn "EvDataReceived data"] data t(4) by simp
  moreover have "conn_step ?react (OpReadable b) c = Inr (wantreadwrite ?d)"
    using c assms(3,4) by (simp add: readConnection_def doread_def Let_def)
  moreover have "cl_closed ?d = [] \<and> cl_received ?d = data \<and> o_missed (cl_user ?d) = []"
    using raise_history [OF c(2), where raise = raise and pwuid = pwuid and pwnam = pwnam and conn = conn and d = data] c(9-11) t(4) by simp
  ultimately show ?thesis using c(1) assms(7) [OF u(3)]
    by (intro exI [of _ "wantreadwrite ?d"] exI [of _ "recv_keep pos u"]) (simp add: want_user wantreadwrite_regs)
qed

text \<open>A server that received the beginning of a line before its connection was lost.\<close>

definition cut_server :: logged_server where
  "cut_server = idle_server\<lparr>s_recvbuf := ''NOT'' @ replicate 8189 NUL, s_recvbufsz := 3, s_user := Some ''me'', s_realname := Some ''Me''\<rparr>"

theorem stale_line_witness:
  "\<exists>s1 s2. connClosed log_raise 7 True cut_server = Inr s1
    \<and> connDataReceived log_raise None (\<lambda>_. None) 8 (''ICE a :b'' @ CRLF) (connected_server 8 s1) = Inr s2
    \<and> map m_command (l_log s2) = [MSG_NOTICE]"
proof -
  have cut: "recv_ok cut_server" "s_conn cut_server = Some 7" "pending_bytes cut_server = ''NOT''" "l_log cut_server = []"
      "\<not> s_sending cut_server" "written cut_server = []"
    by (simp_all add: cut_server_def recv_ok_def pending_bytes_def line_at_def written_def) (simp_all add: idle_server_def)
  obtain s1 where s1: "connClosed log_raise 7 True cut_server = Inr s1" "s_conn s1 = None" "recv_ok s1" "\<not> s_sending s1" "written s1 = []"
      "pending_bytes s1 = ''NOT''" "s_realname s1 = Some ''Me''"
  proof -
    have "IBQueue_destroy (s_sendQueue cut_server) = Inr (concat (map entry_calls (queue_entries IBQueue_create)))"
      using IBQueue_destroy_calls [OF create_queue_ok(1)] by (simp add: cut_server_def idle_server_def)
    with cut that show thesis
      by (simp add: connClosed_def Let_def log_raise_def recv_ok_def pending_bytes_def written_def call_def written_in_append)
         (simp add: cut_server_def)
  qed
  have m: "map m_command (stream_messages (''NOT'' @ ''ICE a :b'' @ CRLF)) = [MSG_NOTICE]" by code_simp
  then have q: "quiet_messages (stream_messages (pending_bytes s1 @ ''ICE a :b'' @ CRLF))"
    unfolding s1(6) by (cases "stream_messages (''NOT'' @ ''ICE a :b'' @ CRLF)") (auto simp: quiet_messages_def)
  have "login_realname None (\<lambda>_. None) s1 = Inr ''Me''" by (simp add: login_realname_def s1(7))
  with login_data [OF greeted_connected [OF s1(3,2,4,5)] _ q] obtain s2 where
    s2: "connDataReceived log_raise None (\<lambda>_. None) 8 (''ICE a :b'' @ CRLF) (connected_server 8 s1) = Inr s2" by fastforce
  from stale_line [OF cut(1,2) s1(1) _ s2] have "l_log s2 = stream_messages (''NOT'' @ ''ICE a :b'' @ CRLF)"
    by (simp add: cut)
  with s1(1) s2 m show ?thesis by (metis (no_types))
qed

theorem early_data_missed_witness:
  "\<forall>mem. \<exists>c. server_run log_raise None (\<lambda>_. None) 7 [OnWritable ready_answers, OnReadable ready_answers]
      (session 7 True ''A'' ''a'' False False mem new_server) = Inr c \<and> o_missed (cl_user c) = greeting"
proof
  fix mem
  show "\<exists>c. server_run log_raise None (\<lambda>_. None) 7 [OnWritable ready_answers, OnReadable ready_answers]
      (session 7 True ''A'' ''a'' False False mem new_server) = Inr c \<and> o_missed (cl_user c) = greeting"
    using early_data_missed [OF new_server_fresh, of ready_answers ready_answers greeting log_raise None "\<lambda>_. None" 7 "''A''" "''a''" False False mem]
      greeting_quiet(2) by (auto simp: ready_answers_def)
qed

end
