(* ===== verification/Bot.thy ===== *)
theory Bot
  imports ServerSend
begin

text \<open>
  \<open>src/lib/ircbot/ircbot.c\<close>: the registry of event handlers, the choice of the handler for a
  message or a channel event, the event handed to it, and what is done with its response.
  Handing a job to the thread pool is the result of these functions (\<open>HandlerJob\<close>). A server
  is named by a number, what is read of it (its id, its table of channels) is an argument.
  A loop over a list's iterator is \<open>foreach\<close>, so a result \<open>None\<close> is a loop that does not end.
\<close>

section \<open>State\<close>

datatype IrcBotEventType =
  IBET_BOTCOMMAND | IBET_PRIVMSG | IBET_CONNECTED | IBET_CHANJOINED | IBET_JOINED | IBET_PARTED

abbreviation (input) ORIGIN_PRIVATE :: string where "ORIGIN_PRIVATE \<equiv> '':''"
abbreviation (input) ORIGIN_CHANNEL :: string where "ORIGIN_CHANNEL \<equiv> ''#''"

record 'h IrcBotEventHandler =
  h_handler :: 'h
  h_serverId :: "string option"
  h_origin :: "string option"
  h_filter :: "string option"
  h_type :: IrcBotEventType

record IrcBotResponseMessage =
  rm_to :: string
  rm_msg :: string
  rm_action :: bool

record IrcBotEvent =
  be_server :: nat
  be_origin :: "string option"
  be_command :: "string option"
  be_from :: "string option"
  be_arg :: "string option"
  be_messages :: "(IrcBotResponseMessage, unit) IBList"
  be_type :: IrcBotEventType

type_synonym 'h handlers = "('h IrcBotEventHandler, unit) IBList option"

record 'h HandlerJob =
  hj_hdl :: "'h IrcBotEventHandler"
  hj_e :: IrcBotEvent
  hj_timeout :: int

section \<open>Handlers and events\<close>

definition IrcBot_addHandler :: "IrcBotEventType \<Rightarrow> string option \<Rightarrow> string option \<Rightarrow> string option \<Rightarrow> 'h
    \<Rightarrow> 'h handlers \<Rightarrow> 'h handlers" where
  "IrcBot_addHandler eventType serverId origin filt handler handlers =
     (let hdl = \<lparr>h_handler = handler, h_serverId = serverId, h_origin = origin, h_filter = filt, h_type = eventType\<rparr>;
          hs = (case handlers of None \<Rightarrow> IBList_create | Some hs \<Rightarrow> hs)
      in Some (IBList_append hs hdl (Some ())))"

text \<open>\<open>h->x && (!x || strcmp (x, h->x))\<close>: the handler wants another value.\<close>

definition differs :: "string option \<Rightarrow> string option \<Rightarrow> bool" where
  "differs wanted given = (case wanted of None \<Rightarrow> False
     | Some w \<Rightarrow> (case given of None \<Rightarrow> True | Some g \<Rightarrow> g \<noteq> w))"

definition find_body :: "IrcBotEventType \<Rightarrow> string option \<Rightarrow> string option \<Rightarrow> string option
    \<Rightarrow> 'h IrcBotEventHandler option \<Rightarrow> 'h IrcBotEventHandler option
    \<Rightarrow> 'h IrcBotEventHandler option + 'h IrcBotEventHandler option" where
  "find_body ty serverId origin filt cur hdl =
     (let h = the cur in
      if h_type h \<noteq> ty then Inr hdl
      else if differs (h_serverId h) serverId then Inr hdl
      else if differs (h_origin h) origin then Inr hdl
      else if differs (h_filter h) filt then Inr hdl
      else Inl (Some h))"

definition findHandler :: "'h handlers \<Rightarrow> IrcBotEventType \<Rightarrow> string option \<Rightarrow> string option \<Rightarrow> string option
    \<Rightarrow> 'h IrcBotEventHandler option option" where
  "findHandler handlers ty serverId origin filt =
     (case handlers of None \<Rightarrow> Some None
      | Some hs \<Rightarrow> foreach IBListIterator_moveNext IBListIterator_current
                     (find_body ty serverId origin filt) (IBList_iterator hs) None)"

definition createBotEvent :: "IrcBotEventType \<Rightarrow> nat \<Rightarrow> string option \<Rightarrow> string option \<Rightarrow> string option
    \<Rightarrow> string option \<Rightarrow> IrcBotEvent" where
  "createBotEvent ty server origin command from arg =
     \<lparr>be_server = server, be_origin = IB_copystr origin, be_command = IB_copystr command,
      be_from = (case from of None \<Rightarrow> None | Some f \<Rightarrow> Some (take (strcspn f ''!'') f)),
      be_arg = IB_copystr arg, be_messages = IBList_create, be_type = ty\<rparr>"

definition IrcBotResponse_addMsg :: "string \<Rightarrow> string \<Rightarrow> bool \<Rightarrow> IrcBotEvent \<Rightarrow> IrcBotEvent" where
  "IrcBotResponse_addMsg to msg action e =
     e\<lparr>be_messages := IBList_append (be_messages e) \<lparr>rm_to = to, rm_msg = msg, rm_action = action\<rparr> (Some ())\<rparr>"

definition executeHandler :: "'h IrcBotEventHandler \<Rightarrow> IrcBotEvent \<Rightarrow> 'h HandlerJob" where
  "executeHandler hdl e = \<lparr>hj_hdl = hdl, hj_e = e, hj_timeout = 30\<rparr>"

section \<open>Events of the servers\<close>

text \<open>The second search: any private message, or any channel.\<close>

definition find_generic :: "'h handlers \<Rightarrow> IrcBotEventType \<Rightarrow> string \<Rightarrow> bool \<Rightarrow> string option
    \<Rightarrow> 'h IrcBotEventHandler option \<Rightarrow> 'h IrcBotEventHandler option option" where
  "find_generic handlers ty serverId channel filt hdl =
     (if hdl = None \<and> \<not> channel then findHandler handlers ty (Some serverId) (Some ORIGIN_PRIVATE) filt
      else if hdl = None \<and> channel then findHandler handlers ty (Some serverId) (Some ORIGIN_CHANNEL) filt
      else Some hdl)"

text \<open>The part for bot commands: the job, if the message is one and a handler was found.\<close>

definition command_job :: "'h handlers \<Rightarrow> nat \<Rightarrow> string \<Rightarrow> bool \<Rightarrow> string option \<Rightarrow> string \<Rightarrow> string
    \<Rightarrow> 'h HandlerJob option option" where
  "command_job handlers server serverId channel from to message =
     (if char_at message 0 = CHR ''!'' \<or> \<not> channel
      then (let message = (if char_at message 0 = CHR ''!'' then drop 1 message else message);
                cmdlen = strcspn message [CHR '' '', CHR 0x09, CR, LF]
            in if cmdlen \<noteq> 0 \<and> cmdlen < 64
               then (let cmd = take cmdlen message in
                     Option.bind (findHandler handlers IBET_BOTCOMMAND (Some serverId) (Some to) (Some cmd)) (\<lambda>hdl.
                     Option.bind (find_generic handlers IBET_BOTCOMMAND serverId channel (Some cmd) hdl) (\<lambda>hdl.
                       Some (map_option (\<lambda>hdl.
                         let arg = (if char_at message cmdlen \<noteq> NUL \<and> char_at message (cmdlen + 1) \<noteq> NUL
                                    then Some (drop (cmdlen + 1) message) else None)
                         in executeHandler hdl (createBotEvent IBET_BOTCOMMAND server (Some to) (Some cmd) from arg)) hdl))))
               else Some None)
      else Some None)"

definition msgReceived :: "'h handlers \<Rightarrow> nat \<Rightarrow> string \<Rightarrow> ('c, unit) IBHashTable \<Rightarrow> 'd IrcMessage
    \<Rightarrow> 'h HandlerJob option option" where
  "msgReceived handlers server serverId channels msg =
     (let params = m_params msg in
      if IBList_size params \<noteq> 2 then Some None
      else (let from = m_prefix msg; to = the (IBList_at params 0); message = the (IBList_at params 1);
                channel = (IBHashTable_get channels to \<noteq> None)
            in Option.bind (command_job handlers server serverId channel from to message) (\<lambda>job.
                 if job \<noteq> None then Some job
                 else Option.bind (findHandler handlers IBET_PRIVMSG (Some serverId) (Some to) None) (\<lambda>hdl.
                      Option.bind (find_generic handlers IBET_PRIVMSG serverId channel None hdl) (\<lambda>hdl.
                        Some (map_option (\<lambda>hdl. executeHandler hdl
                          (createBotEvent IBET_PRIVMSG server (Some to) None from (Some message))) hdl))))))"

definition userJoined :: "'h handlers \<Rightarrow> nat \<Rightarrow> string \<Rightarrow> string \<Rightarrow> string \<Rightarrow> 'h HandlerJob option option" where
  "userJoined handlers server serverId channel nick =
     map_option (map_option (\<lambda>hdl. executeHandler hdl (createBotEvent IBET_JOINED server (Some channel) None None (Some nick))))
       (findHandler handlers IBET_JOINED (Some serverId) (Some channel) (Some nick))"

definition userParted :: "'h handlers \<Rightarrow> nat \<Rightarrow> string \<Rightarrow> string \<Rightarrow> string \<Rightarrow> 'h HandlerJob option option" where
  "userParted handlers server serverId channel nick =
     map_option (map_option (\<lambda>hdl. executeHandler hdl (createBotEvent IBET_PARTED server (Some channel) None None (Some nick))))
       (findHandler handlers IBET_PARTED (Some serverId) (Some channel) (Some nick))"

datatype bot_reg = RegEntered nat | RegLeft nat

definition chanJoined_bot :: "'h handlers \<Rightarrow> nat \<Rightarrow> string \<Rightarrow> nat \<Rightarrow> string
    \<Rightarrow> (bot_reg list \<times> 'h HandlerJob option) option" where
  "chanJoined_bot handlers server serverId c channel =
     map_option (\<lambda>hdl. ([RegEntered c, RegLeft c],
         map_option (\<lambda>hdl. executeHandler hdl (createBotEvent IBET_CHANJOINED server (Some channel) None None None)) hdl))
       (findHandler handlers IBET_CHANJOINED (Some serverId) (Some channel) None)"

definition connected_bot :: "'h handlers \<Rightarrow> nat \<Rightarrow> string \<Rightarrow> 'h HandlerJob option option" where
  "connected_bot handlers server serverId =
     map_option (map_option (\<lambda>hdl. executeHandler hdl (createBotEvent IBET_CONNECTED server None None None None)))
       (findHandler handlers IBET_CONNECTED (Some serverId) None None)"


section \<open>The response\<close>

text \<open>The loop over the messages of the response; the results of \<open>IrcServer_sendMsg\<close> are ignored.\<close>

definition respond_body :: "IrcBotResponseMessage option \<Rightarrow> 'x IrcServer_scheme result \<Rightarrow>
    'x IrcServer_scheme result + 'x IrcServer_scheme result" where
  "respond_body cur st =
     (let m = the cur in
      Inr (bind_result st (\<lambda>self.
        case IrcServer_sendMsg (rm_to m) (rm_msg m) (rm_action m) self of
          None \<Rightarrow> Inr self
        | Some r \<Rightarrow> bind_result r (\<lambda>(rc, self). Inr self))))"

definition handlerJobFinished :: "bool \<Rightarrow> IrcBotEvent \<Rightarrow> 'x IrcServer_scheme \<Rightarrow> 'x IrcServer_scheme result option" where
  "handlerJobFinished hasCompleted e self =
     (if hasCompleted
      then foreach IBListIterator_moveNext IBListIterator_current respond_body (IBList_iterator (be_messages e)) (Inr self)
      else Some (Inr self))"

section \<open>Starting and stopping\<close>

text \<open>
  \<open>startup\<close>: connect every server and register for its events until one fails.
  \<open>connect_rc\<close> is the result of \<open>IrcServer_connect\<close> for a server, \<open>startupfunc\<close> that of the
  program's own startup function, if any; \<open>daemonize\<close> and \<open>started\<close> whether the program runs
  as a daemon and wants to be told.
\<close>

datatype bot_call =
    Connect nat | RegConnected nat | RegJoined nat | RegMsg nat IrcCommand | CallStartupfunc
  | LogAsync | CallStarted | DaemonLaunched
  | RegDisconnected nat | UnregDisconnected nat | ShutdownLock | ShutdownUnlock | Disconnect nat | CallShutdownfunc

definition startup_body :: "(nat \<Rightarrow> int) \<Rightarrow> nat option \<Rightarrow> int \<times> bot_call list
    \<Rightarrow> int \<times> bot_call list + int \<times> bot_call list" where
  "startup_body connect_rc cur st =
     (let server = the cur; (rc, calls) = st; calls = calls @ [Connect server] in
      if connect_rc server < 0 then Inl (1, calls)
      else Inr (rc, calls @ [RegConnected server, RegJoined server, RegMsg server MSG_PRIVMSG]))"

definition startup_bot :: "(nat \<Rightarrow> int) \<Rightarrow> int option \<Rightarrow> bool \<Rightarrow> bool \<Rightarrow> (nat, unit) IBList \<Rightarrow> int
    \<Rightarrow> (int \<times> bot_call list) option" where
  "startup_bot connect_rc startupfunc daemonize started servers rc =
     map_option (\<lambda>(rc, calls).
        let (rc, calls) = (case startupfunc of
              None \<Rightarrow> (rc, calls)
            | Some frc \<Rightarrow> if rc \<noteq> 1 then (frc, calls @ [CallStartupfunc]) else (rc, calls));
            calls = calls @ [LogAsync]
        in if daemonize \<and> rc \<noteq> 1
           then (rc, calls @ (if started then [CallStarted] else []) @ [DaemonLaunched])
           else (rc, calls))
       (foreach IBListIterator_moveNext IBListIterator_current (startup_body connect_rc) (IBList_iterator servers) (rc, []))"

definition shutdown_body :: "nat option \<Rightarrow> bot_call list \<Rightarrow> bot_call list + bot_call list" where
  "shutdown_body cur calls =
     (let server = the cur in Inr (calls @ [RegDisconnected server, ShutdownLock, Disconnect server]))"

definition shutdown_bot :: "bool \<Rightarrow> (nat, unit) IBList \<Rightarrow> bot_call list option" where
  "shutdown_bot has_func servers =
     map_option (\<lambda>calls. calls @ (if has_func then [CallShutdownfunc] else []))
       (foreach IBListIterator_moveNext IBListIterator_current shutdown_body (IBList_iterator servers) [])"

definition shutdownok :: "nat \<Rightarrow> bot_call list" where
  "shutdownok server = [UnregDisconnected server, ShutdownUnlock]"

text \<open>
  The main function of a daemon, or of the program itself: the results of initializing the
  service and the thread pool and of the service's loop are arguments.
\<close>

datatype run_call =
    ServiceInit | SetTickInterval nat | RegStartup | RegShutdown | PoolInit | ServiceRun | PoolDone | ServiceDone
  | DestroyServers | DestroyHandlers

definition daemonrun :: "bool \<Rightarrow> int \<Rightarrow> int \<Rightarrow> int \<Rightarrow> int \<times> run_call list" where
  "daemonrun has_servers service_rc pool_rc run_rc =
     (if \<not> has_servers then (1, [])
      else (let rc = 1; calls = [ServiceInit];
                (rc, calls) = (if service_rc \<ge> 0
                  then (let calls = calls @ [SetTickInterval 1000, RegStartup, RegShutdown, PoolInit];
                            (rc, calls) = (if pool_rc \<ge> 0 then (run_rc, calls @ [ServiceRun, PoolDone]) else (rc, calls))
                        in (rc, calls @ [ServiceDone]))
                  else (rc, calls))
            in (rc, calls @ [DestroyServers, DestroyHandlers])))"

section \<open>Reading an event\<close>

text \<open>What a handler can ask of its event, on the thread it runs on.\<close>

definition IrcBotEvent_type :: "IrcBotEvent \<Rightarrow> IrcBotEventType" where
  "IrcBotEvent_type e = be_type e"

definition IrcBotEvent_server :: "IrcBotEvent \<Rightarrow> nat" where
  "IrcBotEvent_server e = be_server e"

definition IrcBotEvent_origin :: "IrcBotEvent \<Rightarrow> string option" where
  "IrcBotEvent_origin e = be_origin e"

definition IrcBotEvent_command :: "IrcBotEvent \<Rightarrow> string option" where
  "IrcBotEvent_command e = be_command e"

definition IrcBotEvent_from :: "IrcBotEvent \<Rightarrow> string option" where
  "IrcBotEvent_from e = be_from e"

definition IrcBotEvent_arg :: "IrcBotEvent \<Rightarrow> string option" where
  "IrcBotEvent_arg e = be_arg e"

text \<open>The table's \<open>get\<close> does not take a null key.\<close>

definition IrcBotEvent_channel :: "('c, unit) IBHashTable \<Rightarrow> IrcBotEvent \<Rightarrow> 'c option result" where
  "IrcBotEvent_channel channels e =
     (case be_origin e of None \<Rightarrow> Inl NullDeref | Some origin \<Rightarrow> Inr (IBHashTable_get channels origin))"

section \<open>The handler that is chosen\<close>

text \<open>What a handler matches: its type, and each of server, origin and filter it names.\<close>

definition handles :: "IrcBotEventType \<Rightarrow> string option \<Rightarrow> string option \<Rightarrow> string option
    \<Rightarrow> 'h IrcBotEventHandler \<Rightarrow> bool" where
  "handles ty serverId origin filt h \<longleftrightarrow> h_type h = ty \<and> h_serverId h \<in> {None, serverId}
     \<and> h_origin h \<in> {None, origin} \<and> h_filter h \<in> {None, filt}"

definition handler_list :: "'h handlers \<Rightarrow> 'h IrcBotEventHandler list" where
  "handler_list handlers = (case handlers of None \<Rightarrow> [] | Some hs \<Rightarrow> objs hs)"

definition handlers_ok :: "'h handlers \<Rightarrow> bool" where
  "handlers_ok handlers = (case handlers of None \<Rightarrow> True | Some hs \<Rightarrow> IBList_ok hs)"

lemma differs_iff: "differs wanted given \<longleftrightarrow> wanted \<notin> {None, given}"
  by (cases wanted; cases given) (auto simp: differs_def)

lemma find_body_search: "find_body ty s og f cur hdl =
    (if handles ty s og f (the cur) then Inl (Some (the cur)) else Inr hdl)"
  by (auto simp: find_body_def handles_def differs_iff Let_def)

lemma fold_find_body: "fold_break (find_body ty s og f) hs None = find (handles ty s og f) hs"
  by (induction hs) (simp_all add: find_body_search)

lemma findHandler_find:
  "handlers_ok handlers \<Longrightarrow>
    findHandler handlers ty s og f = Some (find (handles ty s og f) (handler_list handlers))"
  by (auto simp: findHandler_def handlers_ok_def handler_list_def foreach_objs fold_find_body split: option.splits)

lemma addHandler_ok:
  assumes "handlers_ok handlers"
  shows "handlers_ok (IrcBot_addHandler ty s og f h handlers)"
    "handler_list (IrcBot_addHandler ty s og f h handlers) = handler_list handlers
       @ [\<lparr>h_handler = h, h_serverId = s, h_origin = og, h_filter = f, h_type = ty\<rparr>]"
  using assms
  by (auto simp: IrcBot_addHandler_def handlers_ok_def handler_list_def Let_def seq.append_ok seq.append_contents
      seq.create_ok seq.create_contents split: option.splits)

text \<open>First the exact origin, then the generic one.\<close>

definition pick :: "'h IrcBotEventHandler list \<Rightarrow> IrcBotEventType \<Rightarrow> string \<Rightarrow> string \<Rightarrow> bool \<Rightarrow> string option
    \<Rightarrow> 'h IrcBotEventHandler option" where
  "pick hs ty serverId origin channel filt =
     (case find (handles ty (Some serverId) (Some origin) filt) hs of
        Some h \<Rightarrow> Some h
      | None \<Rightarrow> find (handles ty (Some serverId) (Some (if channel then ORIGIN_CHANNEL else ORIGIN_PRIVATE)) filt) hs)"

lemma find_generic_pick:
  "handlers_ok handlers \<Longrightarrow>
    Option.bind (findHandler handlers ty (Some s) (Some og) f) (find_generic handlers ty s channel f)
      = Some (pick (handler_list handlers) ty s og channel f)"
  by (auto simp: findHandler_find find_generic_def pick_def split: option.splits)

text \<open>How the text of a message is read as a command: its name and its argument.\<close>

definition command_of :: "bool \<Rightarrow> string \<Rightarrow> (string \<times> string option) option" where
  "command_of channel text =
     (if text \<noteq> [] \<and> hd text = CHR ''!'' \<or> \<not> channel
      then (let t = (if text \<noteq> [] \<and> hd text = CHR ''!'' then tl text else text);
                name = takeWhile (\<lambda>c. c \<notin> {CHR '' '', CHR 0x09, CR, LF}) t;
                arg = drop (Suc (length name)) t
            in if name = [] \<or> length name \<ge> 64 then None else Some (name, if arg = [] then None else Some arg))
      else None)"


lemma char_at_end: "is_cstr s \<Longrightarrow> char_at s n \<noteq> NUL \<longleftrightarrow> n < length s"
  by (auto simp: char_at_def is_cstr_def in_set_conv_nth)

lemma char_at_0: "is_cstr s \<Longrightarrow> char_at s 0 = CHR ''!'' \<longleftrightarrow> s \<noteq> [] \<and> hd s = CHR ''!''"
  by (cases s) (simp_all add: char_at_def)

lemma command_job_pick:
  assumes "handlers_ok handlers" "is_cstr text"
  shows "command_job handlers server serverId channel from to text = Some
    (case command_of channel text of
       None \<Rightarrow> None
     | Some (name, arg) \<Rightarrow>
         map_option (\<lambda>hdl. executeHandler hdl (createBotEvent IBET_BOTCOMMAND server (Some to) (Some name) from arg))
           (pick (handler_list handlers) IBET_BOTCOMMAND serverId to channel (Some name)))"
proof -
  let ?bang = "text \<noteq> [] \<and> hd text = CHR ''!''"
  define t where "t = (if ?bang then tl text else text)"
  let ?name = "takeWhile (\<lambda>c. c \<notin> {CHR '' '', CHR 0x09, CR, LF}) t"
  have t: "(if char_at text 0 = CHR ''!'' then drop 1 text else text) = t" "is_cstr t"
    using assms(2) is_cstr_drop [OF assms(2), of 1] by (auto simp: t_def char_at_0 drop_Suc)
  have set: "set [CHR '' '', CHR 0x09, CR, LF] = {CHR '' '', CHR 0x09, CR, LF}" by auto
  have len: "strcspn t [CHR '' '', CHR 0x09, CR, LF] = length ?name"
    unfolding strcspn_def set ..
  have name: "take (length ?name) t = ?name"
    by (metis takeWhile_eq_take)
  have arg: "(if char_at t (length ?name) \<noteq> NUL \<and> char_at t (length ?name + 1) \<noteq> NUL
        then Some (drop (length ?name + 1) t) else None)
      = (if drop (Suc (length ?name)) t = [] then None else Some (drop (Suc (length ?name)) t))"
    using t(2) by (auto simp: char_at_end)
  let ?arg = "if drop (Suc (length ?name)) t = [] then None else Some (drop (Suc (length ?name)) t)"
  let ?job = "\<lambda>hdl. executeHandler hdl (createBotEvent IBET_BOTCOMMAND server (Some to) (Some ?name) from ?arg)"
  let ?pick = "pick (handler_list handlers) IBET_BOTCOMMAND serverId to channel (Some ?name)"
  have "command_job handlers server serverId channel from to text =
    (if ?bang \<or> \<not> channel
     then if length ?name \<noteq> 0 \<and> length ?name < 64
          then Option.bind (findHandler handlers IBET_BOTCOMMAND (Some serverId) (Some to) (Some ?name)) (\<lambda>hdl.
               Option.bind (find_generic handlers IBET_BOTCOMMAND serverId channel (Some ?name) hdl) (\<lambda>hdl.
                 Some (map_option ?job hdl)))
          else Some None
     else Some None)"
    unfolding command_job_def Let_def t(1) len name arg unfolding char_at_0 [OF assms(2)] ..
  also have "\<dots> = (if ?bang \<or> \<not> channel
     then if length ?name \<noteq> 0 \<and> length ?name < 64 then Some (map_option ?job ?pick) else Some None
     else Some None)"
    unfolding Option.bind_assoc [symmetric] find_generic_pick [OF assms(1)] by simp
  also have "\<dots> = Some (case command_of channel text of None \<Rightarrow> None
     | Some (name, arg) \<Rightarrow>
         map_option (\<lambda>hdl. executeHandler hdl (createBotEvent IBET_BOTCOMMAND server (Some to) (Some name) from arg))
           (pick (handler_list handlers) IBET_BOTCOMMAND serverId to channel (Some name)))"
    unfolding command_of_def t_def [symmetric] Let_def by auto
  finally show ?thesis .
qed

text \<open>C22: the bot's dispatch. A message with a target and a text is looked up first as a
  command, when it starts with an exclamation mark or was sent privately: its first word
  names the command and the rest is its argument. The handler is the first registered one
  for that command and exactly this target, else the first one for any channel or any
  private message. When there is none, the message is looked up in the same two steps as a
  plain message. The loops always end, at most one handler runs, and its event carries the
  target, the sender's nick, and the command with its argument or the whole text.\<close>

theorem msgReceived_dispatch:
  assumes "handlers_ok handlers" "IBList_ok (m_params msg)" "list_all is_cstr (objs (m_params msg))"
  shows "msgReceived handlers server serverId channels msg = Some
    (case objs (m_params msg) of
       [to, text] \<Rightarrow>
         (let channel = (IBHashTable_get channels to \<noteq> None);
              command = (case command_of channel text of
                 None \<Rightarrow> None
               | Some (name, arg) \<Rightarrow>
                   map_option (\<lambda>hdl. executeHandler hdl
                       (createBotEvent IBET_BOTCOMMAND server (Some to) (Some name) (m_prefix msg) arg))
                     (pick (handler_list handlers) IBET_BOTCOMMAND serverId to channel (Some name)))
          in if command \<noteq> None then command
             else map_option (\<lambda>hdl. executeHandler hdl
                    (createBotEvent IBET_PRIVMSG server (Some to) None (m_prefix msg) (Some text)))
                  (pick (handler_list handlers) IBET_PRIVMSG serverId to channel None))
     | _ \<Rightarrow> None)"
proof (cases "length (objs (m_params msg)) = 2")
  case False
  then have "msgReceived handlers server serverId channels msg = Some None"
    by (simp add: msgReceived_def IBList_size_objs [OF assms(2)])
  moreover have "\<And>to text. objs (m_params msg) \<noteq> [to, text]" using False by auto
  ultimately show ?thesis by (simp split: list.split)
next
  case True
  then obtain to said where p: "objs (m_params msg) = [to, said]"
    by (auto simp: length_Suc_conv numeral_2_eq_2)
  then have said: "is_cstr said" using assms(3) by simp
  have at: "IBList_at (m_params msg) 0 = Some to" "IBList_at (m_params msg) 1 = Some said"
    by (simp_all add: IBList_at_objs [OF assms(2)] p)
  let ?channel = "IBHashTable_get channels to \<noteq> None"
  let ?job = "\<lambda>hdl. executeHandler hdl (createBotEvent IBET_PRIVMSG server (Some to) None (m_prefix msg) (Some said))"
  have plain: "Option.bind (findHandler handlers IBET_PRIVMSG (Some serverId) (Some to) None) (\<lambda>hdl.
      Option.bind (find_generic handlers IBET_PRIVMSG serverId ?channel None hdl) (\<lambda>hdl. Some (map_option ?job hdl)))
    = Some (map_option ?job (pick (handler_list handlers) IBET_PRIVMSG serverId to ?channel None))"
    unfolding Option.bind_assoc [symmetric] find_generic_pick [OF assms(1)] by simp
  show ?thesis
    unfolding msgReceived_def Let_def IBList_size_objs [OF assms(2)] p at option.sel plain
      command_job_pick [OF assms(1) said]
    by simp
qed


section \<open>The lines of a response\<close>

fun msg_op :: "IrcBotResponseMessage \<Rightarrow> send_op" where
  "msg_op m = OpMsg (rm_to m) (rm_msg m) (rm_action m)"

lemma fold_respond: "fold_break respond_body ms (Inr s) = send_run conn (map msg_op ms) s"
proof -
  have err: "fold_break respond_body ms (Inl e) = Inl e" for ms e
    by (induction ms) (simp_all add: respond_body_def)
  show ?thesis
  proof (induction ms arbitrary: s)
    case (Cons m ms)
    have step: "respond_body (Some m) (Inr s) = Inr (send_step conn (msg_op m) s)"
      by (simp add: respond_body_def)
    show ?case
      by (cases "send_step conn (msg_op m) s") (simp_all add: step err Cons.IH del: msg_op.simps)
  qed simp
qed

lemma respond_run:
  "send_ok conn s \<Longrightarrow> length (pending s) + length (concat (map (\<lambda>m. op_lines (msg_op m) s) ms)) \<le> QUEUEINITIALCAPA \<Longrightarrow>
    \<exists>s'. send_run conn (map msg_op ms) s = Inr s' \<and> handed_in conn s (concat (map (\<lambda>m. op_lines (msg_op m) s) ms)) s'"
proof (induction ms arbitrary: s)
  case Nil
  then show ?case by (simp add: handed_in_def)
next
  case (Cons m ms)
  obtain t where t: "send_step conn (msg_op m) s = Inr t" "handed_in conn s (op_lines (msg_op m) s) t" "send_same s t"
    using OpMsg_handed [OF Cons.prems(1), of "rm_to m" "rm_msg m" "rm_action m"] Cons.prems(2) by auto
  have same: "op_lines (msg_op x) t = op_lines (msg_op x) s" for x using t(3) by (simp add: send_same_def)
  have "send_ok conn t" "length (pending t) \<le> length (pending s) + length (op_lines (msg_op m) s)"
    using t(2) by (simp_all add: handed_in_def)
  moreover from this Cons.prems(2)
  have "length (pending t) + length (concat (map (\<lambda>m. op_lines (msg_op m) t) ms)) \<le> QUEUEINITIALCAPA"
    unfolding same by (simp del: msg_op.simps op_lines.simps)
  ultimately obtain s' where
    "send_run conn (map msg_op ms) t = Inr s'" "handed_in conn t (concat (map (\<lambda>m. op_lines (msg_op m) s) ms)) s'"
    using Cons.IH [of t] unfolding same by blast
  with t show ?case by (auto simp: handed_in_def simp del: msg_op.simps op_lines.simps)
qed

text \<open>A handler's response goes out whole and in order. When a job has completed, the
  loop over its messages ends, and with room for them in the send queue exactly the lines
  of all its messages, cut as \<open>IrcServer_sendMsg\<close> cuts them, are handed to the server behind
  everything handed in before; a job that timed out sends nothing.\<close>

theorem response_sent:
  assumes "IBList_ok (be_messages e)" "send_ok conn s"
    and "length (pending s) + length (concat (map (\<lambda>m. op_lines (msg_op m) s) (objs (be_messages e)))) \<le> 8"
  shows "\<exists>s'. handlerJobFinished True e s = Some (Inr s') \<and>
      written s' @ pending s' = written s @ pending s @ concat (map (\<lambda>m. op_lines (msg_op m) s) (objs (be_messages e)))
    \<and> handlerJobFinished False e s = Some (Inr s)"
  using respond_run [OF assms(2,3)]
  by (auto simp: handlerJobFinished_def foreach_objs [OF assms(1)] fold_respond [of _ s conn] handed_in_def)

section \<open>Starting\<close>

definition startup_calls :: "(nat \<Rightarrow> int) \<Rightarrow> nat list \<Rightarrow> bot_call list" where
  "startup_calls connect_rc servers =
     concat (map (\<lambda>s. [Connect s, RegConnected s, RegJoined s, RegMsg s MSG_PRIVMSG])
       (takeWhile (\<lambda>s. connect_rc s \<ge> 0) servers))
     @ (case find (\<lambda>s. connect_rc s < 0) servers of None \<Rightarrow> [] | Some s \<Rightarrow> [Connect s])"

lemma fold_startup:
  "fold_break (startup_body connect_rc) servers (rc, calls) =
    (if find (\<lambda>s. connect_rc s < 0) servers = None then rc else 1, calls @ startup_calls connect_rc servers)"
  by (induction servers arbitrary: calls) (auto simp: startup_body_def startup_calls_def Let_def)

text \<open>The end of the startup: only a daemon that is to run reports that it is launched.\<close>

definition startup_end :: "int \<Rightarrow> bool \<Rightarrow> bool \<Rightarrow> bot_call list" where
  "startup_end rc daemonize started =
     LogAsync # (if daemonize \<and> rc \<noteq> 1 then (if started then [CallStarted, DaemonLaunched] else [DaemonLaunched]) else [])"

text \<open>Starting connects the servers in the order they were added, registers for the
  events of each one connected, and stops at the first that fails; the program's own
  startup function is called exactly when none failed, and decides the result then. A daemon
  is reported as launched exactly when this result is not failure. A shutdown asks every server
  to disconnect and takes one lock for each, so that as many confirmations release the last
  one.\<close>

theorem startup_in_order:
  assumes "IBList_ok servers"
  shows "startup_bot connect_rc startupfunc daemonize started servers 0 =
      Some (if \<exists>s\<in>set (objs servers). connect_rc s < 0
            then (1, startup_calls connect_rc (objs servers) @ startup_end 1 daemonize started)
            else (let rc = (case startupfunc of None \<Rightarrow> 0 | Some frc \<Rightarrow> frc) in
                  (rc, startup_calls connect_rc (objs servers) @ (if startupfunc = None then [] else [CallStartupfunc])
                       @ startup_end rc daemonize started)))
    \<and> shutdown_bot False servers =
      Some (concat (map (\<lambda>s. [RegDisconnected s, ShutdownLock, Disconnect s]) (objs servers)))"
proof
  have none: "find (\<lambda>s. connect_rc s < 0) (objs servers) = None \<longleftrightarrow> \<not> (\<exists>s\<in>set (objs servers). connect_rc s < 0)"
    by (auto simp: find_None_iff)
  show "startup_bot connect_rc startupfunc daemonize started servers 0 =
      Some (if \<exists>s\<in>set (objs servers). connect_rc s < 0
            then (1, startup_calls connect_rc (objs servers) @ startup_end 1 daemonize started)
            else (let rc = (case startupfunc of None \<Rightarrow> 0 | Some frc \<Rightarrow> frc) in
                  (rc, startup_calls connect_rc (objs servers) @ (if startupfunc = None then [] else [CallStartupfunc])
                       @ startup_end rc daemonize started)))"
    unfolding startup_bot_def foreach_objs [OF assms] fold_startup none
    by (auto simp: startup_end_def Let_def split: option.split)
  have "fold_break shutdown_body ss calls = calls @ concat (map (\<lambda>s. [RegDisconnected s, ShutdownLock, Disconnect s]) ss)" for ss calls
    by (induction ss arbitrary: calls) (simp_all add: shutdown_body_def Let_def)
  then show "shutdown_bot False servers =
      Some (concat (map (\<lambda>s. [RegDisconnected s, ShutdownLock, Disconnect s]) (objs servers)))"
    by (simp add: shutdown_bot_def foreach_objs [OF assms])
qed


text \<open>A handler for users joining any channel never runs. The header lets a handler name
  \<open>ORIGIN_CHANNEL\<close> for any channel, but joins and parts are looked up with the channel's own
  name only, and no channel a server reports is named by the single character.\<close>

theorem any_channel_join_ignored:
  assumes "handlers_ok handlers" "list_all (\<lambda>h. h_type h \<in> {IBET_JOINED, IBET_PARTED} \<longrightarrow> h_origin h = Some ORIGIN_CHANNEL) (handler_list handlers)"
    and "channel \<noteq> ORIGIN_CHANNEL"
  shows "userJoined handlers server serverId channel nick = Some None \<and> userParted handlers server serverId channel nick = Some None"
proof -
  have "find (handles ty (Some serverId) (Some channel) (Some nick)) (handler_list handlers) = None"
    if "ty \<in> {IBET_JOINED, IBET_PARTED}" for ty
    using assms(2,3) that by (fastforce simp: find_None_iff handles_def list_all_iff)
  then show ?thesis by (simp add: userJoined_def userParted_def findHandler_find [OF assms(1)])
qed

text \<open>Asking the event of a new connection for its channel passes a null key to the table of
  channels, although the header promises \<open>NULL\<close> when there is no channel. The events of
  channels and messages always have a key to look up.\<close>

theorem connected_event_channel:
  assumes "handlers_ok handlers"
  shows "(connected_bot handlers server serverId = Some (Some job) \<longrightarrow> IrcBotEvent_channel channels (hj_e job) = Inl NullDeref)
    \<and> (userJoined handlers server serverId channel nick = Some (Some job) \<longrightarrow>
       IrcBotEvent_channel channels (hj_e job) = Inr (IBHashTable_get channels channel))"
  by (auto simp: connected_bot_def userJoined_def findHandler_find [OF assms] executeHandler_def createBotEvent_def
      IrcBotEvent_channel_def)

section \<open>Witnesses\<close>

text \<open>Three handlers: a command on one channel, any private message, users joining any channel.\<close>

definition demo_handlers :: "nat handlers" where
  "demo_handlers = IrcBot_addHandler IBET_JOINED None (Some ORIGIN_CHANNEL) None 3
     (IrcBot_addHandler IBET_PRIVMSG None (Some ORIGIN_PRIVATE) None 2
       (IrcBot_addHandler IBET_BOTCOMMAND (Some ''net'') (Some ''#c'') (Some ''say'') 1 None))"

lemma demo_handlers_list:
  "handlers_ok demo_handlers"
  "handler_list demo_handlers =
     [\<lparr>h_handler = 1, h_serverId = Some ''net'', h_origin = Some ''#c'', h_filter = Some ''say'', h_type = IBET_BOTCOMMAND\<rparr>,
      \<lparr>h_handler = 2, h_serverId = None, h_origin = Some ORIGIN_PRIVATE, h_filter = None, h_type = IBET_PRIVMSG\<rparr>,
      \<lparr>h_handler = 3, h_serverId = None, h_origin = Some ORIGIN_CHANNEL, h_filter = None, h_type = IBET_JOINED\<rparr>]"
proof -
  have n: "handlers_ok (None :: nat handlers)" "handler_list (None :: nat handlers) = []"
    by (simp_all add: handlers_ok_def handler_list_def)
  note a1 = addHandler_ok [OF n(1), of IBET_BOTCOMMAND "Some ''net''" "Some ''#c''" "Some ''say''" 1]
  note a2 = addHandler_ok [OF a1(1), of IBET_PRIVMSG None "Some ORIGIN_PRIVATE" None 2]
  note a3 = addHandler_ok [OF a2(1), of IBET_JOINED None "Some ORIGIN_CHANNEL" None 3]
  show "handlers_ok demo_handlers" unfolding demo_handlers_def by (rule a3(1))
  show "handler_list demo_handlers =
     [\<lparr>h_handler = 1, h_serverId = Some ''net'', h_origin = Some ''#c'', h_filter = Some ''say'', h_type = IBET_BOTCOMMAND\<rparr>,
      \<lparr>h_handler = 2, h_serverId = None, h_origin = Some ORIGIN_PRIVATE, h_filter = None, h_type = IBET_PRIVMSG\<rparr>,
      \<lparr>h_handler = 3, h_serverId = None, h_origin = Some ORIGIN_CHANNEL, h_filter = None, h_type = IBET_JOINED\<rparr>]"
    unfolding demo_handlers_def a3(2) a2(2) a1(2) n(2) by simp
qed

definition demo_channels :: "(nat, unit) IBHashTable" where
  "demo_channels = snd (IBHashTable_set (IBHashTable_create 6) ''#c'' 0 (Some ()))"

definition demo_message :: "unit IrcMessage" where
  "demo_message = \<lparr>m_prefix = Some ''joe!j@h'', m_rawCmd = ''PRIVMSG'', m_rawParams = Some ''#c :!say hi there'',
     m_params = foldl (\<lambda>l x. IBList_append l x (Some ())) IBList_create [''#c'', ''!say hi there''], m_command = MSG_PRIVMSG\<rparr>"

theorem msgReceived_dispatch_witness:
  "\<exists>job. msgReceived demo_handlers 0 ''net'' demo_channels demo_message = Some (Some job)
     \<and> h_handler (hj_hdl job) = 1 \<and> be_from (hj_e job) = Some ''joe'' \<and> be_arg (hj_e job) = Some ''hi there''"
proof -
  have p: "IBList_ok (m_params demo_message)" "objs (m_params demo_message) = [''#c'', ''!say hi there'']"
    using seq.build [of "Some ()" "[''#c'', ''!say hi there'']"] by (simp_all add: demo_message_def)
  have e: "IBHashTable_ok (IBHashTable_create 6 :: (nat, unit) IBHashTable)" by (rule ht.create_ok) simp
  have c: "IBHashTable_get demo_channels ''#c'' = Some 0"
    using ht.put_get [OF e, of "''#c''" 0 "Some ()"] by (simp add: demo_channels_def)
  have cmd: "command_of True ''!say hi there'' = Some (''say'', Some ''hi there'')" by code_simp
  have s: "strcspn ''joe!j@h'' ''!'' = 3" by code_simp
  have "list_all is_cstr (objs (m_params demo_message))" by (simp add: p is_cstr_def)
  from msgReceived_dispatch [OF demo_handlers_list(1) p(1) this, of 0 "''net''" demo_channels]
  show ?thesis
    by (simp add: p c cmd demo_handlers_list(2) pick_def handles_def executeHandler_def createBotEvent_def)
      (simp add: demo_message_def s)
qed

theorem any_channel_join_ignored_witness:
  "userJoined demo_handlers 0 ''net'' ''#c'' ''joe'' = Some None"
  using any_channel_join_ignored [OF demo_handlers_list(1), of "''#c''" 0 "''net''" "''joe''"]
  by (simp add: demo_handlers_list(2))

definition demo_event :: IrcBotEvent where
  "demo_event = IrcBotResponse_addMsg ''joe'' ''hello'' False
     (IrcBotResponse_addMsg ''#c'' ''waves'' True (createBotEvent IBET_CONNECTED 0 None None None None))"

theorem response_sent_witness:
  "\<exists>s'. handlerJobFinished True demo_event ready_server = Some (Inr s') \<and>
     written s' @ pending s' = [''a'', ''b'', ''c'', ''PRIVMSG #c :'' @ [CTCP] @ ''ACTION waves'' @ [CTCP] @ CRLF,
       ''PRIVMSG joe :hello'' @ CRLF]"
proof -
  let ?ms = "[\<lparr>rm_to = ''#c'', rm_msg = ''waves'', rm_action = True\<rparr>, \<lparr>rm_to = ''joe'', rm_msg = ''hello'', rm_action = False\<rparr>]"
  have e: "be_messages demo_event = foldl (\<lambda>l x. IBList_append l x (Some ())) IBList_create ?ms"
    by (simp add: demo_event_def IrcBotResponse_addMsg_def createBotEvent_def)
  have ok: "IBList_ok (be_messages demo_event)" "objs (be_messages demo_event) = ?ms"
    unfolding e by (rule seq.build)+
  have st: "s_connst ready_server = 1" by (simp add: ready_server_def)
  have one: "chunk_lines pre suf k m = Some [pre @ m @ suf]" if "m \<noteq> []" "length m \<le> k" for pre suf k m
    using that by (simp add: chunk_lines.simps [of pre suf k m] chunk_lines.simps [of pre suf k "[]"] Let_def)
  have lines: "concat (map (\<lambda>m. op_lines (msg_op m) ready_server) ?ms)
      = [''PRIVMSG #c :'' @ [CTCP] @ ''ACTION waves'' @ [CTCP] @ CRLF, ''PRIVMSG joe :hello'' @ CRLF]"
    by (simp add: st one msg_prefix_def msg_suffix_def)
  have "length (pending ready_server) + length (concat (map (\<lambda>m. op_lines (msg_op m) ready_server) (objs (be_messages demo_event)))) \<le> 8"
    unfolding ok(2) lines by (simp add: ready_server_ok)
  from response_sent [OF ok(1) ready_server_ok(1) this]
  show ?thesis unfolding ok(2) lines ready_server_ok by auto
qed

theorem startup_in_order_witness:
  "startup_bot (\<lambda>s. if s = 2 then -1 else 0) (Some 0) True True (foldl (\<lambda>l x. IBList_append l x (Some ())) IBList_create [1, 2, 3]) 0
     = Some (1, [Connect 1, RegConnected 1, RegJoined 1, RegMsg 1 MSG_PRIVMSG, Connect 2, LogAsync])"
proof -
  let ?l = "foldl (\<lambda>l x. IBList_append l x (Some ())) IBList_create [1, 2, 3 :: nat]"
  have ok: "IBList_ok ?l" "objs ?l = [1, 2, 3]" by (rule seq.build)+
  from startup_in_order [OF ok(1), of "\<lambda>s. if s = 2 then -1 else 0" "Some 0" True True] show ?thesis
    unfolding ok(2) by (simp add: startup_calls_def startup_end_def del: foldl.simps)
qed

theorem connected_event_channel_witness:
  "\<exists>job. connected_bot (IrcBot_addHandler IBET_CONNECTED None None None (2 :: nat) None) 0 ''net'' = Some (Some job)
     \<and> IrcBotEvent_channel demo_channels (hj_e job) = Inl NullDeref"
proof -
  have n: "handlers_ok (None :: nat handlers)" "handler_list (None :: nat handlers) = []"
    by (simp_all add: handlers_ok_def handler_list_def)
  let ?hs = "IrcBot_addHandler IBET_CONNECTED None None None (2 :: nat) None"
  note a = addHandler_ok [OF n(1), of IBET_CONNECTED None None None 2]
  obtain job where job: "connected_bot ?hs 0 ''net'' = Some (Some job)"
    by (auto simp: connected_bot_def findHandler_find [OF a(1)] a(2) n(2) handles_def)
  with connected_event_channel [OF a(1)] show ?thesis by blast
qed

end
