(* ===== verification/ThreadPool.thy ===== *)
theory ThreadPool
  imports ObjQueue "HOL-Library.Multiset"
begin

text \<open>
  \<open>src/lib/ircbot/threadpool.c\<close> as the main thread sees it: the size of the pool, the ring of
  waiting jobs, which thread has which job, and the handling of jobs that end, time out or
  are cancelled. A job is named by a number; the worker threads and the kernel are the order
  in which these operations happen. A job's procedure is not modelled, and neither is the
  locking: each operation here runs under its lock.
\<close>

section \<open>The size of the pool\<close>

record IBThreadOpts =
  nThreads :: int
  maxThreads :: int
  nPerCpu :: int
  defNThreads :: int
  queueLen :: int
  maxQueueLen :: int
  minQueueLen :: int
  qLenPerThread :: int

definition threadOpts :: IBThreadOpts where
  "threadOpts = \<lparr>nThreads = 0, maxThreads = 128, nPerCpu = 2, defNThreads = 8, queueLen = 0,
     maxQueueLen = 1024, minQueueLen = 64, qLenPerThread = 2\<rparr>"

text \<open>C's integer division rounds to zero; a divisor 0 is a fault.\<close>

definition c_div :: "int \<Rightarrow> int \<Rightarrow> int result" where
  "c_div a b = (if b = 0 then Inl DivideByZero else Inr (sgn a * sgn b * (\<bar>a\<bar> div \<bar>b\<bar>)))"

text \<open>\<open>ncpu\<close> is what \<open>sysconf\<close> says.\<close>

definition num_threads :: "IBThreadOpts \<Rightarrow> int \<Rightarrow> int result" where
  "num_threads opts ncpu =
     (if nThreads opts \<noteq> 0 then Inr (nThreads opts)
      else if ncpu \<ge> 1
      then bind_result (c_div (maxThreads opts) (nPerCpu opts)) (\<lambda>q.
             Inr (if ncpu \<le> q then nPerCpu opts * ncpu else maxThreads opts))
      else Inr (defNThreads opts))"

definition queue_size :: "IBThreadOpts \<Rightarrow> int \<Rightarrow> int result" where
  "queue_size opts nthreads =
     (if queueLen opts \<noteq> 0 then Inr (queueLen opts)
      else bind_result (c_div (maxQueueLen opts) (qLenPerThread opts)) (\<lambda>q.
             Inr (if nthreads \<le> q
                  then (let queuesize = qLenPerThread opts * nthreads
                        in if queuesize < minQueueLen opts then minQueueLen opts else queuesize)
                  else maxQueueLen opts)))"

definition opts_legal :: "IBThreadOpts \<Rightarrow> bool" where
  "opts_legal opts \<longleftrightarrow> 0 \<le> nThreads opts \<and> 1 \<le> maxThreads opts \<and> 1 \<le> nPerCpu opts \<and> 1 \<le> defNThreads opts
     \<and> 0 \<le> queueLen opts \<and> 1 \<le> minQueueLen opts \<and> minQueueLen opts \<le> maxQueueLen opts \<and> 1 \<le> qLenPerThread opts"

lemma c_div_pos: "0 \<le> a \<Longrightarrow> 1 \<le> b \<Longrightarrow> c_div a b = Inr (a div b)"
  by (cases "a = 0") (simp_all add: c_div_def)

lemma le_div_mult:
  fixes n a b :: int
  assumes "n \<le> a div b" "1 \<le> b" "0 \<le> a"
  shows "b * n \<le> a"
proof -
  have "b * n \<le> b * (a div b)" using assms(1,2) by (simp add: mult_left_mono)
  also have "\<dots> = a - a mod b" by (simp add: minus_mod_eq_mult_div)
  also have "\<dots> \<le> a" using assms(2) by simp
  finally show ?thesis .
qed

lemma num_threads_legal:
  assumes "opts_legal opts"
  shows "\<exists>n. num_threads opts ncpu = Inr n \<and> 1 \<le> n \<and> (nThreads opts = 0 \<and> ncpu \<ge> 1 \<longrightarrow> n \<le> maxThreads opts)"
proof (cases "nThreads opts \<noteq> 0 \<or> \<not> ncpu \<ge> 1")
  case True
  with assms show ?thesis by (auto simp: num_threads_def opts_legal_def)
next
  case False
  have l: "1 \<le> maxThreads opts" "1 \<le> nPerCpu opts" using assms by (simp_all add: opts_legal_def)
  let ?n = "if ncpu \<le> maxThreads opts div nPerCpu opts then nPerCpu opts * ncpu else maxThreads opts"
  have "num_threads opts ncpu = Inr ?n" using False l by (simp add: num_threads_def c_div_pos)
  moreover have "1 \<le> nPerCpu opts * ncpu" using mult_mono [of 1 "nPerCpu opts" 1 ncpu] False l by simp
  moreover have "nPerCpu opts * ncpu \<le> maxThreads opts" if "ncpu \<le> maxThreads opts div nPerCpu opts"
    using le_div_mult [OF that] l by simp
  ultimately show ?thesis using l(1) by (intro exI [of _ ?n]) auto
qed

lemma queue_size_legal:
  assumes "opts_legal opts"
  shows "\<exists>q. queue_size opts n = Inr q \<and> 1 \<le> q \<and> (queueLen opts = 0 \<longrightarrow> minQueueLen opts \<le> q \<and> q \<le> maxQueueLen opts)"
proof (cases "queueLen opts = 0")
  case False
  with assms show ?thesis by (auto simp: queue_size_def opts_legal_def)
next
  case True
  have l: "1 \<le> minQueueLen opts" "minQueueLen opts \<le> maxQueueLen opts" "1 \<le> qLenPerThread opts"
    using assms by (simp_all add: opts_legal_def)
  let ?q = "if n \<le> maxQueueLen opts div qLenPerThread opts
    then max (minQueueLen opts) (qLenPerThread opts * n) else maxQueueLen opts"
  have "queue_size opts n = Inr ?q" using True l by (simp add: queue_size_def c_div_pos Let_def max_def)
  moreover have "qLenPerThread opts * n \<le> maxQueueLen opts" if "n \<le> maxQueueLen opts div qLenPerThread opts"
    using le_div_mult [OF that] l by simp
  ultimately show ?thesis using l by (intro exI [of _ ?q]) auto
qed

text \<open>With any sensible options, the pool has at least one thread and room for at least one
  job; no division by zero happens; a number of threads taken from the number of CPUs stays
  within its maximum, and a computed queue length between its minimum and maximum.\<close>

theorem pool_size:
  assumes "opts_legal opts"
  shows "\<exists>n q. num_threads opts ncpu = Inr n \<and> queue_size opts n = Inr q \<and> 1 \<le> n \<and> 1 \<le> q
    \<and> (nThreads opts = 0 \<and> ncpu \<ge> 1 \<longrightarrow> n \<le> maxThreads opts)
    \<and> (queueLen opts = 0 \<longrightarrow> minQueueLen opts \<le> q \<and> q \<le> maxQueueLen opts)"
  using num_threads_legal [OF assms] queue_size_legal [OF assms] by blast

theorem pool_size_witness: "\<exists>n q. num_threads threadOpts 6 = Inr n \<and> queue_size threadOpts n = Inr q \<and> n \<le> 128 \<and> 64 \<le> q"
  using pool_size [of threadOpts 6] by (auto simp: opts_legal_def) (auto simp: threadOpts_def)

section \<open>The ring of waiting jobs\<close>

type_synonym job = nat

record job_queue =
  jobQueue :: "job option list"
  queuesize :: nat
  queueAvail :: nat
  nextIdx :: nat
  lastIdx :: nat

definition queue_init :: "nat \<Rightarrow> job_queue" where
  "queue_init sz = \<lparr>jobQueue = replicate sz None, queuesize = sz, queueAvail = sz, nextIdx = 0, lastIdx = 0\<rparr>"

definition enqueueJob :: "job \<Rightarrow> job_queue \<Rightarrow> int \<times> job_queue" where
  "enqueueJob j self =
     (if queueAvail self = 0 then (-1, self)
      else let nxt = nextIdx self + 1 in
           (0, self\<lparr>jobQueue := (jobQueue self)[nextIdx self := Some j], queueAvail := queueAvail self - 1,
                   nextIdx := (if nxt = queuesize self then 0 else nxt)\<rparr>))"

text \<open>The loop skips the places of cancelled jobs.\<close>

partial_function (option) dequeueJob :: "job_queue \<Rightarrow> (job option \<times> job_queue) option" where
  "dequeueJob self =
     (if queueAvail self = queuesize self then Some (None, self)
      else (let job = jobQueue self ! lastIdx self;
                nxt = lastIdx self + 1;
                self = self\<lparr>jobQueue := (jobQueue self)[lastIdx self := None], queueAvail := queueAvail self + 1,
                            lastIdx := (if nxt = queuesize self then 0 else nxt)\<rparr>
            in if job = None then dequeueJob self else Some (job, self)))"

text \<open>The cells in use, from the oldest on.\<close>

definition job_cell :: "job_queue \<Rightarrow> nat \<Rightarrow> job option" where
  "job_cell q i = jobQueue q ! ((lastIdx q + i) mod queuesize q)"

definition job_cells :: "job_queue \<Rightarrow> job option list" where
  "job_cells q = map (job_cell q) [0..<queuesize q - queueAvail q]"

definition waiting :: "job_queue \<Rightarrow> job list" where
  "waiting q = map the (filter (\<lambda>c. c \<noteq> None) (job_cells q))"

definition queue_ok :: "job_queue \<Rightarrow> bool" where
  "queue_ok q \<longleftrightarrow> 0 < queuesize q \<and> length (jobQueue q) = queuesize q \<and> queueAvail q \<le> queuesize q
     \<and> lastIdx q < queuesize q \<and> nextIdx q = (lastIdx q + (queuesize q - queueAvail q)) mod queuesize q"

lemma queue_init_ok: "0 < sz \<Longrightarrow> queue_ok (queue_init sz)" "job_cells (queue_init sz) = []"
  by (simp_all add: queue_ok_def queue_init_def job_cells_def)

lemma enqueueJob_full: "queueAvail q = 0 \<Longrightarrow> enqueueJob j q = (-1, q)"
  by (simp add: enqueueJob_def)

lemma enqueueJob_cells:
  assumes "queue_ok q" "queueAvail q \<noteq> 0"
  shows "\<exists>q'. enqueueJob j q = (0, q') \<and> queue_ok q' \<and> job_cells q' = job_cells q @ [Some j]
    \<and> queuesize q' = queuesize q \<and> queueAvail q' = queueAvail q - 1"
proof -
  let ?n = "queuesize q" and ?m = "queuesize q - queueAvail q" and ?nxt = "nextIdx q"
  define q' where "q' = snd (enqueueJob j q)"
  have n: "?nxt < ?n" "?nxt = (lastIdx q + ?m) mod ?n" using assms(1) by (auto simp: queue_ok_def)
  have m: "queuesize q - (queueAvail q - 1) = Suc ?m" "?m < ?n" using assms by (auto simp: queue_ok_def)
  have "(?nxt + 1) mod ?n = (lastIdx q + Suc ?m) mod ?n" unfolding n(2) by (simp add: mod_Suc_eq)
  then have nxt: "(if ?nxt + 1 = ?n then 0 else ?nxt + 1) = (lastIdx q + Suc ?m) mod ?n"
    unfolding wrap_succ [OF n(1)] .
  have q': "enqueueJob j q = (0, q')" "queuesize q' = ?n" "queueAvail q' = queueAvail q - 1" "lastIdx q' = lastIdx q"
      "jobQueue q' = (jobQueue q)[?nxt := Some j]" "nextIdx q' = (if ?nxt + 1 = ?n then 0 else ?nxt + 1)"
    using assms(2) by (simp_all add: q'_def enqueueJob_def Let_def)
  have "queue_ok q'" using assms nxt m(1) by (auto simp: queue_ok_def q')
  have other: "(lastIdx q + i) mod ?n \<noteq> ?nxt" if "i < ?m" for i
    using ring_distinct [OF _ that m(2)] assms(1) unfolding n(2) by (simp add: queue_ok_def)
  have "job_cell q' i = job_cell q i" if "i < ?m" for i
    using other [OF that] by (simp add: job_cell_def q')
  moreover have "job_cell q' ?m = Some j"
    using n assms(1) by (simp add: job_cell_def q' queue_ok_def)
  moreover have "queuesize q' - queueAvail q' = Suc ?m" using m(1) by (simp add: q')
  ultimately have "job_cells q' = job_cells q @ [Some j]" by (simp add: job_cells_def)
  with q' \<open>queue_ok q'\<close> show ?thesis by blast
qed


lemma dequeueJob_empty: "queueAvail q = queuesize q \<Longrightarrow> dequeueJob q = Some (None, q)"
  by (simp add: dequeueJob.simps)

text \<open>One turn of the loop takes the oldest cell off.\<close>

definition drop_oldest :: "job_queue \<Rightarrow> job_queue" where
  "drop_oldest self = (let nxt = lastIdx self + 1 in
     self\<lparr>jobQueue := (jobQueue self)[lastIdx self := None], queueAvail := queueAvail self + 1,
          lastIdx := (if nxt = queuesize self then 0 else nxt)\<rparr>)"

lemma drop_oldest_cells:
  assumes "queue_ok q" "queueAvail q \<noteq> queuesize q"
  shows "queue_ok (drop_oldest q)" "job_cells q = jobQueue q ! lastIdx q # job_cells (drop_oldest q)"
    "queuesize (drop_oldest q) = queuesize q" "queueAvail (drop_oldest q) = queueAvail q + 1"
proof -
  let ?n = "queuesize q" and ?l = "lastIdx q"
  obtain m where m: "?n - queueAvail q = Suc m" "?n - (queueAvail q + 1) = m" "Suc m \<le> ?n"
    using assms by (cases "?n - queueAvail q") (auto simp: queue_ok_def)
  have l: "?l < ?n" "length (jobQueue q) = ?n" using assms(1) by (simp_all add: queue_ok_def)
  define d where "d = drop_oldest q"
  have d: "queuesize d = ?n" "queueAvail d = queueAvail q + 1" "lastIdx d = (?l + 1) mod ?n"
      "nextIdx d = nextIdx q" "jobQueue d = (jobQueue q)[?l := None]"
    using l(1) by (auto simp: d_def drop_oldest_def Let_def)
  have "nextIdx d = (lastIdx d + m) mod ?n"
    using assms(1) m(1) by (simp add: d queue_ok_def mod_add_left_eq)
  then show "queue_ok (drop_oldest q)"
    using assms m l unfolding d_def [symmetric] by (auto simp: queue_ok_def d)
  have "job_cell d i = job_cell q (Suc i)" if "i < m" for i
  proof -
    have idx: "(lastIdx d + i) mod ?n = (?l + Suc i) mod ?n" by (simp add: d(3) mod_add_left_eq)
    have "(?l + Suc i) mod ?n \<noteq> ?l"
      using ring_distinct [OF l(1), of 0 "Suc i"] that m(3) l(1) by simp
    with idx show ?thesis by (simp add: job_cell_def d)
  qed
  then have "map (job_cell d) [0..<m] = map (\<lambda>i. job_cell q (Suc i)) [0..<m]" by simp
  moreover have "job_cells d = map (job_cell d) [0..<m]"
    using m(2) by (simp add: job_cells_def d(1,2))
  moreover have "job_cells q = job_cell q 0 # map (\<lambda>i. job_cell q (Suc i)) [0..<m]"
    unfolding job_cells_def m(1) by (simp add: upt_conv_Cons map_Suc_upt [symmetric] del: upt_Suc)
  ultimately show "job_cells q = jobQueue q ! ?l # job_cells (drop_oldest q)"
    using l(1) by (simp add: d_def [symmetric] job_cell_def)
  show "queuesize (drop_oldest q) = ?n" "queueAvail (drop_oldest q) = queueAvail q + 1"
    using d by (simp_all add: d_def)
qed

lemma dequeueJob_step:
  assumes "queueAvail q \<noteq> queuesize q"
  shows "dequeueJob q = (if jobQueue q ! lastIdx q = None then dequeueJob (drop_oldest q)
     else Some (jobQueue q ! lastIdx q, drop_oldest q))"
  using assms by (subst dequeueJob.simps) (simp add: drop_oldest_def Let_def)

lemma dequeueJob_waiting:
  assumes "queue_ok q"
  shows "\<exists>q'. dequeueJob q = Some ((case waiting q of [] \<Rightarrow> None | j # _ \<Rightarrow> Some j), q') \<and> queue_ok q'
    \<and> waiting q' = tl (waiting q) \<and> queuesize q' = queuesize q \<and> (None \<notin> set (job_cells q) \<longrightarrow> None \<notin> set (job_cells q'))"
  using assms
proof (induction "queuesize q - queueAvail q" arbitrary: q rule: less_induct)
  case less
  show ?case
  proof (cases "queueAvail q = queuesize q")
    case True
    then have "job_cells q = []" by (simp add: job_cells_def)
    with True less.prems show ?thesis by (auto simp: dequeueJob_empty waiting_def)
  next
    case False
    note d = drop_oldest_cells [OF less.prems False]
    have lt: "queuesize (drop_oldest q) - queueAvail (drop_oldest q) < queuesize q - queueAvail q"
      using d(3,4) False less.prems by (auto simp: queue_ok_def)
    show ?thesis
    proof (cases "jobQueue q ! lastIdx q")
      case None
      then have "waiting q = waiting (drop_oldest q)" "None \<in> set (job_cells q)" using d(2) by (simp_all add: waiting_def)
      with less.hyps [OF lt d(1)] None False d(3) show ?thesis by (auto simp: dequeueJob_step)
    next
      case (Some j)
      then have "waiting q = j # waiting (drop_oldest q)" using d(2) by (simp add: waiting_def)
      with Some False d show ?thesis by (auto simp: dequeueJob_step)
    qed
  qed
qed


lemma no_holes: "None \<notin> set (job_cells q) \<Longrightarrow> length (waiting q) = queuesize q - queueAvail q"
proof -
  assume "None \<notin> set (job_cells q)"
  then have "filter (\<lambda>c. c \<noteq> None) (job_cells q) = job_cells q" by (metis (mono_tags) filter_True)
  then show ?thesis by (simp add: waiting_def job_cells_def)
qed

interpretation jobfifo: fifo "\<lambda>q j. snd (enqueueJob j q)" "\<lambda>q. Inr (the (dequeueJob q))"
  "\<lambda>q. queue_ok q \<and> queuesize q = n \<and> None \<notin> set (job_cells q)" waiting n for n
proof
  fix q j assume ok: "queue_ok q \<and> queuesize q = n \<and> None \<notin> set (job_cells q)" and len: "length (waiting q) < n"
  then have "queueAvail q \<noteq> 0" using no_holes [of q] by auto
  with enqueueJob_cells [of q j] ok
  show "(queue_ok (snd (enqueueJob j q)) \<and> queuesize (snd (enqueueJob j q)) = n \<and> None \<notin> set (job_cells (snd (enqueueJob j q))))
      \<and> waiting (snd (enqueueJob j q)) = waiting q @ [j]"
    by (auto simp: waiting_def)
next
  fix q assume ok: "queue_ok q \<and> queuesize q = n \<and> None \<notin> set (job_cells q)" and e: "waiting q = []"
  then have "queueAvail q = queuesize q" using no_holes [of q] by (simp add: queue_ok_def)
  then show "(Inr (the (dequeueJob q)) :: (job option \<times> job_queue) result) = Inr (None, q)" by (simp add: dequeueJob_empty)
next
  fix q x xs assume ok: "queue_ok q \<and> queuesize q = n \<and> None \<notin> set (job_cells q)" and w: "waiting q = x # xs"
  then obtain q' where "dequeueJob q = Some (Some x, q')" "queue_ok q'" "waiting q' = xs" "queuesize q' = n"
      "None \<notin> set (job_cells q')"
    using dequeueJob_waiting [of q] by auto
  then show "\<exists>q'. (Inr (the (dequeueJob q)) :: (job option \<times> job_queue) result) = Inr (Some x, q')
      \<and> (queue_ok q' \<and> queuesize q' = n \<and> None \<notin> set (job_cells q')) \<and> waiting q' = xs"
    by auto
qed

section \<open>The pool\<close>

record ThreadJob =
  hasCompleted :: bool
  timeoutTicks :: int
  panicmsg :: "string option"

datatype pool_call = Start nat job | Restart nat | Interrupt nat | FinishedEv job bool | DestroyJob job

record Pool =
  p_live :: bool                 \<comment> \<open>\<open>threads\<close> is not null\<close>
  p_threads :: "job option list" \<comment> \<open>the job of each thread\<close>
  p_jq :: job_queue
  p_jobs :: "job \<Rightarrow> ThreadJob"
  p_calls :: "pool_call list"

definition ThreadJob_create :: "int \<Rightarrow> ThreadJob" where
  "ThreadJob_create timeout = \<lparr>hasCompleted = True, timeoutTicks = timeout, panicmsg = None\<rparr>"

definition log_pool :: "pool_call \<Rightarrow> Pool \<Rightarrow> Pool" where
  "log_pool c self = self\<lparr>p_calls := p_calls self @ [c]\<rparr>"

definition set_job :: "job \<Rightarrow> (ThreadJob \<Rightarrow> ThreadJob) \<Rightarrow> Pool \<Rightarrow> Pool" where
  "set_job j f self = self\<lparr>p_jobs := (p_jobs self)(j := f (p_jobs self j))\<rparr>"

text \<open>The number of the first thread from \<open>i\<close> on without a job.\<close>

fun availableThread :: "nat \<Rightarrow> job option list \<Rightarrow> nat option" where
  "availableThread i [] = None"
| "availableThread i (t # ts) = (if t = None then Some i else availableThread (i + 1) ts)"

definition startThreadJob :: "nat \<Rightarrow> job \<Rightarrow> Pool \<Rightarrow> Pool" where
  "startThreadJob t j self = log_pool (Start t j) (self\<lparr>p_threads := (p_threads self)[t := Some j]\<rparr>)"

definition ThreadPool_active :: "Pool \<Rightarrow> bool" where
  "ThreadPool_active self = p_live self"

definition ThreadPool_enqueue :: "bool \<Rightarrow> job \<Rightarrow> Pool \<Rightarrow> int \<times> Pool" where
  "ThreadPool_enqueue mainthread j self =
     (case (if mainthread \<and> p_live self then availableThread 0 (p_threads self) else None) of
        Some t \<Rightarrow> (0, startThreadJob t j self)
      | None \<Rightarrow> (case enqueueJob j (p_jq self) of (rc, jq) \<Rightarrow> (rc, self\<lparr>p_jq := jq\<rparr>)))"

text \<open>
  A worker reports on its pipe. With a panic message the result is the message handed to
  \<open>Service_panic\<close>, which does not return.
\<close>

definition threadJobDone :: "nat \<Rightarrow> bool \<Rightarrow> Pool \<Rightarrow> (string option \<times> Pool) result option" where
  "threadJobDone t failed self =
     (if failed then Some (Inr (None, log_pool (Restart t) self))
      else (case p_threads self ! t of
              None \<Rightarrow> Some (Inl NullDeref)
            | Some j \<Rightarrow>
                (case panicmsg (p_jobs self j) of
                   Some msg \<Rightarrow>
                     Some (Inr (Some msg, log_pool (DestroyJob j) (self\<lparr>p_threads := (p_threads self)[t := None]\<rparr>)))
                 | None \<Rightarrow>
                     let self = log_pool (FinishedEv j (hasCompleted (p_jobs self j))) self;
                         self = log_pool (DestroyJob j) (self\<lparr>p_threads := (p_threads self)[t := None]\<rparr>)
                     in map_option (\<lambda>(nxt, jq). let self = self\<lparr>p_jq := jq\<rparr> in
                          Inr (None, case nxt of None \<Rightarrow> self | Some j \<Rightarrow> startThreadJob t j self))
                          (dequeueJob (p_jq self)))))"

fun check_loop :: "nat \<Rightarrow> job option list \<Rightarrow> Pool \<Rightarrow> Pool" where
  "check_loop i [] self = self"
| "check_loop i (t # ts) self =
     (case t of
        None \<Rightarrow> check_loop (i + 1) ts self
      | Some j \<Rightarrow>
          if timeoutTicks (p_jobs self j) = 0 then check_loop (i + 1) ts self
          else (let self = set_job j (\<lambda>job. job\<lparr>timeoutTicks := timeoutTicks job - 1\<rparr>) self in
                check_loop (i + 1) ts
                  (if timeoutTicks (p_jobs self j) = 0
                   then set_job j (\<lambda>job. job\<lparr>hasCompleted := False\<rparr>) (log_pool (Interrupt i) self)
                   else self)))"

definition checkThreadJobs :: "Pool \<Rightarrow> Pool" where
  "checkThreadJobs self = check_loop 0 (p_threads self) self"

text \<open>The search of \<open>ThreadPool_cancel\<close> through the waiting jobs; the place stays in use.\<close>

partial_function (option) cancel_loop :: "job \<Rightarrow> nat \<Rightarrow> Pool \<Rightarrow> Pool option" where
  "cancel_loop j i self =
     (if jobQueue (p_jq self) ! i = Some j
      then (let self = set_job j (\<lambda>job. job\<lparr>hasCompleted := False\<rparr>) self;
                self = log_pool (DestroyJob j) (log_pool (FinishedEv j False) self)
            in Some (self\<lparr>p_jq := (p_jq self)\<lparr>jobQueue := (jobQueue (p_jq self))[i := None]\<rparr>\<rparr>))
      else (let i = (if i + 1 = queuesize (p_jq self) then 0 else i + 1)
            in if i \<noteq> nextIdx (p_jq self) then cancel_loop j i self else Some self))"

fun thread_of :: "nat \<Rightarrow> job \<Rightarrow> job option list \<Rightarrow> nat option" where
  "thread_of i j [] = None"
| "thread_of i j (t # ts) = (if t = Some j then Some i else thread_of (i + 1) j ts)"

definition ThreadPool_cancel :: "job \<Rightarrow> Pool \<Rightarrow> Pool result option" where
  "ThreadPool_cancel j self =
     (case (if p_live self then thread_of 0 j (p_threads self) else None) of
        Some i \<Rightarrow> Some (Inr (set_job j (\<lambda>job. job\<lparr>hasCompleted := False\<rparr>) (log_pool (Interrupt i) self)))
      | None \<Rightarrow>
          if queueAvail (p_jq self) \<noteq> queuesize (p_jq self)
          then (if \<not> p_live self then Some (Inl NullDeref)
                else map_option Inr (cancel_loop j (lastIdx (p_jq self)) self))
          else Some (Inr self))"

definition ThreadPool_init :: "nat \<Rightarrow> nat \<Rightarrow> Pool \<Rightarrow> Pool" where
  "ThreadPool_init nthreads qsize self =
     self\<lparr>p_live := True, p_threads := replicate nthreads None, p_jq := queue_init qsize\<rparr>"

definition ThreadPool_done :: "Pool \<Rightarrow> Pool" where
  "ThreadPool_done self =
     (if p_live self
      then self\<lparr>p_live := False, p_threads := [],
                p_calls := p_calls self @ map (\<lambda>j. DestroyJob (the j)) (filter (\<lambda>c. c \<noteq> None) (jobQueue (p_jq self))),
                p_jq := (p_jq self)\<lparr>jobQueue := [], queueAvail := 0\<rparr>\<rparr>
      else self)"


section \<open>No job is lost\<close>

datatype pool_op = EnqueueMain job | EnqueueWorker job | JobDone nat | PoolTick | CancelJob job

text \<open>
  A step gives the jobs it took on. Only a busy thread reports and only a running job
  enqueues from a worker; other such steps do not happen, and leave the pool alone here.
\<close>

definition pool_step :: "pool_op \<Rightarrow> Pool \<Rightarrow> (job list \<times> Pool) result option" where
  "pool_step op self =
     (case op of
        EnqueueMain j \<Rightarrow> (case ThreadPool_enqueue True j self of (rc, self) \<Rightarrow> Some (Inr (if rc = 0 then [j] else [], self)))
      | EnqueueWorker j \<Rightarrow>
          if \<exists>t\<in>set (p_threads self). t \<noteq> None
          then (case ThreadPool_enqueue False j self of (rc, self) \<Rightarrow> Some (Inr (if rc = 0 then [j] else [], self)))
          else Some (Inr ([], self))
      | JobDone t \<Rightarrow>
          if t < length (p_threads self) \<and> p_threads self ! t \<noteq> None
          then map_option (\<lambda>r. bind_result r (\<lambda>(msg, self). Inr ([], self))) (threadJobDone t False self)
          else Some (Inr ([], self))
      | PoolTick \<Rightarrow> Some (Inr ([], checkThreadJobs self))
      | CancelJob j \<Rightarrow> map_option (\<lambda>r. bind_result r (\<lambda>self. Inr ([], self))) (ThreadPool_cancel j self))"

fun pool_run :: "pool_op list \<Rightarrow> Pool \<Rightarrow> (job list \<times> Pool) result option" where
  "pool_run [] self = Some (Inr ([], self))"
| "pool_run (op # ops) self =
     Option.bind (pool_step op self) (\<lambda>r. case r of
       Inl e \<Rightarrow> Some (Inl e)
     | Inr (taken, self) \<Rightarrow>
         map_option (\<lambda>r. bind_result r (\<lambda>(taken', self). Inr (taken @ taken', self))) (pool_run ops self))"

definition some_list :: "'a option list \<Rightarrow> 'a list" where
  "some_list xs = map the (filter (\<lambda>x. x \<noteq> None) xs)"

fun destroyed_in :: "pool_call list \<Rightarrow> job list" where
  "destroyed_in [] = []"
| "destroyed_in (DestroyJob j # cs) = j # destroyed_in cs"
| "destroyed_in (c # cs) = destroyed_in cs"

definition destroyed :: "Pool \<Rightarrow> job list" where
  "destroyed self = destroyed_in (p_calls self)"

definition held :: "Pool \<Rightarrow> job multiset" where
  "held self = mset (some_list (p_threads self)) + mset (waiting (p_jq self)) + mset (destroyed self)"

definition pool_ok :: "Pool \<Rightarrow> bool" where
  "pool_ok self \<longleftrightarrow> p_live self \<and> p_threads self \<noteq> [] \<and> queue_ok (p_jq self)
     \<and> (waiting (p_jq self) \<noteq> [] \<longrightarrow> some_list (p_threads self) \<noteq> [])"

lemma destroyed_in_append: "destroyed_in (cs @ ds) = destroyed_in cs @ destroyed_in ds"
  by (induction cs rule: destroyed_in.induct) simp_all

lemma destroyed_simps [simp]:
  "destroyed (log_pool (DestroyJob j) self) = destroyed self @ [j]"
  "destroyed (log_pool (Start t j) self) = destroyed self"
  "destroyed (log_pool (FinishedEv j b) self) = destroyed self"
  "destroyed (log_pool (Interrupt t) self) = destroyed self"
  "destroyed (self\<lparr>p_threads := ts\<rparr>) = destroyed self" "destroyed (self\<lparr>p_jq := q\<rparr>) = destroyed self"
  "destroyed (set_job j f self) = destroyed self"
  by (simp_all add: destroyed_def log_pool_def destroyed_in_append set_job_def)

lemma pool_select [simp]:
  "p_threads (log_pool c self) = p_threads self" "p_jq (log_pool c self) = p_jq self"
  "p_live (log_pool c self) = p_live self" "p_threads (set_job j f self) = p_threads self"
  "p_jq (set_job j f self) = p_jq self" "p_live (set_job j f self) = p_live self"
  by (simp_all add: log_pool_def set_job_def)

lemma some_list_simps [simp]:
  "some_list [] = []" "some_list (None # xs) = some_list xs" "some_list (Some x # xs) = x # some_list xs"
  by (simp_all add: some_list_def)

lemma some_list_put: "t < length ts \<Longrightarrow> ts ! t = None \<Longrightarrow> mset (some_list (ts[t := Some j])) = add_mset j (mset (some_list ts))"
proof (induction ts arbitrary: t)
  case (Cons x ts)
  then show ?case by (cases t; cases x) auto
qed simp

lemma some_list_take: "t < length ts \<Longrightarrow> ts ! t = Some j \<Longrightarrow> add_mset j (mset (some_list (ts[t := None]))) = mset (some_list ts)"
proof (induction ts arbitrary: t)
  case (Cons x ts)
  show ?case
  proof (cases t)
    case (Suc n)
    with Cons show ?thesis by (cases x) (auto simp: add_mset_commute)
  qed (use Cons in simp)
qed simp

lemma some_list_nonempty: "some_list ts \<noteq> [] \<longleftrightarrow> (\<exists>t\<in>set ts. t \<noteq> None)"
  by (induction ts) (auto simp: some_list_def)

lemma availableThread_Some:
  "availableThread i ts = Some t \<Longrightarrow> i \<le> t \<and> t - i < length ts \<and> ts ! (t - i) = None"
proof (induction ts arbitrary: i)
  case (Cons x ts)
  show ?case
  proof (cases x)
    case (Some j)
    with Cons have "Suc i \<le> t \<and> t - Suc i < length ts \<and> ts ! (t - Suc i) = None" by simp
    then show ?thesis by (auto simp: nth_Cons' Suc_diff_Suc)
  qed (use Cons in auto)
qed simp

lemma availableThread_None: "availableThread i ts = None \<Longrightarrow> None \<notin> set ts"
  by (induction ts arbitrary: i) (auto split: if_splits)


lemma waiting_some: "waiting q = some_list (job_cells q)"
  by (simp add: waiting_def some_list_def)

lemma start_keeps:
  assumes "pool_ok self" "t < length (p_threads self)" "p_threads self ! t = None"
  shows "pool_ok (startThreadJob t j self) \<and> held (startThreadJob t j self) = add_mset j (held self)"
proof -
  have m: "mset (some_list ((p_threads self)[t := Some j])) = add_mset j (mset (some_list (p_threads self)))"
    by (rule some_list_put [OF assms(2,3)])
  then have "some_list ((p_threads self)[t := Some j]) \<noteq> []" by (metis mset.simps(1) add_mset_not_empty)
  with assms(1) m show ?thesis by (simp add: startThreadJob_def pool_ok_def held_def)
qed

lemma enqueue_step:
  assumes "pool_ok self" "mainthread \<or> some_list (p_threads self) \<noteq> []"
    and "ThreadPool_enqueue mainthread j self = (rc, self')"
  shows "pool_ok self' \<and> held self' = held self + mset (if rc = 0 then [j] else [])"
proof (cases "if mainthread \<and> p_live self then availableThread 0 (p_threads self) else None")
  case (Some t)
  then have av: "availableThread 0 (p_threads self) = Some t" by (simp split: if_splits)
  have "self' = startThreadJob t j self" "rc = 0" using assms(3) Some by (simp_all add: ThreadPool_enqueue_def)
  with start_keeps [OF assms(1), of t j] availableThread_Some [OF av] show ?thesis by simp
next
  case None
  have busy: "some_list (p_threads self) \<noteq> []"
  proof (cases mainthread)
    case True
    then have "None \<notin> set (p_threads self)" "p_threads self \<noteq> []"
      using None assms(1) availableThread_None by (auto simp: pool_ok_def)
    then show ?thesis unfolding some_list_nonempty by (cases "p_threads self") auto
  qed (use assms(2) in simp)
  obtain jq where e: "enqueueJob j (p_jq self) = (rc, jq)" "self' = self\<lparr>p_jq := jq\<rparr>"
    using assms(3) None by (auto simp: ThreadPool_enqueue_def split: prod.splits)
  show ?thesis
  proof (cases "queueAvail (p_jq self) = 0")
    case True
    with e have "rc = -1" "self' = self" by (simp_all add: enqueueJob_full)
    with assms(1) show ?thesis by simp
  next
    case False
    with enqueueJob_cells [of "p_jq self" j] assms(1) e have "rc = 0" "queue_ok jq"
        "waiting jq = waiting (p_jq self) @ [j]"
      by (auto simp: pool_ok_def waiting_def)
    with e assms(1) busy show ?thesis by (simp add: pool_ok_def held_def)
  qed
qed

lemma done_keeps:
  assumes "pool_ok self" "t < length (p_threads self)" "p_threads self ! t = Some j"
  shows "\<exists>msg self'. threadJobDone t False self = Some (Inr (msg, self')) \<and> held self' = held self
    \<and> (msg = None \<longrightarrow> pool_ok self')"
proof -
  let ?free = "log_pool (DestroyJob j) (self\<lparr>p_threads := (p_threads self)[t := None]\<rparr>)"
  have take: "add_mset j (mset (some_list ((p_threads self)[t := None]))) = mset (some_list (p_threads self))"
    by (rule some_list_take [OF assms(2,3)])
  show ?thesis
  proof (cases "panicmsg (p_jobs self j)")
    case (Some msg)
    with assms(3) take [symmetric] show ?thesis by (simp add: threadJobDone_def held_def)
  next
    case None
    obtain jq where d: "dequeueJob (p_jq self) = Some ((case waiting (p_jq self) of [] \<Rightarrow> None | j # _ \<Rightarrow> Some j), jq)"
        "queue_ok jq" "waiting jq = tl (waiting (p_jq self))"
      using dequeueJob_waiting [of "p_jq self"] assms(1) by (auto simp: pool_ok_def)
    let ?self1 = "log_pool (DestroyJob j)
       ((log_pool (FinishedEv j (hasCompleted (p_jobs self j))) self)\<lparr>p_threads := (p_threads self)[t := None]\<rparr>)\<lparr>p_jq := jq\<rparr>"
    show ?thesis
    proof (cases "waiting (p_jq self)")
      case Nil
      with d assms None take [symmetric] show ?thesis
        by (simp add: threadJobDone_def held_def pool_ok_def Let_def)
    next
      case (Cons k ks)
      have put: "mset (some_list ((p_threads self)[t := Some k])) = add_mset k (mset (some_list ((p_threads self)[t := None])))"
        using some_list_put [of t "(p_threads self)[t := None]" k] assms(2) by simp
      then have "some_list ((p_threads self)[t := Some k]) \<noteq> []" by (metis mset.simps(1) add_mset_not_empty)
      with d assms None Cons take [symmetric] put show ?thesis
        by (simp add: threadJobDone_def held_def pool_ok_def Let_def startThreadJob_def)
    qed
  qed
qed

lemma check_loop_keeps:
  "p_threads (check_loop i ts self) = p_threads self \<and> p_jq (check_loop i ts self) = p_jq self
    \<and> p_live (check_loop i ts self) = p_live self \<and> destroyed (check_loop i ts self) = destroyed self"
  by (induction i ts self rule: check_loop.induct) (auto simp: Let_def split: option.split)

lemma tick_step: "pool_ok self \<Longrightarrow> pool_ok (checkThreadJobs self) \<and> held (checkThreadJobs self) = held self"
  using check_loop_keeps [of 0 "p_threads self" self] by (simp add: checkThreadJobs_def pool_ok_def held_def)

lemma ring_next: "(a :: nat) < n \<Longrightarrow> 0 < i \<Longrightarrow> i < m \<Longrightarrow> m \<le> n \<Longrightarrow> (a + i) mod n \<noteq> (a + m) mod n"
  using ring_distinct [of a n i m] ring_distinct [of a n 0 i] by (cases "m < n") auto

lemma clear_cell:
  assumes "queue_ok q" "i < queuesize q - queueAvail q"
  shows "job_cells (q\<lparr>jobQueue := (jobQueue q)[(lastIdx q + i) mod queuesize q := None]\<rparr>) = (job_cells q)[i := None]"
proof (rule nth_equalityI)
  let ?n = "queuesize q" and ?q = "q\<lparr>jobQueue := (jobQueue q)[(lastIdx q + i) mod queuesize q := None]\<rparr>"
  show "length (job_cells ?q) = length ((job_cells q)[i := None])" by (simp add: job_cells_def)
  fix k assume "k < length (job_cells ?q)"
  then have k: "k < ?n - queueAvail q" by (simp add: job_cells_def)
  have b: "lastIdx q < ?n" "k < ?n" "i < ?n" using k assms by (auto simp: queue_ok_def)
  have "(lastIdx q + k) mod ?n = (lastIdx q + i) mod ?n \<longleftrightarrow> k = i"
    using ring_distinct [OF b(1) _ b(2), of i] ring_distinct [OF b(1) _ b(3), of k]
    by (cases k i rule: linorder_cases) auto
  with k assms show "job_cells ?q ! k = (job_cells q)[i := None] ! k"
    by (auto simp: job_cells_def job_cell_def nth_list_update queue_ok_def)
qed


lemma cancel_loop_cases:
  assumes "queue_ok (p_jq self)" "k < queuesize (p_jq self) - queueAvail (p_jq self)"
  defines "idx \<equiv> \<lambda>k. (lastIdx (p_jq self) + k) mod queuesize (p_jq self)"
  shows "cancel_loop j (idx k) self = Some self \<or>
    (\<exists>i<queuesize (p_jq self) - queueAvail (p_jq self). job_cells (p_jq self) ! i = Some j \<and>
       cancel_loop j (idx k) self = Some ((log_pool (DestroyJob j) (log_pool (FinishedEv j False)
          (set_job j (\<lambda>job. job\<lparr>hasCompleted := False\<rparr>) self)))
          \<lparr>p_jq := (p_jq self)\<lparr>jobQueue := (jobQueue (p_jq self))[idx i := None]\<rparr>\<rparr>))"
  using assms(2)
proof (induction "queuesize (p_jq self) - queueAvail (p_jq self) - k" arbitrary: k rule: less_induct)
  case less
  let ?q = "p_jq self" and ?n = "queuesize (p_jq self)" and ?m = "queuesize (p_jq self) - queueAvail (p_jq self)"
  have q: "lastIdx ?q < ?n" "?m \<le> ?n" "nextIdx ?q = idx ?m" "0 < ?n"
    using assms(1) by (auto simp: queue_ok_def idx_def)
  have idx: "idx k < ?n" using q(4) by (simp add: idx_def)
  have cell: "job_cells ?q ! k = jobQueue ?q ! idx k"
    using less.prems by (simp add: job_cells_def job_cell_def idx_def)
  have "(if idx k + 1 = ?n then 0 else idx k + 1) = (idx k + 1) mod ?n" by (rule wrap_succ [OF idx])
  also have "\<dots> = idx (Suc k)" by (simp add: idx_def mod_Suc_eq)
  finally have nxt: "(if idx k + 1 = ?n then 0 else idx k + 1) = idx (Suc k)" .
  show ?case
  proof (cases "jobQueue ?q ! idx k = Some j")
    case True
    with less.prems cell show ?thesis
      by (subst (1 2) cancel_loop.simps) (auto simp: Let_def intro!: exI [of _ k])
  next
    case False
    have step: "cancel_loop j (idx k) self = (if idx (Suc k) \<noteq> nextIdx ?q then cancel_loop j (idx (Suc k)) self else Some self)"
      using False by (subst cancel_loop.simps) (simp only: Let_def nxt if_False)
    show ?thesis
    proof (cases "Suc k < ?m")
      case True
      then have "idx (Suc k) \<noteq> nextIdx ?q" using ring_next [OF q(1) _ True q(2)] by (simp add: q(3) idx_def)
      with step less.hyps [of "Suc k"] True less.prems show ?thesis by simp
    next
      case False
      then have "Suc k = ?m" using less.prems by simp
      with step q(3) show ?thesis by simp
    qed
  qed
qed

lemma cancel_step:
  assumes "pool_ok self"
  shows "\<exists>self'. ThreadPool_cancel j self = Some (Inr self') \<and> pool_ok self' \<and> held self' = held self"
proof (cases "if p_live self then thread_of 0 j (p_threads self) else None")
  case (Some i)
  with assms show ?thesis by (simp add: ThreadPool_cancel_def pool_ok_def held_def)
next
  case None
  let ?q = "p_jq self"
  have live: "p_live self" and q: "queue_ok ?q" using assms by (simp_all add: pool_ok_def)
  show ?thesis
  proof (cases "queueAvail ?q = queuesize ?q")
    case True
    with None assms show ?thesis by (simp add: ThreadPool_cancel_def)
  next
    case False
    then have used: "0 < queuesize ?q - queueAvail ?q" using q by (auto simp: queue_ok_def)
    have start: "(lastIdx ?q + 0) mod queuesize ?q = lastIdx ?q" using q by (simp add: queue_ok_def)
    from cancel_loop_cases [OF q used, of j] consider
        "cancel_loop j (lastIdx ?q) self = Some self"
      | i where "i < queuesize ?q - queueAvail ?q" "job_cells ?q ! i = Some j"
         "cancel_loop j (lastIdx ?q) self = Some ((log_pool (DestroyJob j) (log_pool (FinishedEv j False)
          (set_job j (\<lambda>job. job\<lparr>hasCompleted := False\<rparr>) self)))
          \<lparr>p_jq := ?q\<lparr>jobQueue := (jobQueue ?q)[(lastIdx ?q + i) mod queuesize ?q := None]\<rparr>\<rparr>)"
      unfolding start by blast
    then show ?thesis
    proof cases
      case 1
      with None False live assms show ?thesis by (auto simp: ThreadPool_cancel_def split: if_splits)
    next
      case (2 i)
      let ?q' = "?q\<lparr>jobQueue := (jobQueue ?q)[(lastIdx ?q + i) mod queuesize ?q := None]\<rparr>"
      have w: "waiting ?q' = some_list ((job_cells ?q)[i := None])"
        unfolding waiting_some clear_cell [OF q 2(1)] ..
      have "i < length (job_cells ?q)" using 2(1) by (simp add: job_cells_def)
      then have m: "mset (waiting ?q) = add_mset j (mset (waiting ?q'))"
        unfolding w unfolding waiting_some by (rule some_list_take [OF _ 2(2), symmetric])
      then have "waiting ?q \<noteq> []" by (metis mset.simps(1) add_mset_not_empty)
      moreover have "queue_ok ?q'" using q by (simp add: queue_ok_def)
      ultimately show ?thesis
        using None False live assms 2(3) m by (auto simp: ThreadPool_cancel_def pool_ok_def held_def split: if_splits)
    qed
  qed
qed


lemma pool_step_ok:
  assumes "pool_ok self" "\<forall>j. panicmsg (p_jobs self j) = None"
  shows "\<exists>taken self'. pool_step op self = Some (Inr (taken, self')) \<and> pool_ok self' \<and> held self' = held self + mset taken"
proof (cases op)
  case (EnqueueMain j)
  obtain rc self' where e: "ThreadPool_enqueue True j self = (rc, self')" by fastforce
  from enqueue_step [OF assms(1) _ e] EnqueueMain e show ?thesis by (simp add: pool_step_def)
next
  case (EnqueueWorker j)
  obtain rc self' where e: "ThreadPool_enqueue False j self = (rc, self')" by fastforce
  from enqueue_step [OF assms(1) _ e] EnqueueWorker e assms(1) show ?thesis
    by (simp add: pool_step_def some_list_nonempty)
next
  case (JobDone t)
  show ?thesis
  proof (cases "t < length (p_threads self) \<and> p_threads self ! t \<noteq> None")
    case True
    then obtain j where j: "p_threads self ! t = Some j" by auto
    from done_keeps [OF assms(1) _ j] True obtain msg self' where
      d: "threadJobDone t False self = Some (Inr (msg, self'))" "held self' = held self" "msg = None \<longrightarrow> pool_ok self'" by blast
    have "msg = None" using d(1) assms(2) j by (auto simp: threadJobDone_def Let_def split: prod.splits)
    with d JobDone True show ?thesis by (simp add: pool_step_def)
  next
    case False
    with JobDone assms(1) show ?thesis by (auto simp: pool_step_def)
  qed
next
  case PoolTick
  with tick_step [OF assms(1)] show ?thesis by (simp add: pool_step_def)
next
  case (CancelJob j)
  from cancel_step [OF assms(1), of j] CancelJob show ?thesis by (auto simp: pool_step_def)
qed

definition calm :: "Pool \<Rightarrow> bool" where
  "calm self \<longleftrightarrow> (\<forall>j. panicmsg (p_jobs self j) = None)"

lemma calm_simps [simp]:
  "calm (log_pool c self) = calm self" "calm (self\<lparr>p_threads := ts\<rparr>) = calm self" "calm (self\<lparr>p_jq := q\<rparr>) = calm self"
  "calm (startThreadJob t j self) = calm self"
  by (simp_all add: calm_def log_pool_def startThreadJob_def)

lemma calm_set_job: "calm self \<Longrightarrow> (\<And>x. panicmsg (f x) = panicmsg x) \<Longrightarrow> calm (set_job j f self)"
  by (simp add: calm_def set_job_def)

lemma check_loop_calm: "calm self \<Longrightarrow> calm (check_loop i ts self)"
  by (induction i ts self rule: check_loop.induct) (auto simp: Let_def calm_set_job split: option.split)

lemma cancel_calm:
  assumes "pool_ok self" "calm self" "ThreadPool_cancel j self = Some (Inr self')"
  shows "calm self'"
proof (cases "queueAvail (p_jq self) = queuesize (p_jq self) \<or> thread_of 0 j (p_threads self) \<noteq> None")
  case True
  with assms show ?thesis
    by (auto simp: ThreadPool_cancel_def pool_ok_def calm_set_job split: option.splits if_splits)
next
  case False
  let ?q = "p_jq self"
  have q: "queue_ok ?q" "p_live self" using assms(1) by (simp_all add: pool_ok_def)
  then have used: "0 < queuesize ?q - queueAvail ?q" using False by (auto simp: queue_ok_def)
  have start: "(lastIdx ?q + 0) mod queuesize ?q = lastIdx ?q" using q by (simp add: queue_ok_def)
  have "cancel_loop j (lastIdx ?q) self = Some self'" using False assms(3) q(2) by (auto simp: ThreadPool_cancel_def)
  with cancel_loop_cases [OF q(1) used, of j] assms(2) show ?thesis unfolding start by (auto simp: calm_set_job)
qed

lemma pool_step_calm:
  assumes "pool_ok self" "calm self" "pool_step op self = Some (Inr (taken, self'))"
  shows "calm self'"
proof (cases op)
  case (EnqueueMain j)
  with assms show ?thesis by (auto simp: pool_step_def ThreadPool_enqueue_def split: prod.splits option.splits if_splits)
next
  case (EnqueueWorker j)
  with assms show ?thesis by (auto simp: pool_step_def ThreadPool_enqueue_def split: prod.splits option.splits if_splits)
next
  case (JobDone t)
  with assms show ?thesis
    by (auto simp: pool_step_def threadJobDone_def Let_def bind_result_eq_Inr split: option.splits if_splits prod.splits)
next
  case PoolTick
  with assms show ?thesis by (auto simp: pool_step_def checkThreadJobs_def check_loop_calm)
next
  case (CancelJob j)
  with assms cancel_calm [OF assms(1,2), of j] show ?thesis by (auto simp: pool_step_def bind_result_eq_Inr)
qed

lemma pool_run_ok:
  "pool_ok self \<Longrightarrow> calm self \<Longrightarrow>
    \<exists>taken self'. pool_run ops self = Some (Inr (taken, self')) \<and> pool_ok self' \<and> held self' = held self + mset taken"
proof (induction ops arbitrary: self)
  case (Cons op ops)
  have "\<forall>j. panicmsg (p_jobs self j) = None" using Cons.prems(2) by (simp add: calm_def)
  from pool_step_ok [OF Cons.prems(1) this, of op] obtain taken s1 where
    s1: "pool_step op self = Some (Inr (taken, s1))" "pool_ok s1" "held s1 = held self + mset taken" by blast
  from Cons.IH [OF s1(2) pool_step_calm [OF Cons.prems s1(1)]] obtain taken' s2 where
    "pool_run ops s1 = Some (Inr (taken', s2))" "pool_ok s2" "held s2 = held s1 + mset taken'" by blast
  with s1 show ?case by auto
qed simp



end
