(* ===== verification/PoolTicks.thy ===== *)
theory PoolTicks
  imports ThreadPool
begin

text \<open>
  How long a job may run (\<open>checkThreadJobs\<close> of \<open>threadpool.c\<close>): the ticks of a job with a timeout.
\<close>

definition tick_job :: "ThreadJob \<Rightarrow> ThreadJob" where
  "tick_job job =
     (if timeoutTicks job = 0 then job
      else job\<lparr>timeoutTicks := timeoutTicks job - 1, hasCompleted := hasCompleted job \<and> timeoutTicks job \<noteq> 1\<rparr>)"

definition interrupts :: "(job \<Rightarrow> ThreadJob) \<Rightarrow> nat \<times> job option \<Rightarrow> pool_call list" where
  "interrupts jobs = (\<lambda>(i, t). case t of None \<Rightarrow> [] | Some j \<Rightarrow> if timeoutTicks (jobs j) = 1 then [Interrupt i] else [])"

lemma set_some_list: "j \<in> set (some_list ts) \<longleftrightarrow> Some j \<in> set ts"
  by (force simp: some_list_def)

lemma interrupts_cong:
  assumes "\<And>j. Some j \<in> set ts \<Longrightarrow> f j = g j"
  shows "concat (map (interrupts f) (enumerate i ts)) = concat (map (interrupts g) (enumerate i ts))"
proof -
  have "interrupts f (k, t) = interrupts g (k, t)" if "t \<in> set ts" for k t
    using assms that by (cases t) (simp_all add: interrupts_def)
  then have "map (interrupts f) (enumerate i ts) = map (interrupts g) (enumerate i ts)"
    by (intro map_cong) (auto dest: set_zip_rightD simp: enumerate_eq_zip)
  then show ?thesis by (rule arg_cong)
qed

lemma check_loop_spec:
  assumes "distinct (some_list ts)"
  shows "p_threads (check_loop i ts self) = p_threads self
    \<and> p_jobs (check_loop i ts self) = (\<lambda>j. if Some j \<in> set ts then tick_job (p_jobs self j) else p_jobs self j)
    \<and> p_calls (check_loop i ts self) = p_calls self @ concat (map (interrupts (p_jobs self)) (enumerate i ts))"
  using assms
proof (induction ts arbitrary: i self)
  case (Cons t ts)
  show ?case
  proof (cases t)
    case None
    with Cons.IH [of "i + 1" self] Cons.prems show ?thesis by (simp add: interrupts_def)
  next
    case (Some j)
    define self' where "self' = (let s = set_job j (\<lambda>job. job\<lparr>timeoutTicks := timeoutTicks job - 1\<rparr>) self in
      if timeoutTicks (p_jobs self j) = 0 then self
      else if timeoutTicks (p_jobs s j) = 0 then set_job j (\<lambda>job. job\<lparr>hasCompleted := False\<rparr>) (log_pool (Interrupt i) s) else s)"
    have step: "check_loop i (t # ts) self = check_loop (i + 1) ts self'"
      using Some by (simp add: self'_def Let_def)
    have new: "p_threads self' = p_threads self" "p_jobs self' = (p_jobs self)(j := tick_job (p_jobs self j))"
        "p_calls self' = p_calls self @ interrupts (p_jobs self) (i, t)"
      by (auto simp: self'_def Let_def set_job_def log_pool_def tick_job_def interrupts_def Some)
    have d: "distinct (some_list ts)" "Some j \<notin> set ts" using Cons.prems Some set_some_list [of j ts] by simp_all
    have "concat (map (interrupts (p_jobs self')) (enumerate (i + 1) ts)) = concat (map (interrupts (p_jobs self)) (enumerate (i + 1) ts))"
      by (rule interrupts_cong) (use d(2) new(2) in auto)
    then show ?thesis
      using Cons.IH [OF d(1), of "i + 1" self'] d(2) unfolding step new
      by (intro conjI ext) (auto simp: Some fun_upd_def)
  qed
qed simp

lemma count_interrupts:
  "count_list (concat (map (interrupts f) (enumerate i ts))) (Interrupt (i + t)) =
    (if t < length ts \<and> (\<exists>j. ts ! t = Some j \<and> timeoutTicks (f j) = 1) then 1 else 0)"
proof (induction ts arbitrary: i t)
  case (Cons x ts)
  have later: "Interrupt i \<notin> set (concat (map (interrupts f) (enumerate (Suc i) ts)))" for i
    by (auto simp: interrupts_def in_set_enumerate_eq split: option.splits if_splits)
  show ?case
  proof (cases t)
    case 0
    then show ?thesis using later [of i] by (cases x) (simp_all add: interrupts_def count_list_0_iff)
  next
    case (Suc t')
    with Cons [of "Suc i" t'] show ?thesis by (cases x) (simp_all add: interrupts_def)
  qed
qed simp

lemma tick_once:
  assumes "distinct (some_list (p_threads self))" "t < length (p_threads self)" "p_threads self ! t = Some j"
  shows "p_threads (checkThreadJobs self) = p_threads self \<and> p_jobs (checkThreadJobs self) j = tick_job (p_jobs self j)
    \<and> count_list (p_calls (checkThreadJobs self)) (Interrupt t) =
        count_list (p_calls self) (Interrupt t) + (if timeoutTicks (p_jobs self j) = 1 then 1 else 0)"
proof -
  have "Some j \<in> set (p_threads self)" using assms(2,3) by (metis nth_mem)
  then show ?thesis
    using check_loop_spec [OF assms(1), of 0 self] count_interrupts [of "p_jobs self" 0 "p_threads self" t] assms(2,3)
    by (simp add: checkThreadJobs_def)
qed


definition two_running :: Pool where
  "two_running = \<lparr>p_live = True, p_threads = [Some 7, None, Some 8], p_jq = queue_init 4,
     p_jobs = (\<lambda>j. ThreadJob_create (if j = 7 then 2 else 0)), p_calls = []\<rparr>"


end
