(* ===== verification/BotJobs.thy ===== *)
theory BotJobs
  imports Bot PoolTicks
begin

text \<open>
  The jobs of the bot: \<open>executeHandler\<close>, \<open>handlerThreadProc\<close> and the end of a job in
  \<open>src/lib/ircbot/ircbot.c\<close> over the thread pool. The argument of a job (the handler and its event) is
  memory that is allocated with the job and freed at its end; the pool decides which of its
  threads runs it and when. The same pool runs jobs of other components.
\<close>

section \<open>State and operations\<close>

record 'h bot_state =
  b_pool :: Pool
  b_next :: job                                       \<comment> \<open>the next job to be created\<close>
  b_args :: "job \<Rightarrow> 'h HandlerJob option"              \<comment> \<open>what the argument of a job points at, \<open>None\<close> when freed\<close>
  b_made :: "(job \<times> 'h HandlerJob) list"              \<comment> \<open>history: the jobs of the bot as they were created\<close>
  b_refused :: "job list"                             \<comment> \<open>history: the jobs a full queue did not take\<close>
  b_said :: "(job \<times> IrcBotResponseMessage) list"       \<comment> \<open>history: the messages the handlers added\<close>
  b_ended :: "(job \<times> 'h HandlerJob \<times> bool) list"      \<comment> \<open>history: the jobs of the bot that ended, and whether in time\<close>

text \<open>A new job is handed to the pool, whose answer is not looked at.\<close>

definition enqueue_new :: "bool \<Rightarrow> int \<Rightarrow> 'h bot_state \<Rightarrow> 'h bot_state" where
  "enqueue_new mainthread timeout b =
     (let j = b_next b; pool = set_job j (\<lambda>_. ThreadJob_create timeout) (b_pool b) in
      case ThreadPool_enqueue mainthread j pool of (rc, pool) \<Rightarrow>
        b\<lparr>b_pool := pool, b_next := j + 1, b_refused := b_refused b @ (if rc = 0 then [] else [j])\<rparr>)"

definition submit :: "'h HandlerJob \<Rightarrow> 'h bot_state \<Rightarrow> 'h bot_state" where
  "submit hj b =
     (let j = b_next b; b = enqueue_new True (hj_timeout hj) b in
      b\<lparr>b_args := (b_args b)(j := Some hj), b_made := b_made b @ [(j, hj)]\<rparr>)"

definition is_mine :: "'h bot_state \<Rightarrow> job \<Rightarrow> bool" where
  "is_mine b j \<longleftrightarrow> j \<in> fst ` set (b_made b)"

definition thread_job :: "nat \<Rightarrow> 'h bot_state \<Rightarrow> job option" where
  "thread_job t b = (if t < length (p_threads (b_pool b)) then p_threads (b_pool b) ! t else None)"

text \<open>
  While it runs on a thread, a handler adds a message to the response of its event, which it
  reaches through the argument of its job.
\<close>

definition handlerThreadProc :: "nat \<Rightarrow> string \<Rightarrow> string \<Rightarrow> bool \<Rightarrow> 'h bot_state \<Rightarrow> 'h bot_state result" where
  "handlerThreadProc t to msg action b =
     (case thread_job t b of
        None \<Rightarrow> Inr b
      | Some j \<Rightarrow>
          if \<not> is_mine b j then Inr b
          else (case b_args b j of
                  None \<Rightarrow> Inl UseAfterFree
                | Some hj \<Rightarrow>
                    Inr (b\<lparr>b_args := (b_args b)(j := Some (hj\<lparr>hj_e := IrcBotResponse_addMsg to msg action (hj_e hj)\<rparr>)),
                           b_said := b_said b @ [(j, \<lparr>rm_to = to, rm_msg = msg, rm_action = action\<rparr>)]\<rparr>)))"

text \<open>The event and the argument are freed with the lists and strings they own.\<close>

definition destroyBotEvent :: "job \<Rightarrow> 'h bot_state \<Rightarrow> 'h bot_state result" where
  "destroyBotEvent j b = (if b_args b j = None then Inl DoubleFree else Inr (b\<lparr>b_args := (b_args b)(j := None)\<rparr>))"

text \<open>
  A thread reports the end of its job: the result is the argument with which
  \<open>handlerJobFinished\<close> is called and whether the job was in time, for a job of the bot that
  did not panic. The code frees the event after it has sent the answer; sending only reads the
  event, so the caller may use the value that is returned here.
\<close>

definition job_reports :: "nat \<Rightarrow> 'h bot_state \<Rightarrow> (('h HandlerJob \<times> bool) option \<times> 'h bot_state) result option" where
  "job_reports t b =
     (case thread_job t b of
        None \<Rightarrow> Some (Inr (None, b))
      | Some j \<Rightarrow>
          map_option (\<lambda>r. bind_result r (\<lambda>(msg, pool).
            if msg \<noteq> None \<or> \<not> is_mine b j then Inr (None, b\<lparr>b_pool := pool\<rparr>)
            else (case b_args b j of
                    None \<Rightarrow> Inl UseAfterFree
                  | Some hj \<Rightarrow>
                      let intime = hasCompleted (p_jobs (b_pool b) j) in
                      bind_result (destroyBotEvent j (b\<lparr>b_pool := pool\<rparr>)) (\<lambda>b.
                        Inr (Some (hj, intime), b\<lparr>b_ended := b_ended b @ [(j, hj, intime)]\<rparr>)))))
            (threadJobDone t False (b_pool b)))"

text \<open>
  Other components use the pool as well, from the main thread or from a job that runs, and
  cancel their own jobs.
\<close>

datatype other_op = OtherJob int | OtherJobWorker int | OtherCancel job | OtherTick

definition other_step :: "other_op \<Rightarrow> 'h bot_state \<Rightarrow> 'h bot_state result" where
  "other_step op b =
     (case op of
        OtherJob timeout \<Rightarrow> Inr (enqueue_new True timeout b)
      | OtherJobWorker timeout \<Rightarrow>
          if some_list (p_threads (b_pool b)) \<noteq> [] then Inr (enqueue_new False timeout b) else Inr b
      | OtherCancel j \<Rightarrow>
          if is_mine b j then Inr b
          else (case ThreadPool_cancel j (b_pool b) of
                  None \<Rightarrow> Inl Endless
                | Some r \<Rightarrow> bind_result r (\<lambda>pool. Inr (b\<lparr>b_pool := pool\<rparr>)))
      | OtherTick \<Rightarrow> Inr (b\<lparr>b_pool := checkThreadJobs (b_pool b)\<rparr>))"

definition new_bot :: "nat \<Rightarrow> nat \<Rightarrow> Pool \<Rightarrow> 'h bot_state" where
  "new_bot nthreads qsize mem =
     \<lparr>b_pool = ThreadPool_init nthreads qsize mem, b_next = 0, b_args = (\<lambda>j. None), b_made = [], b_refused = [], b_said = [], b_ended = []\<rparr>"

section \<open>The invariant\<close>

text \<open>Two jobs with the same event, but for the messages of its response.\<close>

definition same_event :: "'h HandlerJob \<Rightarrow> 'h HandlerJob \<Rightarrow> bool" where
  "same_event x y \<longleftrightarrow> y = x\<lparr>hj_e := (hj_e x)\<lparr>be_messages := be_messages (hj_e y)\<rparr>\<rparr>"

lemma same_event_refl [simp]: "same_event x x"
  by (simp add: same_event_def)

lemma same_event_add: "same_event x y \<Longrightarrow> same_event x (y\<lparr>hj_e := IrcBotResponse_addMsg to msg action (hj_e y)\<rparr>)"
proof -
  assume "same_event x y"
  then obtain m where y: "y = x\<lparr>hj_e := (hj_e x)\<lparr>be_messages := m\<rparr>\<rparr>" unfolding same_event_def by blast
  show ?thesis by (simp add: y same_event_def IrcBotResponse_addMsg_def)
qed

text \<open>What the handler of a job has said.\<close>

definition answers :: "'h bot_state \<Rightarrow> job \<Rightarrow> IrcBotResponseMessage list" where
  "answers b j = map snd (filter (\<lambda>p. fst p = j) (b_said b))"

text \<open>A job the bot made, with the answer of its handler in its event.\<close>

definition made_ok :: "'h bot_state \<Rightarrow> job \<Rightarrow> 'h HandlerJob \<Rightarrow> bool" where
  "made_ok b j hj \<longleftrightarrow> IBList_ok (be_messages (hj_e hj)) \<and> objs (be_messages (hj_e hj)) = answers b j
     \<and> (\<exists>x. (j, x) \<in> set (b_made b) \<and> same_event x hj)"

text \<open>The events that are alive, and those that ended.\<close>

definition args_ok :: "'h bot_state \<Rightarrow> bool" where
  "args_ok b \<longleftrightarrow>
     (\<forall>j. b_args b j \<noteq> None \<longleftrightarrow> is_mine b j \<and> j \<notin> set (destroyed (b_pool b)))
     \<and> (\<forall>j hj. b_args b j = Some hj \<longrightarrow> made_ok b j hj)
     \<and> map fst (b_ended b) = filter (is_mine b) (destroyed (b_pool b))
     \<and> (\<forall>(j, hj, intime) \<in> set (b_ended b). made_ok b j hj)
     \<and> (\<forall>(j, m) \<in> set (b_said b). j < b_next b)"

lemma args_alive: "args_ok b \<Longrightarrow> b_args b j \<noteq> None \<longleftrightarrow> is_mine b j \<and> j \<notin> set (destroyed (b_pool b))"
  by (simp add: args_ok_def)

lemma args_made: "args_ok b \<Longrightarrow> b_args b j = Some hj \<Longrightarrow> made_ok b j hj"
  by (simp add: args_ok_def)

lemma args_ended: "args_ok b \<Longrightarrow> map fst (b_ended b) = filter (is_mine b) (destroyed (b_pool b))"
  by (simp add: args_ok_def)

lemma args_ended_made: "args_ok b \<Longrightarrow> (j, hj, intime) \<in> set (b_ended b) \<Longrightarrow> made_ok b j hj"
  unfolding args_ok_def by blast

lemma args_said: "args_ok b \<Longrightarrow> (j, m) \<in> set (b_said b) \<Longrightarrow> j < b_next b"
  unfolding args_ok_def by blast

lemma args_okI:
  assumes "\<And>j. b_args b j \<noteq> None \<longleftrightarrow> is_mine b j \<and> j \<notin> set (destroyed (b_pool b))"
    and "\<And>j hj. b_args b j = Some hj \<Longrightarrow> made_ok b j hj"
    and "map fst (b_ended b) = filter (is_mine b) (destroyed (b_pool b))"
    and "\<And>j hj intime. (j, hj, intime) \<in> set (b_ended b) \<Longrightarrow> made_ok b j hj"
    and "\<And>j m. (j, m) \<in> set (b_said b) \<Longrightarrow> j < b_next b"
  shows "args_ok b"
  using assms unfolding args_ok_def by blast

definition bot_ok :: "'h bot_state \<Rightarrow> bool" where
  "bot_ok b \<longleftrightarrow> pool_ok (b_pool b) \<and> calm (b_pool b)
     \<and> held (b_pool b) + mset (b_refused b) = mset [0..<b_next b]
     \<and> distinct (map fst (b_made b)) \<and> (\<forall>j. is_mine b j \<longrightarrow> j < b_next b) \<and> args_ok b"

section \<open>The pool under these operations\<close>

text \<open>What the pool's part of the invariant says.\<close>

definition jobs_ok :: "'h bot_state \<Rightarrow> bool" where
  "jobs_ok b \<longleftrightarrow> pool_ok (b_pool b) \<and> calm (b_pool b) \<and> held (b_pool b) + mset (b_refused b) = mset [0..<b_next b]"

lemma enqueue_new_other [simp]:
  "b_args (enqueue_new m t b) = b_args b" "b_made (enqueue_new m t b) = b_made b" "b_ended (enqueue_new m t b) = b_ended b"
  "b_said (enqueue_new m t b) = b_said b" "b_next (enqueue_new m t b) = b_next b + 1" "is_mine (enqueue_new m t b) = is_mine b"
  by (simp_all add: enqueue_new_def Let_def is_mine_def fun_eq_iff split: prod.split)

lemma enqueue_destroyed: "ThreadPool_enqueue m j self = (rc, self') \<Longrightarrow> destroyed self' = destroyed self"
  by (auto simp: ThreadPool_enqueue_def startThreadJob_def split: option.splits prod.splits)

lemma enqueue_calm: "calm self \<Longrightarrow> ThreadPool_enqueue m j self = (rc, self') \<Longrightarrow> calm self'"
  by (auto simp: ThreadPool_enqueue_def split: option.splits prod.splits)

lemma enqueue_new_ok:
  assumes "jobs_ok b" "m \<or> some_list (p_threads (b_pool b)) \<noteq> []"
  shows "jobs_ok (enqueue_new m t b)" "destroyed (b_pool (enqueue_new m t b)) = destroyed (b_pool b)"
proof -
  let ?pool = "set_job (b_next b) (\<lambda>_. ThreadJob_create t) (b_pool b)"
  obtain rc pool where e: "ThreadPool_enqueue m (b_next b) ?pool = (rc, pool)" by fastforce
  have p: "pool_ok ?pool" "held ?pool = held (b_pool b)" "p_threads ?pool = p_threads (b_pool b)" "calm ?pool"
    using assms(1) by (simp_all add: jobs_ok_def pool_ok_def held_def calm_def) (simp_all add: set_job_def ThreadJob_create_def)
  have "jobs_ok (b\<lparr>b_pool := pool, b_next := b_next b + 1, b_refused := b_refused b @ (if rc = 0 then [] else [b_next b])\<rparr>)"
    using enqueue_step [OF p(1) _ e] enqueue_calm [OF p(4) e] assms p by (simp add: jobs_ok_def)
  then show "jobs_ok (enqueue_new m t b)" by (simp add: enqueue_new_def Let_def e)
  show "destroyed (b_pool (enqueue_new m t b)) = destroyed (b_pool b)"
    using enqueue_destroyed [OF e] by (simp add: enqueue_new_def Let_def e)
qed

lemma done_exact:
  assumes "pool_ok pool" "calm pool" "t < length (p_threads pool)" "p_threads pool ! t = Some j"
  shows "\<exists>pool'. threadJobDone t False pool = Some (Inr (None, pool')) \<and> pool_ok pool' \<and> calm pool'
    \<and> held pool' = held pool \<and> destroyed pool' = destroyed pool @ [j]"
proof -
  obtain msg pool' where d: "threadJobDone t False pool = Some (Inr (msg, pool'))" "held pool' = held pool" "msg = None \<longrightarrow> pool_ok pool'"
    using done_keeps [OF assms(1,3,4)] by blast
  have "panicmsg (p_jobs pool j) = None" using assms(2) by (simp add: calm_def)
  with d(1) assms(2,4) have "msg = None \<and> calm pool' \<and> destroyed pool' = destroyed pool @ [j]"
    by (auto simp: threadJobDone_def Let_def startThreadJob_def split: prod.splits option.splits)
  with d show ?thesis by blast
qed

lemma cancel_destroyed:
  assumes "pool_ok pool" "ThreadPool_cancel j pool = Some (Inr pool')"
  shows "\<exists>ds. destroyed pool' = destroyed pool @ ds \<and> set ds \<subseteq> {j}"
proof (cases "queueAvail (p_jq pool) = queuesize (p_jq pool) \<or> thread_of 0 j (p_threads pool) \<noteq> None")
  case True
  with assms have "destroyed pool' = destroyed pool"
    by (auto simp: ThreadPool_cancel_def pool_ok_def split: option.splits if_splits)
  then show ?thesis by simp
next
  case False
  let ?q = "p_jq pool"
  have q: "queue_ok ?q" "p_live pool" using assms(1) by (simp_all add: pool_ok_def)
  then have used: "0 < queuesize ?q - queueAvail ?q" using False by (auto simp: queue_ok_def)
  have start: "(lastIdx ?q + 0) mod queuesize ?q = lastIdx ?q" using q by (simp add: queue_ok_def)
  have "cancel_loop j (lastIdx ?q) pool = Some pool'" using False assms(2) q(2) by (auto simp: ThreadPool_cancel_def)
  with cancel_loop_cases [OF q(1) used, of j] show ?thesis unfolding start by auto
qed

section \<open>The memory of the events\<close>

text \<open>A job that is alive has not been destroyed, and each is destroyed once.\<close>

lemma destroyed_once:
  assumes "jobs_ok b"
  shows "distinct (some_list (p_threads (b_pool b)) @ waiting (p_jq (b_pool b)) @ destroyed (b_pool b) @ b_refused b)"
    "set (some_list (p_threads (b_pool b)) @ waiting (p_jq (b_pool b)) @ destroyed (b_pool b) @ b_refused b) = {0..<b_next b}"
proof -
  have m: "mset (some_list (p_threads (b_pool b)) @ waiting (p_jq (b_pool b)) @ destroyed (b_pool b) @ b_refused b) = mset [0..<b_next b]"
    using assms by (simp add: jobs_ok_def held_def ac_simps)
  show "distinct (some_list (p_threads (b_pool b)) @ waiting (p_jq (b_pool b)) @ destroyed (b_pool b) @ b_refused b)"
    using mset_eq_imp_distinct_iff [OF m] by simp
  show "set (some_list (p_threads (b_pool b)) @ waiting (p_jq (b_pool b)) @ destroyed (b_pool b) @ b_refused b) = {0..<b_next b}"
    using mset_eq_setD [OF m] by simp
qed

lemma bot_ok_jobs: "bot_ok b \<longleftrightarrow> jobs_ok b \<and> distinct (map fst (b_made b)) \<and> (\<forall>j. is_mine b j \<longrightarrow> j < b_next b) \<and> args_ok b"
  by (auto simp: bot_ok_def jobs_ok_def)

lemma not_destroyed: "jobs_ok b \<Longrightarrow> b_next b \<notin> set (destroyed (b_pool b))"
  using destroyed_once(2) [of b] by auto

lemma thread_job_alive:
  assumes "bot_ok b" "thread_job t b = Some j" "is_mine b j"
  shows "\<exists>hj. b_args b j = Some hj"
proof -
  have "j \<in> set (some_list (p_threads (b_pool b)))"
    using assms(2) by (auto simp: thread_job_def set_some_list split: if_splits) (metis nth_mem)
  then have "j \<notin> set (destroyed (b_pool b))" using destroyed_once(1) [of b] assms(1) by (auto simp: bot_ok_jobs)
  with assms(1,3) have "b_args b j \<noteq> None" by (simp add: bot_ok_jobs args_ok_def)
  then show ?thesis by blast
qed

lemma new_bot_made [simp]: "b_made (new_bot nthreads qsize mem) = []"
  by (simp add: new_bot_def)

lemma new_bot_ok:
  assumes "0 < nthreads" "0 < qsize" "\<forall>j. panicmsg (p_jobs mem j) = None" "p_calls mem = []"
  shows "bot_ok (new_bot nthreads qsize mem)"
proof -
  have "some_list (replicate nthreads (None :: job option)) = []" by (simp add: some_list_def)
  then show ?thesis
    using assms queue_init_ok [of qsize]
    by (simp add: new_bot_def bot_ok_def ThreadPool_init_def pool_ok_def calm_def held_def destroyed_def waiting_some args_ok_def is_mine_def)
qed

lemma submit_ok:
  assumes "bot_ok b" "be_messages (hj_e hj) = IBList_create"
  shows "bot_ok (submit hj b)"
proof -
  have b: "jobs_ok b" "distinct (map fst (b_made b))" "\<And>j. is_mine b j \<Longrightarrow> j < b_next b" "args_ok b"
    using assms(1) by (simp_all add: bot_ok_jobs)
  let ?b = "enqueue_new True (hj_timeout hj) b"
  let ?s = "submit hj b"
  have e: "jobs_ok ?b" "destroyed (b_pool ?b) = destroyed (b_pool b)" using enqueue_new_ok [OF b(1), of True] by simp_all
  have s: "b_pool ?s = b_pool ?b" "b_refused ?s = b_refused ?b" "b_next ?s = b_next b + 1" "b_ended ?s = b_ended b" "b_said ?s = b_said b"
      "b_made ?s = b_made b @ [(b_next b, hj)]" "b_args ?s = (b_args b)(b_next b := Some hj)"
    by (simp_all add: submit_def Let_def)
  have mine: "is_mine ?s j \<longleftrightarrow> j = b_next b \<or> is_mine b j" for j by (auto simp: is_mine_def s(6))
  have new: "\<not> is_mine b (b_next b)" using b(3) [of "b_next b"] by auto
  have "answers b (b_next b) = []" using args_said [OF b(4), of "b_next b"] by (auto simp: answers_def filter_empty_conv)
  then have fresh: "made_ok ?s (b_next b) hj"
    using assms(2) by (auto simp: made_ok_def answers_def s seq.create_ok seq.create_contents)
  have old: "made_ok ?s j x" if "made_ok b j x" for j x using that by (auto simp: made_ok_def answers_def s)
  have "filter (is_mine ?s) (destroyed (b_pool b)) = filter (is_mine b) (destroyed (b_pool b))"
    using not_destroyed [OF b(1)] by (intro filter_cong) (auto simp: mine)
  then have f: "map fst (b_ended ?s) = filter (is_mine ?s) (destroyed (b_pool ?s))" using args_ended [OF b(4)] by (simp add: s e(2))
  have "args_ok ?s"
  proof (rule args_okI [OF _ _ f])
    show "b_args ?s j \<noteq> None \<longleftrightarrow> is_mine ?s j \<and> j \<notin> set (destroyed (b_pool ?s))" for j
      using args_alive [OF b(4), of j] not_destroyed [OF b(1)] by (auto simp: mine s e(2))
    show "made_ok ?s j x" if "b_args ?s j = Some x" for j x
      using args_made [OF b(4), of j x] that fresh old by (auto simp: s(7) split: if_splits)
    show "made_ok ?s j x" if "(j, x, intime) \<in> set (b_ended ?s)" for j x intime
      using args_ended_made [OF b(4), of j x intime] that old by (simp add: s(4))
    show "j < b_next ?s" if "(j, m) \<in> set (b_said ?s)" for j m
      using args_said [OF b(4), of j m] that by (simp add: s)
  qed
  moreover have "distinct (map fst (b_made ?s))" using b(2) new by (simp add: s is_mine_def)
  moreover have "jobs_ok ?s" using e(1) by (simp add: jobs_ok_def s)
  moreover have "is_mine ?s j \<Longrightarrow> j < b_next ?s" for j using b(3) [of j] by (auto simp: mine s)
  ultimately show ?thesis by (simp add: bot_ok_jobs)
qed

text \<open>An operation that only lets the pool change.\<close>

lemma pool_only_ok:
  assumes "bot_ok b" "jobs_ok b'" "b_next b \<le> b_next b'" "b_made b' = b_made b" "b_args b' = b_args b" "b_ended b' = b_ended b"
    and "b_said b' = b_said b" "destroyed (b_pool b') = destroyed (b_pool b) @ ds" "\<forall>j\<in>set ds. \<not> is_mine b j"
  shows "bot_ok b'"
proof -
  have m: "is_mine b' = is_mine b" "made_ok b' = made_ok b"
    by (simp_all add: is_mine_def made_ok_def answers_def assms(4,7) fun_eq_iff)
  have "filter (is_mine b) ds = []" using assms(9) by (simp add: filter_empty_conv)
  then have "args_ok b'" using assms(1,3,5-9) by (auto simp: bot_ok_jobs args_ok_def m intro: less_le_trans)
  then show ?thesis using assms(1-4) by (auto simp: bot_ok_jobs m dest: less_le_trans)
qed

lemma other_step_ok:
  assumes "bot_ok b"
  shows "\<exists>b'. other_step op b = Inr b' \<and> bot_ok b' \<and> b_made b' = b_made b"
proof (cases op)
  case (OtherJob t)
  have "jobs_ok b" using assms by (simp add: bot_ok_jobs)
  from pool_only_ok [OF assms enqueue_new_ok(1) [OF this, of True t], of "[]"] enqueue_new_ok(2) [OF this, of True t]
  show ?thesis by (simp add: OtherJob other_step_def)
next
  case (OtherJobWorker t)
  have "jobs_ok b" using assms by (simp add: bot_ok_jobs)
  from pool_only_ok [OF assms enqueue_new_ok(1) [OF this, of False t], of "[]"] enqueue_new_ok(2) [OF this, of False t] assms
  show ?thesis by (simp add: OtherJobWorker other_step_def)
next
  case (OtherCancel j)
  have p: "pool_ok (b_pool b)" "calm (b_pool b)" using assms by (simp_all add: bot_ok_def)
  from cancel_step [OF p(1), of j] obtain pool where c: "ThreadPool_cancel j (b_pool b) = Some (Inr pool)" "pool_ok pool" "held pool = held (b_pool b)"
    by blast
  obtain ds where ds: "destroyed pool = destroyed (b_pool b) @ ds" "set ds \<subseteq> {j}" using cancel_destroyed [OF p(1) c(1)] by blast
  have j: "jobs_ok (b\<lparr>b_pool := pool\<rparr>)" using assms c cancel_calm [OF p c(1)] by (simp add: bot_ok_jobs jobs_ok_def)
  have "bot_ok (b\<lparr>b_pool := pool\<rparr>)" if "\<not> is_mine b j"
    using pool_only_ok [OF assms j, of ds] ds that by auto
  with c(1) assms show ?thesis by (simp add: OtherCancel other_step_def)
next
  case OtherTick
  let ?pool = "checkThreadJobs (b_pool b)"
  have p: "pool_ok (b_pool b)" "calm (b_pool b)" using assms by (simp_all add: bot_ok_def)
  have "destroyed ?pool = destroyed (b_pool b)" "calm ?pool"
    using check_loop_keeps [of 0 "p_threads (b_pool b)" "b_pool b"] check_loop_calm [OF p(2)] by (simp_all add: checkThreadJobs_def)
  moreover from this have "jobs_ok (b\<lparr>b_pool := ?pool\<rparr>)" using assms tick_step [OF p(1)] by (simp add: bot_ok_jobs jobs_ok_def)
  ultimately have "bot_ok (b\<lparr>b_pool := ?pool\<rparr>)" using pool_only_ok [OF assms, of "b\<lparr>b_pool := ?pool\<rparr>" "[]"] by simp
  then show ?thesis by (simp add: OtherTick other_step_def)
qed

lemma handler_ok:
  assumes "bot_ok b"
  shows "\<exists>b'. handlerThreadProc t to msg action b = Inr b' \<and> bot_ok b' \<and> b_made b' = b_made b"
proof (cases "\<exists>j. thread_job t b = Some j \<and> is_mine b j")
  case False
  with assms show ?thesis by (auto simp: handlerThreadProc_def split: option.split)
next
  case True
  then obtain j hj where j: "thread_job t b = Some j" "is_mine b j" "b_args b j = Some hj" using thread_job_alive [OF assms] by blast
  let ?hj = "hj\<lparr>hj_e := IrcBotResponse_addMsg to msg action (hj_e hj)\<rparr>"
  let ?m = "\<lparr>rm_to = to, rm_msg = msg, rm_action = action\<rparr>"
  let ?b = "b\<lparr>b_args := (b_args b)(j := Some ?hj), b_said := b_said b @ [(j, ?m)]\<rparr>"
  have m: "is_mine ?b = is_mine b" by (simp add: is_mine_def fun_eq_iff)
  have a: "args_ok b" "j < b_next b" using assms j(2) by (simp_all add: bot_ok_jobs)
  have ans: "answers ?b k = answers b k @ (if k = j then [?m] else [])" for k by (simp add: answers_def)
  have other: "made_ok ?b k x" if "made_ok b k x" "k \<noteq> j" for k x using that by (simp add: made_ok_def ans)
  have said: "made_ok ?b j ?hj"
  proof -
    obtain x where x: "(j, x) \<in> set (b_made b)" "same_event x hj" "IBList_ok (be_messages (hj_e hj))"
        "objs (be_messages (hj_e hj)) = answers b j"
      using args_made [OF a(1) j(3)] by (auto simp: made_ok_def)
    have "be_messages (hj_e ?hj) = IBList_append (be_messages (hj_e hj)) ?m (Some ())" by (simp add: IrcBotResponse_addMsg_def)
    then have "IBList_ok (be_messages (hj_e ?hj))" "objs (be_messages (hj_e ?hj)) = answers ?b j"
      using x(3,4) unfolding ans by (simp_all add: seq.append_ok seq.append_contents)
    moreover have "(j, x) \<in> set (b_made ?b) \<and> same_event x ?hj" using x(1) same_event_add [OF x(2)] by simp
    ultimately show ?thesis unfolding made_ok_def by blast
  qed
  have "args_ok ?b"
  proof (rule args_okI)
    show "b_args ?b k \<noteq> None \<longleftrightarrow> is_mine ?b k \<and> k \<notin> set (destroyed (b_pool ?b))" for k
      using args_alive [OF a(1), of k] args_alive [OF a(1), of j] j(3) unfolding m by auto
    show "made_ok ?b k x" if "b_args ?b k = Some x" for k x
      using that said other args_made [OF a(1), of k x] by (cases "k = j") simp_all
    show "map fst (b_ended ?b) = filter (is_mine ?b) (destroyed (b_pool ?b))" using args_ended [OF a(1)] unfolding m by simp
    show "made_ok ?b k x" if "(k, x, intime) \<in> set (b_ended ?b)" for k x intime
    proof -
      have "k \<in> set (map fst (b_ended b))" using that by force
      then have "k \<in> set (destroyed (b_pool b))" unfolding args_ended [OF a(1)] by simp
      then have "k \<noteq> j" using args_alive [OF a(1), of j] j(3) by auto
      with that other args_ended_made [OF a(1), of k x intime] show ?thesis by simp
    qed
    show "k < b_next ?b" if "(k, x) \<in> set (b_said ?b)" for k x
      using that args_said [OF a(1), of k x] a(2) by auto
  qed
  then have "bot_ok ?b" using assms by (simp add: bot_ok_jobs jobs_ok_def m)
  with j show ?thesis by (simp add: handlerThreadProc_def)
qed

text \<open>The end of a job: for a job of the bot, the handler's answer is handed on and its memory freed.\<close>

lemma reports_ok:
  assumes "bot_ok b"
  shows "\<exists>out b'. job_reports t b = Some (Inr (out, b')) \<and> bot_ok b' \<and> b_made b' = b_made b
    \<and> (\<forall>j. thread_job t b = Some j \<and> is_mine b j \<longrightarrow> out \<noteq> None)
    \<and> (\<forall>hj intime. out = Some (hj, intime) \<longrightarrow> (\<exists>j. thread_job t b = Some j \<and> b_args b j = Some hj
         \<and> made_ok b j hj \<and> intime = hasCompleted (p_jobs (b_pool b) j) \<and> b_args b' j = None))"
proof (cases "thread_job t b")
  case None
  with assms show ?thesis by (simp add: job_reports_def)
next
  case (Some j)
  then have t: "t < length (p_threads (b_pool b))" "p_threads (b_pool b) ! t = Some j" by (auto simp: thread_job_def split: if_splits)
  have b: "jobs_ok b" "args_ok b" using assms by (simp_all add: bot_ok_jobs)
  then obtain pool where d: "threadJobDone t False (b_pool b) = Some (Inr (None, pool))" "pool_ok pool" "calm pool"
      "held pool = held (b_pool b)" "destroyed pool = destroyed (b_pool b) @ [j]"
    using done_exact [OF _ _ t] by (auto simp: jobs_ok_def)
  have pool: "jobs_ok (b\<lparr>b_pool := pool\<rparr>)" using b(1) d by (simp add: jobs_ok_def)
  show ?thesis
  proof (cases "is_mine b j")
    case False
    then have "bot_ok (b\<lparr>b_pool := pool\<rparr>)" using pool_only_ok [OF assms pool, of "[j]"] d(5) by simp
    with Some False d(1) show ?thesis by (simp add: job_reports_def)
  next
    case True
    then obtain hj where hj: "b_args b j = Some hj" using thread_job_alive [OF assms Some] by blast
    let ?intime = "hasCompleted (p_jobs (b_pool b) j)"
    let ?b = "b\<lparr>b_pool := pool, b_args := (b_args b)(j := None), b_ended := b_ended b @ [(j, hj, ?intime)]\<rparr>"
    have run: "job_reports t b = Some (Inr (Some (hj, ?intime), ?b))"
      using Some d(1) True hj by (simp add: job_reports_def destroyBotEvent_def Let_def)
    have m: "is_mine ?b = is_mine b" by (simp add: is_mine_def fun_eq_iff)
    have same: "made_ok ?b k x \<longleftrightarrow> made_ok b k x" for k x by (simp add: made_ok_def answers_def)
    have x: "made_ok b j hj" using args_made [OF b(2) hj] .
    have "args_ok ?b"
    proof (rule args_okI)
      show "b_args ?b k \<noteq> None \<longleftrightarrow> is_mine ?b k \<and> k \<notin> set (destroyed (b_pool ?b))" for k
        using args_alive [OF b(2), of k] unfolding m by (auto simp: d(5))
      show "map fst (b_ended ?b) = filter (is_mine ?b) (destroyed (b_pool ?b))" using args_ended [OF b(2)] True unfolding m by (simp add: d(5))
      show "made_ok ?b k y" if "b_args ?b k = Some y" for k y
        using that args_made [OF b(2), of k y] unfolding same by (simp split: if_splits)
      show "made_ok ?b k y" if "(k, y, it) \<in> set (b_ended ?b)" for k y it
        using that x args_ended_made [OF b(2), of k y it] unfolding same by auto
      show "k < b_next ?b" if "(k, y) \<in> set (b_said ?b)" for k y using that args_said [OF b(2), of k y] by simp
    qed
    moreover have "jobs_ok ?b" using pool by (simp add: jobs_ok_def)
    ultimately have "bot_ok ?b" using assms by (simp add: bot_ok_jobs m)
    with run Some hj x show ?thesis by simp
  qed
qed

end
