(* ===== verification/BotSession.thy ===== *)
theory BotSession
  imports SessionInv SessionLogin BotJobs
begin

text \<open>
  The bot in a session of a server (\<open>ircbot.c\<close> over \<open>ircserver.c\<close>, \<open>connection.c\<close> and
  \<open>threadpool.c\<close>): it listens to the server's events and makes jobs of them, the threads of the pool
  run the handlers, and at the end of a job its answer is handed to the server. The server's
  record is extended by the bot, so all of that happens inside a session.
\<close>

section \<open>The bot as a listener\<close>

text \<open>What the bot is told: by the server, and by its channels.\<close>

datatype bot_note =
    LoggedIn
  | Said "(chan_id, unit) IBHashTable" "unit IrcMessage"   \<comment> \<open>with the table of channels at that time\<close>
  | ChannelJoined chan_id string
  | UserEntered string string
  | UserLeft string string

record 'h bot_server = logged_server +
  bs_bot :: "'h bot_state"
  bs_notes :: "bot_note list"     \<comment> \<open>history: what the bot was told\<close>

definition note_job :: "'h handlers \<Rightarrow> nat \<Rightarrow> string \<Rightarrow> bot_note \<Rightarrow> 'h HandlerJob option option" where
  "note_job handlers server serverId note =
     (case note of
        LoggedIn \<Rightarrow> connected_bot handlers server serverId
      | Said channels m \<Rightarrow> msgReceived handlers server serverId channels m
      | ChannelJoined c name \<Rightarrow> map_option snd (chanJoined_bot handlers server serverId c name)
      | UserEntered name nick \<Rightarrow> userJoined handlers server serverId name nick
      | UserLeft name nick \<Rightarrow> userParted handlers server serverId name nick)"

definition notify :: "'h handlers \<Rightarrow> nat \<Rightarrow> bot_note \<Rightarrow> 'h bot_server \<Rightarrow> 'h bot_server result" where
  "notify handlers server note s =
     (case note_job handlers server (s_id s) note of
        None \<Rightarrow> Inl Endless
      | Some job \<Rightarrow>
          Inr (s\<lparr>bs_bot := (case job of None \<Rightarrow> bs_bot s | Some hj \<Rightarrow> submit hj (bs_bot s)), bs_notes := bs_notes s @ [note]\<rparr>))"

text \<open>
  \<open>startup\<close> registers \<open>connected\<close>, and \<open>msgReceived\<close> for the id \<open>MSG_PRIVMSG\<close>; messages are raised with their
  command as id.
\<close>

definition bot_raise :: "'h handlers \<Rightarrow> nat \<Rightarrow> srv_event \<Rightarrow> 'h bot_server \<Rightarrow> 'h bot_server result" where
  "bot_raise handlers server ev s =
     (case ev of
        EvConnected \<Rightarrow> notify handlers server LoggedIn s
      | EvMsgReceived m \<Rightarrow>
          let s = s\<lparr>l_log := l_log s @ [m]\<rparr> in
          if m_command m = MSG_PRIVMSG then notify handlers server (Said (s_channels s) m) s else Inr s
      | _ \<Rightarrow> Inr s)"

text \<open>
  Besides what can happen in any session: a channel tells the bot about itself, a handler runs
  on a thread, a thread reports, and the other users of the pool use it.
\<close>

datatype bot_op =
    Net server_op
  | ChannelTells bot_note
  | HandlerSays nat string string bool
  | JobReports nat
  | OtherUse other_op

definition from_channel :: "bot_note \<Rightarrow> bool" where
  "from_channel note = (case note of LoggedIn \<Rightarrow> False | Said tab m \<Rightarrow> False | _ \<Rightarrow> True)"

text \<open>What \<open>handlerJobFinished\<close> does with the job a thread reported.\<close>

definition finish_job :: "('h HandlerJob \<times> bool) option \<Rightarrow> 'h bot_server \<Rightarrow> 'h bot_server result" where
  "finish_job out s =
     (case out of
        None \<Rightarrow> Inr s
      | Some (hj, intime) \<Rightarrow> (case handlerJobFinished intime (hj_e hj) s of None \<Rightarrow> Inl Endless | Some r \<Rightarrow> r))"

fun bot_act :: "'h handlers \<Rightarrow> nat \<Rightarrow> bot_op \<Rightarrow> 'h bot_server \<Rightarrow> 'h bot_server result" where
  "bot_act handlers server (Net op) s = Inr s"
| "bot_act handlers server (ChannelTells note) s = (if from_channel note then notify handlers server note s else Inr s)"
| "bot_act handlers server (HandlerSays t to msg action) s =
     bind_result (handlerThreadProc t to msg action (bs_bot s)) (\<lambda>b. Inr (s\<lparr>bs_bot := b\<rparr>))"
| "bot_act handlers server (JobReports t) s =
     (case job_reports t (bs_bot s) of
        None \<Rightarrow> Inl Endless
      | Some r \<Rightarrow> bind_result r (\<lambda>(out, b). finish_job out (s\<lparr>bs_bot := b\<rparr>)))"
| "bot_act handlers server (OtherUse op) s = bind_result (other_step op (bs_bot s)) (\<lambda>b. Inr (s\<lparr>bs_bot := b\<rparr>))"

fun as_bot_op :: "'h handlers \<Rightarrow> nat \<Rightarrow> nat \<Rightarrow> bot_op \<Rightarrow> 'h bot_server owner conn_op" where
  "as_bot_op handlers server conn (Net op) = as_conn_op conn op"
| "as_bot_op handlers server conn op = OpAct (server_act (bot_act handlers server op))"

definition bot_run :: "'h handlers \<Rightarrow> nat \<Rightarrow> passwd option \<Rightarrow> (string \<Rightarrow> passwd option) \<Rightarrow> nat \<Rightarrow> bot_op list
    \<Rightarrow> 'h bot_server owner client_conn \<Rightarrow> 'h bot_server owner client_conn result" where
  "bot_run handlers server pwuid pwnam conn ops =
     conn_run (server_react (bot_raise handlers server) pwuid pwnam conn) (map (as_bot_op handlers server conn) ops)"

section \<open>The contracts\<close>

lemma bot_heard: "heard [] s (s\<lparr>bs_bot := b\<rparr>)" "heard [] s (s\<lparr>bs_bot := b, bs_notes := n\<rparr>)" "heard [] s (s\<lparr>bs_notes := n\<rparr>)"
  "heard [m] s (s\<lparr>l_log := l_log s @ [m]\<rparr>)"
  by (simp_all add: heard_def recv_same_def talks_same)

lemma notify_heard: "notify handlers server note s = Inr s' \<Longrightarrow> heard [] s s'"
  by (auto simp: notify_def bot_heard split: option.splits)

interpretation bot_listener: listener "bot_raise handlers server"
proof
  fix ev and s s' :: "'a bot_server"
  assume r: "bot_raise handlers server ev s = Inr s'"
  show "heard (event_messages ev) s s'"
  proof (cases ev)
    case (EvMsgReceived m)
    have "heard [m] s s'" if "notify handlers server (Said tab m) (s\<lparr>l_log := l_log s @ [m]\<rparr>) = Inr s'" for tab
      using bot_heard(4) [of m s] notify_heard [OF that] by (auto simp: heard_def intro: recv_same_trans talks_trans)
    with r EvMsgReceived show ?thesis by (auto simp: bot_raise_def Let_def bot_heard split: if_splits)
  qed (use r notify_heard in \<open>auto simp: bot_raise_def\<close>)
qed

lemma sendMsg_heard: "IrcServer_sendMsg to message action s = Some (Inr (rc, s')) \<Longrightarrow> heard [] s s'"
  by (auto simp: IrcServer_sendMsg_def Let_def bind_result_eq_Inr send_lines_heard split: if_splits)

lemma finished_keeps:
  assumes "handlerJobFinished intime e s = Some (Inr s')" "I s"
    and "\<And>to message action rc t u. I t \<Longrightarrow> IrcServer_sendMsg to message action t = Some (Inr (rc, u)) \<Longrightarrow> I u"
  shows "I s'"
proof (cases intime)
  case True
  let ?I = "\<lambda>st :: _ result. \<forall>t. st = Inr t \<longrightarrow> I t"
  have "foreach IBListIterator_moveNext IBListIterator_current respond_body (IBList_iterator (be_messages e)) (Inr s) = Some (Inr s')"
    using assms(1) True by (simp add: handlerJobFinished_def)
  then have "?I (Inr s')"
  proof (rule foreach_keeps [where I = ?I])
    fix cur x y assume "?I x" "respond_body cur x = Inl y \<or> respond_body cur x = Inr y"
    then show "?I y" using assms(3) by (auto simp: respond_body_def Let_def bind_result_eq_Inr split: option.splits)
  qed (use assms(2) in simp)
  then show ?thesis by simp
qed (use assms in \<open>simp add: handlerJobFinished_def\<close>)

lemma finish_job_keeps:
  assumes "finish_job out s = Inr s'" "I s"
    and "\<And>to message action rc t u. I t \<Longrightarrow> IrcServer_sendMsg to message action t = Some (Inr (rc, u)) \<Longrightarrow> I u"
  shows "I s'"
proof (cases out)
  case None
  with assms(1,2) show ?thesis by (simp add: finish_job_def)
next
  case (Some p)
  then have "handlerJobFinished (snd p) (hj_e (fst p)) s = Some (Inr s')"
    using assms(1) by (auto simp: finish_job_def split: option.splits prod.splits)
  then show ?thesis using assms(2,3) by (rule finished_keeps)
qed

lemma bot_act_heard:
  assumes "bot_act handlers server op s = Inr s'"
  shows "heard [] s s'"
proof (cases op)
  case (JobReports t)
  then obtain out b where "finish_job out (s\<lparr>bs_bot := b\<rparr>) = Inr s'"
    using assms by (auto simp: bind_result_eq_Inr split: option.splits)
  then show ?thesis
    by (rule finish_job_keeps [where I = "heard [] s"]) (auto simp: bot_heard intro: heard_trans sendMsg_heard)
qed (use assms notify_heard in \<open>auto simp: bot_heard bind_result_eq_Inr split: if_splits\<close>)

section \<open>What is kept\<close>

text \<open>The messages the bot was told of, and the jobs its notes give.\<close>

fun said :: "bot_note list \<Rightarrow> unit IrcMessage list" where
  "said [] = []"
| "said (Said tab m # ns) = m # said ns"
| "said (n # ns) = said ns"

lemma said_append: "said (ns @ ms) = said ns @ said ms"
  by (induction ns rule: said.induct) simp_all

definition note_jobs :: "'h handlers \<Rightarrow> nat \<Rightarrow> string \<Rightarrow> bot_note list \<Rightarrow> 'h HandlerJob list" where
  "note_jobs handlers server serverId notes =
     concat (map (\<lambda>n. case note_job handlers server serverId n of Some (Some hj) \<Rightarrow> [hj] | _ \<Rightarrow> []) notes)"

definition bot_inv :: "'h handlers \<Rightarrow> nat \<Rightarrow> string \<Rightarrow> 'h bot_server \<Rightarrow> bool" where
  "bot_inv handlers server serverId s \<longleftrightarrow>
     s_id s = serverId \<and> bot_ok (bs_bot s)
     \<and> map snd (b_made (bs_bot s)) = note_jobs handlers server serverId (bs_notes s)
     \<and> said (bs_notes s) = filter (\<lambda>m. m_command m = MSG_PRIVMSG) (l_log s)"

lemma bot_inv_rest: "same_rest s t \<Longrightarrow> bot_inv handlers server sid s \<Longrightarrow> bot_inv handlers server sid t"
proof -
  assume r: "same_rest s t" and s: "bot_inv handlers server sid s"
  have "l_log t = l_log s" "bs_bot t = bs_bot s" "bs_notes t = bs_notes s"
    using r by (cases s; cases t; simp add: same_rest_def)+
  with r s show ?thesis by (simp add: bot_inv_def same_rest_def)
qed

text \<open>Every job the bot makes starts with an empty response.\<close>

definition starts :: "nat \<Rightarrow> 'h HandlerJob option \<Rightarrow> bool" where
  "starts server job \<longleftrightarrow>
     (\<forall>hj. job = Some hj \<longrightarrow> be_messages (hj_e hj) = IBList_create \<and> hj_timeout hj = 30 \<and> be_server (hj_e hj) = server)"

lemma starts_None [simp]: "starts server None"
  by (simp add: starts_def)

lemma starts_execute [simp]:
  "starts server (map_option (\<lambda>hdl. executeHandler hdl (createBotEvent ty server og cmd sender arg)) h)"
  by (auto simp: starts_def executeHandler_def createBotEvent_def)

lemma command_starts:
  assumes "handlers_ok handlers"
  shows "\<exists>job. command_job handlers server sid channel sender to message = Some job \<and> starts server job"
proof -
  have g: "\<exists>h. find_generic handlers ty sid channel filt hdl = Some h" for ty channel filt hdl
    by (auto simp: find_generic_def findHandler_find [OF assms])
  then obtain gen where gen: "\<And>ty channel filt hdl. find_generic handlers ty sid channel filt hdl = Some (gen ty channel filt hdl)" by metis
  show ?thesis by (auto simp: command_job_def Let_def findHandler_find [OF assms] gen)
qed

lemma message_starts:
  assumes "handlers_ok handlers"
  shows "\<exists>job. msgReceived handlers server sid tab m = Some job \<and> starts server job"
proof -
  have g: "\<exists>h. find_generic handlers ty sid channel filt hdl = Some h" for ty channel filt hdl
    by (auto simp: find_generic_def findHandler_find [OF assms])
  then obtain gen where gen: "\<And>ty channel filt hdl. find_generic handlers ty sid channel filt hdl = Some (gen ty channel filt hdl)" by metis
  obtain cmd where cmd: "\<And>channel sender to message. command_job handlers server sid channel sender to message = Some (cmd channel sender to message)"
      "\<And>channel sender to message. starts server (cmd channel sender to message)"
    using command_starts [OF assms, of server sid] by metis
  show ?thesis using cmd(2) by (auto simp: msgReceived_def Let_def findHandler_find [OF assms] gen cmd(1))
qed

lemma job_starts:
  assumes "handlers_ok handlers"
  shows "\<exists>job. note_job handlers server sid note = Some job \<and> starts server job"
proof (cases "note")
  case (Said tab m)
  with message_starts [OF assms] show ?thesis by (simp add: note_job_def)
qed (auto simp: note_job_def connected_bot_def chanJoined_bot_def userJoined_def userParted_def findHandler_find [OF assms]
    option.map_comp comp_def)

lemma note_jobs_snoc: "note_job handlers server sid note = Some job \<Longrightarrow>
    note_jobs handlers server sid (ns @ [note]) = note_jobs handlers server sid ns @ (case job of None \<Rightarrow> [] | Some hj \<Rightarrow> [hj])"
  by (simp add: note_jobs_def split: option.split)

lemma submit_made: "map snd (b_made (submit hj b)) = map snd (b_made b) @ [hj]"
  by (simp add: submit_def Let_def)

text \<open>To be told something never fails, and adds at most one job.\<close>

lemma notify_ok:
  assumes "handlers_ok handlers" "s_id s = sid" "bot_ok (bs_bot s)" "map snd (b_made (bs_bot s)) = note_jobs handlers server sid (bs_notes s)"
  shows "\<exists>s'. notify handlers server note s = Inr s' \<and> s_id s' = sid \<and> bot_ok (bs_bot s')
    \<and> map snd (b_made (bs_bot s')) = note_jobs handlers server sid (bs_notes s') \<and> bs_notes s' = bs_notes s @ [note] \<and> l_log s' = l_log s"
proof -
  obtain job where job: "note_job handlers server sid note = Some job" "starts server job" using job_starts [OF assms(1)] by blast
  have "bot_ok (submit hj (bs_bot s))" if "job = Some hj" for hj
    using submit_ok [OF assms(3)] job(2) that by (simp add: starts_def)
  then show ?thesis
    using job(1) assms(2-4) by (cases job) (simp_all add: notify_def note_jobs_snoc submit_made)
qed

lemma bot_raise_ok:
  assumes "handlers_ok handlers" "bot_inv handlers server sid s"
  shows "\<exists>s'. bot_raise handlers server ev s = Inr s' \<and> bot_inv handlers server sid s'"
proof -
  have s: "s_id s = sid" "bot_ok (bs_bot s)" "map snd (b_made (bs_bot s)) = note_jobs handlers server sid (bs_notes s)"
      "said (bs_notes s) = filter (\<lambda>m. m_command m = MSG_PRIVMSG) (l_log s)"
    using assms(2) by (simp_all add: bot_inv_def)
  show ?thesis
  proof (cases ev)
    case EvConnected
    from notify_ok [OF assms(1) s(1-3), of LoggedIn] s(4) EvConnected show ?thesis
      by (auto simp: bot_raise_def bot_inv_def said_append)
  next
    case (EvMsgReceived m)
    let ?s = "s\<lparr>l_log := l_log s @ [m]\<rparr>"
    have "s_id ?s = sid" "bot_ok (bs_bot ?s)" "map snd (b_made (bs_bot ?s)) = note_jobs handlers server sid (bs_notes ?s)"
      using s(1-3) by simp_all
    from notify_ok [OF assms(1) this, of "Said (s_channels s) m"] s EvMsgReceived show ?thesis
      by (auto simp: bot_raise_def bot_inv_def said_append Let_def)
  qed (use assms(2) in \<open>auto simp: bot_raise_def\<close>)
qed

lemma channel_note: "from_channel note \<Longrightarrow> said (ns @ [note]) = said ns"
  by (cases "note") (simp_all add: from_channel_def said_append)

text \<open>The parts of the bot's own operations that do not talk to the server never fail.\<close>

lemma bot_inv_bot:
  assumes "bot_inv handlers server sid s" "bot_ok b" "b_made b = b_made (bs_bot s)"
  shows "bot_inv handlers server sid (s\<lparr>bs_bot := b\<rparr>)"
  using assms by (simp add: bot_inv_def)

lemma sendMsg_inv:
  "IrcServer_sendMsg to message action t = Some (Inr (rc, u)) \<Longrightarrow> bot_inv handlers server sid t \<Longrightarrow> bot_inv handlers server sid u"
  using bot_inv_rest rest_sendMsg by blast

lemma bot_act_inv:
  assumes "handlers_ok handlers" "bot_inv handlers server sid s" "bot_act handlers server op s = Inr s'"
  shows "bot_inv handlers server sid s'"
proof -
  have b: "bot_ok (bs_bot s)" using assms(2) by (simp add: bot_inv_def)
  show ?thesis
  proof (cases op)
    case (ChannelTells n)
    with assms channel_note [of n "bs_notes s"] notify_ok [OF assms(1), of s sid server n] show ?thesis
      by (auto simp: bot_inv_def split: if_splits)
  next
    case (HandlerSays t to msg action)
    with assms(3) handler_ok [OF b, of t to msg action] bot_inv_bot [OF assms(2)] show ?thesis by auto
  next
    case (JobReports t)
    obtain out b' where r: "job_reports t (bs_bot s) = Some (Inr (out, b'))" "bot_ok b'" "b_made b' = b_made (bs_bot s)"
      using reports_ok [OF b, of t] by metis
    have "finish_job out (s\<lparr>bs_bot := b'\<rparr>) = Inr s'" using assms(3) JobReports r(1) by simp
    then show ?thesis
      by (rule finish_job_keeps [where I = "bot_inv handlers server sid"]) (use bot_inv_bot [OF assms(2) r(2,3)] sendMsg_inv in auto)
  next
    case (OtherUse op)
    with assms(3) other_step_ok [OF b, of op] bot_inv_bot [OF assms(2)] show ?thesis by auto
  qed (use assms in simp)
qed

interpretation bot_kept: kept "bot_raise handlers server" pwuid pwnam conn
  "\<lambda>s. handlers_ok handlers \<longrightarrow> bot_inv handlers server serverId s"
  for handlers server pwuid pwnam conn serverId
proof (unfold_locales, goal_cases)
  case (1 ev s t)
  then show ?case using bot_raise_ok [of handlers server serverId s ev] by auto
next
  case (2 s t)
  then show ?case using bot_inv_rest by blast
qed

lemma bot_op_keeping: "keeping (\<lambda>s. handlers_ok handlers \<longrightarrow> bot_inv handlers server serverId s) conn (as_bot_op handlers server conn op)"
proof -
  have "keeping (\<lambda>s. handlers_ok handlers \<longrightarrow> bot_inv handlers server serverId s) conn (OpAct (server_act (bot_act handlers server op)))"
    using bot_act_heard bot_act_inv by (intro keeping_act) (blast intro: asksI)
  then show ?thesis by (cases op) simp_all
qed

text \<open>A bot that was just started, with a new pool of threads.\<close>

definition new_listener :: "'h bot_server \<Rightarrow> bool" where
  "new_listener s \<longleftrightarrow> fresh s \<and> bs_notes s = []
     \<and> (\<exists>nthreads qsize mem. bs_bot s = new_bot nthreads qsize mem \<and> 0 < nthreads \<and> 0 < qsize
          \<and> (\<forall>j. panicmsg (p_jobs mem j) = None) \<and> p_calls mem = [])"

lemma new_listener_inv: "new_listener s \<Longrightarrow> fresh s \<and> bot_inv handlers server (s_id s) s"
  using new_bot_ok by (auto simp: new_listener_def bot_inv_def note_jobs_def fresh_def)

lemma bot_run_ok:
  assumes "handlers_ok handlers" "new_listener s"
  shows "\<exists>c. bot_run handlers server pwuid pwnam conn ops (session conn tls addr host numeric active mem s) = Inr c
    \<and> good (session_ok conn) c \<and> (\<forall>t. o_server (cl_user c) = Inr t \<longrightarrow> bot_inv handlers server (s_id s) t)"
proof -
  have all: "list_all (keeping (\<lambda>t. handlers_ok handlers \<longrightarrow> bot_inv handlers server (s_id s) t) conn) (map (as_bot_op handlers server conn) ops)"
    by (auto simp: list_all_iff bot_op_keeping)
  show ?thesis
    using bot_kept.session_kept [OF _ _ all] new_listener_inv [OF assms(2)] assms(1) unfolding bot_run_def by auto
qed

section \<open>From the bytes to the jobs\<close>


section \<open>Each event once\<close>

text \<open>C6: no job of the bot is lost or answered twice, and no event is used after it was freed. In every
  such session each job that was created is exactly one of: running, waiting, ended, or refused by a full
  queue; the argument of a job of the bot is alive exactly until its job ends, and every job that ended
  was handed to \<open>handlerJobFinished\<close> once, with the event it was made with and a response that holds exactly the
  messages its handler added, in order.\<close>

theorem bot_events_once:
  assumes "handlers_ok handlers" "new_listener s0"
    and "bot_run handlers server pwuid pwnam conn ops (session conn tls addr host numeric active mem s0) = Inr c"
    and "o_server (cl_user c) = Inr s"
  shows "let b = bs_bot s; pool = b_pool b in
      mset (some_list (p_threads pool)) + mset (waiting (p_jq pool)) + mset (destroyed pool) + mset (b_refused b) = mset [0..<b_next b]
    \<and> distinct (map fst (b_made b))
    \<and> (\<forall>j hj. (j, hj) \<in> set (b_made b) \<longrightarrow> (b_args b j \<noteq> None \<longleftrightarrow> j \<notin> set (destroyed pool)))
    \<and> map fst (b_ended b) = filter (is_mine b) (destroyed pool)
    \<and> (\<forall>j hj intime. (j, hj, intime) \<in> set (b_ended b) \<longrightarrow> objs (be_messages (hj_e hj)) = answers b j
         \<and> (\<exists>made. (j, made) \<in> set (b_made b) \<and> same_event made hj))"
proof -
  have "bot_inv handlers server (s_id s0) s"
    using bot_run_ok [OF assms(1,2)] assms(3,4) by (metis sum.inject(2))
  then have b: "jobs_ok (bs_bot s)" "distinct (map fst (b_made (bs_bot s)))" "args_ok (bs_bot s)"
    by (simp_all add: bot_inv_def bot_ok_jobs)
  have "b_args (bs_bot s) j \<noteq> None \<longleftrightarrow> j \<notin> set (destroyed (b_pool (bs_bot s)))" if "(j, hj) \<in> set (b_made (bs_bot s))" for j hj
    using args_alive [OF b(3), of j] that by (force simp: is_mine_def)
  moreover have "objs (be_messages (hj_e hj)) = answers (bs_bot s) j \<and> (\<exists>made. (j, made) \<in> set (b_made (bs_bot s)) \<and> same_event made hj)"
    if "(j, hj, intime) \<in> set (b_ended (bs_bot s))" for j hj intime
    using args_ended_made [OF b(3) that] by (simp add: made_ok_def)
  ultimately show ?thesis using b(1,2) args_ended [OF b(3)] unfolding Let_def jobs_ok_def held_def by blast
qed

section \<open>The answers\<close>

lemma modest_open: "list_all (modest k) cs \<Longrightarrow> closed_in cs = None"
  by (induction cs rule: closed_in.induct) (auto simp: modest_def)

lemma heard_open: "heard [] s s' \<Longrightarrow> closed_in (new_calls s s') = None"
  by (auto simp: heard_def talks_def new_calls_append intro: modest_open)

text \<open>An act of the bot in a server that works.\<close>

lemma bot_step:
  assumes "o_server (cl_user c) = Inr s" "bot_act handlers server op s = Inr u" "\<forall>n. op \<noteq> Net n"
  shows "\<exists>d. conn_step react (as_bot_op handlers server conn op) c = Inr d \<and> o_server (cl_user d) = Inr u"
proof -
  have op: "as_bot_op handlers server conn op = OpAct (server_act (bot_act handlers server op))"
    using assms(3) by (cases op) simp_all
  show ?thesis
    unfolding op using assms(1,2) heard_open [OF bot_act_heard [OF assms(2)]] by (simp add: server_act_def Let_def do_all)
qed

lemma bot_run_last:
  "bot_run handlers server pwuid pwnam conn ops c0 = Inr c \<Longrightarrow>
    conn_step (server_react (bot_raise handlers server) pwuid pwnam conn) (as_bot_op handlers server conn op) c = Inr d \<Longrightarrow>
    bot_run handlers server pwuid pwnam conn (ops @ [op]) c0 = Inr d"
  by (simp add: bot_run_def run_append)

lemma extend_same:
  "written (s\<lparr>bs_bot := b\<rparr>) = written s" "pending (s\<lparr>bs_bot := b\<rparr>) = pending s" "send_ok conn (s\<lparr>bs_bot := b\<rparr>) = send_ok conn s"
  "op_lines (msg_op m) (s\<lparr>bs_bot := b\<rparr>) = op_lines (msg_op m) s"
  by (simp_all add: written_def pending_def send_ok_def)

text \<open>C4: the answer to a message gets out: in every session in which the server is connected, when a thread
  reports the end of a job of the bot and there is room in the send queue, the lines of exactly the
  messages that its handler added are handed in behind everything before them, when it was in time, and
  nothing otherwise; the lines written so far are on the wire or wait in the connection whole and in order;
  and the event is freed.\<close>

theorem bot_answers:
  assumes "handlers_ok handlers" "new_listener s0"
    and "bot_run handlers server pwuid pwnam conn ops (session conn tls addr host numeric active mem s0) = Inr c"
    and "o_server (cl_user c) = Inr s" "send_ok conn s" "thread_job t (bs_bot s) = Some j" "is_mine (bs_bot s) j"
    and "lines = concat (map (\<lambda>m. op_lines (msg_op m) s) (answers (bs_bot s) j))" "length (pending s) + length lines \<le> QUEUEINITIALCAPA"
  shows "\<exists>d u. bot_run handlers server pwuid pwnam conn (ops @ [JobReports t]) (session conn tls addr host numeric active mem s0) = Inr d
    \<and> o_server (cl_user d) = Inr u
    \<and> written u @ pending u = written s @ pending s @ (if hasCompleted (p_jobs (b_pool (bs_bot s)) j) then lines else [])
    \<and> c_wire d @ unsent d = concat (written u) \<and> b_args (bs_bot u) j = None"
proof -
  let ?b = "bs_bot s" and ?intime = "hasCompleted (p_jobs (b_pool (bs_bot s)) j)"
  have "bot_ok ?b" using bot_run_ok [OF assms(1,2)] assms(3,4) by (metis bot_inv_def sum.inject(2))
  from reports_ok [OF this, of t] assms(6,7) obtain hj b' where
    r: "job_reports t ?b = Some (Inr (Some (hj, ?intime), b'))" "made_ok ?b j hj" "b_args b' j = None" by auto
  have l: "IBList_ok (be_messages (hj_e hj))" "objs (be_messages (hj_e hj)) = answers ?b j" using r(2) by (simp_all add: made_ok_def)
  let ?s = "s\<lparr>bs_bot := b'\<rparr>"
  have lines: "concat (map (\<lambda>m. op_lines (msg_op m) ?s) (answers ?b j)) = lines" unfolding extend_same by (simp add: assms(8))
  have "send_ok conn ?s" using assms(5) by (simp add: extend_same)
  from respond_run [OF this, of "answers ?b j", unfolded lines] assms(9) obtain u where
    u: "send_run conn (map msg_op (answers ?b j)) ?s = Inr u" "handed_in conn ?s lines u"
    unfolding extend_same by blast
  have fin: "handlerJobFinished ?intime (hj_e hj) ?s = Some (Inr (if ?intime then u else ?s))"
    using u(1) by (simp add: handlerJobFinished_def foreach_objs [OF l(1)] l(2) fold_respond [of _ ?s conn])
  have act: "bot_act handlers server (JobReports t) s = Inr (if ?intime then u else ?s)"
    using r(1) fin by (simp add: finish_job_def)
  have "same_rest ?s (if ?intime then u else ?s)"
    using fin by (rule finished_keeps) (auto intro: same_rest_trans rest_sendMsg)
  then have bot: "bs_bot (if ?intime then u else ?s) = b'"
    by (cases "if ?intime then u else ?s"; cases s) (simp add: same_rest_def)
  obtain d where d: "conn_step (server_react (bot_raise handlers server) pwuid pwnam conn) (as_bot_op handlers server conn (JobReports t)) c = Inr d"
      "o_server (cl_user d) = Inr (if ?intime then u else ?s)"
    using bot_step [OF assms(4) act, of "server_react (bot_raise handlers server) pwuid pwnam conn" conn] by blast
  note run = bot_run_last [OF assms(3) d(1)]
  have "good (session_ok conn) d"
    using bot_run_ok [OF assms(1,2)] run by (metis sum.inject(2))
  from session_bytes(1) [OF this d(2)] run d(2) u(2) bot r(3) show ?thesis
    by (intro exI [of _ d] exI [of _ "if ?intime then u else ?s"]) (simp add: handed_in_def extend_same)
qed

section \<open>Witnesses\<close>

definition demo_stream :: string where
  "demo_stream = '':s 004 bot s v'' @ CRLF @ '':joe!j@h PRIVMSG bot :hi'' @ CRLF"

definition demo_private :: "unit IrcMessage" where
  "demo_private = \<lparr>m_prefix = Some ''joe!j@h'', m_rawCmd = ''PRIVMSG'', m_rawParams = Some ''bot :hi'',
     m_params = foldl (\<lambda>l x. IBList_append l x (Some ())) IBList_create [''bot'', ''hi''], m_command = MSG_PRIVMSG\<rparr>"

lemma demo_messages: "stream_messages demo_stream = [demo_welcome, demo_private]"
  by code_simp

lemma demo_job:
  assumes "IBHashTable_get tab ''bot'' = None"
  shows "\<exists>hj. msgReceived demo_handlers 0 ''s'' tab demo_private = Some (Some hj) \<and> h_handler (hj_hdl hj) = 2 \<and> be_arg (hj_e hj) = Some ''hi''
    \<and> be_from (hj_e hj) = Some ''joe''"
proof -
  have p: "IBList_ok (m_params demo_private)" "objs (m_params demo_private) = [''bot'', ''hi'']"
    unfolding demo_private_def by (simp_all add: seq.build del: foldl.simps)
  have c: "command_of False ''hi'' = Some (''hi'', None)" by code_simp
  have s: "strcspn ''joe!j@h'' ''!'' = 3" by code_simp
  have t: "is_cstr ''hi''" by (simp add: is_cstr_def)
  note g = find_generic_pick [OF demo_handlers_list(1), unfolded findHandler_find [OF demo_handlers_list(1)], simplified]
  show ?thesis
    using assms
    by (simp add: msgReceived_def Let_def IBList_size_objs [OF p(1)] IBList_at_objs [OF p(1)] p(2) command_job_pick [OF demo_handlers_list(1) t] c
      findHandler_find [OF demo_handlers_list(1)] g demo_handlers_list(2) pick_def handles_def find_generic_def)
     (simp add: executeHandler_def createBotEvent_def demo_private_def s)
qed

lemma demo_login: "connected_bot demo_handlers 0 ''s'' = Some None"
  by (simp add: connected_bot_def findHandler_find [OF demo_handlers_list(1)] demo_handlers_list(2) handles_def)

text \<open>A server with a bot on a pool with one thread, on any memory.\<close>

definition demo_bot :: "nat bot_server" where
  "demo_bot = \<lparr>s_id = ''s'', s_remotehost = ''h'', s_tls = None, s_name = None, s_nick = ''bot'', s_user = Some ''me'',
     s_realname = Some ''Me'', s_channels = IBHashTable_create 6, s_conn = None, s_sendQueue = None,
     s_sendcmd = None, s_proto = CP_ANY, s_port = 6667, s_sending = False, s_connst = 0, s_loginticks = 0,
     s_reconnticks = 0, s_idleticks = 0, s_sendcreditticks = 0, s_recvbufsz = 0,
     s_recvbuf = replicate RECVBUFSZ NUL, s_livechans = [], s_nextchan = 0, s_calls = [], l_log = [],
     bs_bot = new_bot 1 1 \<lparr>p_live = False, p_threads = [], p_jq = queue_init 0, p_jobs = \<lambda>_. ThreadJob_create 30, p_calls = []\<rparr>,
     bs_notes = []\<rparr>"

lemma demo_bot_new: "new_listener demo_bot"
  unfolding new_listener_def
proof (intro conjI)
  let ?mem = "\<lparr>p_live = False, p_threads = [], p_jq = queue_init 0, p_jobs = \<lambda>_. ThreadJob_create 30, p_calls = []\<rparr>"
  show "\<exists>nthreads qsize mem. bs_bot demo_bot = new_bot nthreads qsize mem \<and> 0 < nthreads \<and> 0 < qsize
          \<and> (\<forall>j. panicmsg (p_jobs mem j) = None) \<and> p_calls mem = []"
    by (intro exI [of _ 1] exI [of _ ?mem]) (simp add: demo_bot_def ThreadJob_create_def)
qed (simp_all add: demo_bot_def fresh_def)

definition bot_demo_answers :: sys_answers where
  "bot_demo_answers = \<lparr>sa_failed = False, sa_handshake = Again WANT_WRITE, sa_write = Ready 600, sa_read = Ready demo_stream\<rparr>"

lemma demo_handled:
  assumes "s_id s = ''s''" "s_channels s = IBHashTable_create 6" "bs_bot s = bs_bot demo_bot"
  shows "\<exists>u. handle_all (bot_raise demo_handlers 0) [demo_welcome, demo_private] s = Inr u \<and> s_connst u = 1
    \<and> thread_job 0 (bs_bot u) = Some 0 \<and> is_mine (bs_bot u) 0 \<and> b_args (bs_bot u) 0 \<noteq> None \<and> b_said (bs_bot u) = [] \<and> hasCompleted (p_jobs (b_pool (bs_bot u)) 0)
    \<and> written u = written s \<and> pending u = pending s \<and> s_sendQueue u = s_sendQueue s \<and> s_conn u = s_conn s"
proof -
  have c: "m_command demo_welcome = RPL_MYINFO" "m_command demo_private = MSG_PRIVMSG" by (simp_all add: demo_welcome_def demo_private_def)
  have none: "IBHashTable_get (IBHashTable_create 6 :: (chan_id, unit) IBHashTable) ''bot'' = None" by code_simp
  obtain hj where hj: "msgReceived demo_handlers 0 ''s'' (IBHashTable_create 6 :: (chan_id, unit) IBHashTable) demo_private = Some (Some hj)" using demo_job [OF none] by blast
  have sub: "thread_job 0 (submit hj (bs_bot demo_bot)) = Some 0" "is_mine (submit hj (bs_bot demo_bot)) 0"
      "b_args (submit hj (bs_bot demo_bot)) 0 = Some hj"
      "b_said (submit hj (bs_bot demo_bot)) = []" "hasCompleted (p_jobs (b_pool (submit hj (bs_bot demo_bot))) 0)"
    by (simp_all add: demo_bot_def new_bot_def submit_def enqueue_new_def Let_def ThreadPool_init_def ThreadPool_enqueue_def set_job_def
        startThreadJob_def log_pool_def thread_job_def is_mine_def ThreadJob_create_def)
  show ?thesis
  proof -
    let ?x = "call (RegTick ActiveTick) (call (UnregTick ConnWaitLogin)
        (s\<lparr>s_name := IB_copystr (IBList_at (m_params demo_welcome) 1), s_connst := 1, s_sendcreditticks := FULLSENDCREDIT\<rparr>))"
    let ?y = "?x\<lparr>bs_notes := bs_notes s @ [LoggedIn], l_log := l_log s @ [demo_welcome]\<rparr>"
    let ?z = "?y\<lparr>l_log := l_log s @ [demo_welcome, demo_private]\<rparr>"
    let ?u = "?z\<lparr>bs_bot := submit hj (bs_bot demo_bot), bs_notes := bs_notes s @ [LoggedIn, Said (IBHashTable_create 6) demo_private]\<rparr>"
    have x: "s_id ?x = ''s''" "bs_notes ?x = bs_notes s" "bs_bot ?x = bs_bot s" "l_log ?x = l_log s"
      using assms by (simp_all add: call_def)
    have "notify demo_handlers 0 LoggedIn ?x = Inr (?x\<lparr>bs_notes := bs_notes s @ [LoggedIn]\<rparr>)"
      by (simp only: notify_def x note_job_def bot_note.case demo_login option.case) (simp add: call_def)
    then have 1: "handleMessage (bot_raise demo_handlers 0) demo_welcome s = Inr ?y"
      by (simp add: handleMessage_def c demo_params bot_raise_def Let_def)
    have z: "s_id ?z = ''s''" "bs_notes ?z = bs_notes s @ [LoggedIn]" "bs_bot ?z = bs_bot demo_bot" "s_channels ?z = IBHashTable_create 6"
      using assms by (simp_all add: call_def)
    have "notify demo_handlers 0 (Said (IBHashTable_create 6) demo_private) ?z = Inr ?u"
      by (simp only: notify_def z note_job_def bot_note.case hj option.case) simp
    then have 2: "handleMessage (bot_raise demo_handlers 0) demo_private ?y = Inr ?u"
      using assms(2) by (simp add: handleMessage_def c bot_raise_def Let_def call_def)
    show ?thesis using sub 1 2
      by (intro exI [of _ ?u]) (simp add: call_def written_def pending_def written_in_append)
  qed
qed

abbreviation (input) demo_session :: "nat bot_server owner client_conn \<Rightarrow> nat bot_server owner client_conn" where
  "demo_session mem \<equiv> session 7 False ''A'' ''a'' False False mem demo_bot"

abbreviation (input) bot_demo_ops :: "bot_op list" where
  "bot_demo_ops \<equiv> [Net (OnWritable bot_demo_answers), Net (OnReadable bot_demo_answers), HandlerSays 0 ''joe'' ''hello'' False]"

text \<open>The connection is established, the server lets the bot in, joe says something and a handler answers.\<close>

lemma demo_steps:
  "\<exists>c u. bot_run demo_handlers 0 None (\<lambda>_. None) 7 bot_demo_ops (demo_session mem) = Inr c
    \<and> o_server (cl_user c) = Inr u \<and> send_ok 7 u \<and> written u = [] \<and> pending u = [] \<and> s_connst u = 1
    \<and> thread_job 0 (bs_bot u) = Some 0 \<and> is_mine (bs_bot u) 0 \<and> hasCompleted (p_jobs (b_pool (bs_bot u)) 0)
    \<and> answers (bs_bot u) 0 = [\<lparr>rm_to = ''joe'', rm_msg = ''hello'', rm_action = False\<rparr>]"
proof -
  let ?react = "server_react (bot_raise demo_handlers 0) None (\<lambda>_. None) 7" and ?t = "connected_server 7 demo_bot"
  let ?P = "\<lambda>u. s_connst u = 1 \<and> thread_job 0 (bs_bot u) = Some 0 \<and> is_mine (bs_bot u) 0 \<and> b_args (bs_bot u) 0 \<noteq> None
    \<and> b_said (bs_bot u) = [] \<and> hasCompleted (p_jobs (b_pool (bs_bot u)) 0) \<and> written u = [] \<and> pending u = [] \<and> send_ok 7 u"
  have fresh: "fresh demo_bot" using demo_bot_new by (simp add: new_listener_def)
  have t: "send_ok 7 ?t" "written ?t = []" "pending ?t = []"
    using greeted_fresh [OF fresh, of 7] by (simp_all add: greeted_def send_ok_def)
  have answers: "\<not> sa_failed bot_demo_answers" "sa_read bot_demo_answers = Ready demo_stream" "take CONNBUFSZ demo_stream = demo_stream"
      "length demo_stream \<le> 4096"
    by (simp_all add: bot_demo_answers_def demo_stream_def)
  have handled: "\<exists>u. handle_all (bot_raise demo_handlers 0) (stream_messages demo_stream)
      (?t\<lparr>s_idleticks := IDLETICKS, s_recvbuf := buf, s_recvbufsz := n\<rparr>) = Inr u \<and> s_connst u \<noteq> -1 \<and> ?P u" for buf n
  proof -
    let ?s = "?t\<lparr>s_idleticks := IDLETICKS, s_recvbuf := buf, s_recvbufsz := n\<rparr>"
    have s: "s_id ?s = ''s''" "s_channels ?s = IBHashTable_create 6" "bs_bot ?s = bs_bot demo_bot"
      by (simp_all add: connConnected_def IrcServer_connect_def demo_bot_def call_def Let_def)
    from demo_handled [OF s] t show ?thesis unfolding demo_messages by (auto simp: send_ok_def written_def pending_def)
  qed
  have kept: "?P u \<Longrightarrow> ?P (recv_keep pos u)" for pos u
    by (simp add: recv_keep_def send_ok_def written_def pending_def)
  from first_data [OF fresh answers handled kept, of None "\<lambda>_. None" "''A''" "''a''" False False mem] obtain c u where
    c: "conn_run ?react [OpWritable bot_demo_answers, OpReadable bot_demo_answers] (demo_session mem) = Inr c"
      "o_server (cl_user c) = Inr u" "?P u"
    by auto
  obtain hj where hj: "b_args (bs_bot u) 0 = Some hj" using c(3) by blast
  let ?m = "\<lparr>rm_to = ''joe'', rm_msg = ''hello'', rm_action = False\<rparr>"
  let ?b = "(bs_bot u)\<lparr>b_args := (b_args (bs_bot u))(0 := Some (hj\<lparr>hj_e := IrcBotResponse_addMsg ''joe'' ''hello'' False (hj_e hj)\<rparr>)),
      b_said := b_said (bs_bot u) @ [(0, ?m)]\<rparr>"
  have says: "bot_act demo_handlers 0 (HandlerSays 0 ''joe'' ''hello'' False) u = Inr (u\<lparr>bs_bot := ?b\<rparr>)"
    using c(3) by (simp add: handlerThreadProc_def hj)
  obtain e where e: "conn_step ?react (as_bot_op demo_handlers 0 7 (HandlerSays 0 ''joe'' ''hello'' False)) c = Inr e"
      "o_server (cl_user e) = Inr (u\<lparr>bs_bot := ?b\<rparr>)"
    using bot_step [OF c(2) says, of ?react 7] by auto
  have "bot_run demo_handlers 0 None (\<lambda>_. None) 7 [Net (OnWritable bot_demo_answers), Net (OnReadable bot_demo_answers)] (demo_session mem) = Inr c"
    using c(1) by (simp add: bot_run_def)
  from bot_run_last [OF this e(1)] have "bot_run demo_handlers 0 None (\<lambda>_. None) 7 bot_demo_ops (demo_session mem) = Inr e" by simp
  moreover have "thread_job 0 ?b = Some 0" "is_mine ?b 0" "answers ?b 0 = [?m]" "hasCompleted (p_jobs (b_pool ?b) 0)"
    using c(3) by (simp_all add: thread_job_def is_mine_def answers_def split: if_splits)
  ultimately show ?thesis using e(2) c(3)
    by (intro exI [of _ e] exI [of _ "u\<lparr>bs_bot := ?b\<rparr>"]) (simp add: extend_same)
qed


theorem bot_events_once_witness:
  "\<forall>mem. \<exists>c u. bot_run demo_handlers 0 None (\<lambda>_. None) 7 bot_demo_ops (demo_session mem) = Inr c \<and> o_server (cl_user c) = Inr u
    \<and> mset (some_list (p_threads (b_pool (bs_bot u)))) + mset (waiting (p_jq (b_pool (bs_bot u)))) + mset (destroyed (b_pool (bs_bot u)))
       + mset (b_refused (bs_bot u)) = mset [0..<b_next (bs_bot u)]"
proof
  fix mem
  obtain c u where c: "bot_run demo_handlers 0 None (\<lambda>_. None) 7 bot_demo_ops (demo_session mem) = Inr c" "o_server (cl_user c) = Inr u"
    using demo_steps [of mem] by blast
  with bot_events_once [OF demo_handlers_list(1) demo_bot_new c]
  show "\<exists>c u. bot_run demo_handlers 0 None (\<lambda>_. None) 7 bot_demo_ops (demo_session mem) = Inr c \<and> o_server (cl_user c) = Inr u
    \<and> mset (some_list (p_threads (b_pool (bs_bot u)))) + mset (waiting (p_jq (b_pool (bs_bot u)))) + mset (destroyed (b_pool (bs_bot u)))
       + mset (b_refused (bs_bot u)) = mset [0..<b_next (bs_bot u)]"
    unfolding Let_def by blast
qed

theorem bot_answers_witness:
  "\<forall>mem. \<exists>d u. bot_run demo_handlers 0 None (\<lambda>_. None) 7 (bot_demo_ops @ [JobReports 0]) (demo_session mem) = Inr d \<and> o_server (cl_user d) = Inr u
    \<and> written u @ pending u = [''PRIVMSG joe :hello'' @ CRLF]"
proof
  fix mem
  obtain c u where c: "bot_run demo_handlers 0 None (\<lambda>_. None) 7 bot_demo_ops (demo_session mem) = Inr c" "o_server (cl_user c) = Inr u"
      "send_ok 7 u" "written u = []" "pending u = []" "s_connst u = 1" "thread_job 0 (bs_bot u) = Some 0" "is_mine (bs_bot u) 0"
      "hasCompleted (p_jobs (b_pool (bs_bot u)) 0)" "answers (bs_bot u) 0 = [\<lparr>rm_to = ''joe'', rm_msg = ''hello'', rm_action = False\<rparr>]"
    using demo_steps [of mem] by blast
  have one: "chunk_lines pre suf k m = Some [pre @ m @ suf]" if "m \<noteq> []" "length m \<le> k" for pre suf k m
    using that by (simp add: chunk_lines.simps [of pre suf k m] chunk_lines.simps [of pre suf k "[]"] Let_def)
  have lines: "concat (map (\<lambda>m. op_lines (msg_op m) u) (answers (bs_bot u) 0)) = [''PRIVMSG joe :hello'' @ CRLF]"
    by (simp add: c(6,10) one msg_prefix_def msg_suffix_def)
  have "length (pending u) + length [''PRIVMSG joe :hello'' @ CRLF] \<le> QUEUEINITIALCAPA" by (simp add: c(5))
  from bot_answers [OF demo_handlers_list(1) demo_bot_new c(1,2,3,7,8) lines [symmetric] this] c(4,5,9)
  show "\<exists>d u. bot_run demo_handlers 0 None (\<lambda>_. None) 7 (bot_demo_ops @ [JobReports 0]) (demo_session mem) = Inr d \<and> o_server (cl_user d) = Inr u
    \<and> written u @ pending u = [''PRIVMSG joe :hello'' @ CRLF]"
    by auto
qed

end
