(* ===== verification/ServerFaults.thy ===== *)
theory ServerFaults
  imports ServerSend
begin

text \<open>
  Where \<open>src/lib/ircbot/ircserver.c\<close> does not do what it means to: leaving a channel, losing a
  connection while a write is outstanding, and losing it while logged in.
\<close>

section \<open>Leaving a channel\<close>

lemma chain_delete_after_set:
  "chain_set key x d chain = (calls, found, chain') \<Longrightarrow> \<exists>rest. chain_delete key chain' = Some (call_deleter d x, rest)"
  by (induction chain arbitrary: calls found chain') (auto split: if_splits prod.splits)

lemma delete_after_set:
  assumes "IBHashTable_ok t"
  shows "\<exists>t'. IBHashTable_delete (snd (IBHashTable_set t key x (Some d))) key = (True, [(d, x)], t')"
proof -
  let ?h = "bucket_index t key"
  obtain calls found chain' where c: "chain_set key x (Some d) (ht_bucket t ! ?h) = (calls, found, chain')"
    by (cases "chain_set key x (Some d) (ht_bucket t ! ?h)") auto
  define t1 where "t1 = snd (IBHashTable_set t key x (Some d))"
  have h: "?h < length (ht_bucket t)" using bucket_index_bound [OF assms] .
  have "bucket_index t1 key = ?h" "ht_bucket t1 ! ?h = chain'"
    using c h by (simp_all add: t1_def IBHashTable_set_def Let_def bucket_index_def)
  moreover obtain rest where "chain_delete key chain' = Some ([(d, x)], rest)"
    using chain_delete_after_set [OF c] by (auto simp: call_deleter_def)
  ultimately show ?thesis by (simp add: t1_def [symmetric] IBHashTable_delete_def Let_def)
qed


lemma join_new_channel:
  assumes "IBHashTable_get (s_channels s) name = None"
  shows "s_channels (IrcServer_join name s) = snd (IBHashTable_set (s_channels s) name (s_nextchan s) (Some ()))"
    "s_livechans (IrcServer_join name s) = s_nextchan s # s_livechans s"
  using assms by (simp_all add: IrcServer_join_def chan_new_def Let_def call_def)

lemma chan_unreg_select [simp]:
  "s_channels (chan_unreg c s) = s_channels s" "s_livechans (chan_unreg c s) = s_livechans s"
  by (simp_all add: chan_unreg_def call_def)

text \<open>Leaving a channel destroys it twice. After a join of a channel the server does not
  know yet, the part that follows destroys the channel itself and then deletes its table
  entry, the deleter of which destroys the same channel again.\<close>

theorem part_destroys_twice:
  assumes "IBHashTable_ok (s_channels s)" "IBHashTable_get (s_channels s) name = None"
    and "s_nextchan s \<notin> set (s_livechans s)"
  shows "IrcServer_part name (IrcServer_join name s) = Inl DoubleFree"
proof -
  let ?c = "s_nextchan s" and ?j = "IrcServer_join name s"
  let ?t = "snd (IBHashTable_set (s_channels s) name ?c (Some ()))"
  note j = join_new_channel [OF assms(2)]
  have get: "IBHashTable_get ?t name = Some ?c"
    using ht.put_get [OF assms(1), of name ?c "Some ()"] by simp
  obtain t' where del: "IBHashTable_delete ?t name = (True, [((), ?c)], t')"
    using delete_after_set [OF assms(1)] by blast
  have "chan_destroy ?c (chan_unreg ?c (call (ChanPart ?c) ?j))
      = Inr (call (ChanDestroy ?c) ((chan_unreg ?c (call (ChanPart ?c) ?j))\<lparr>s_livechans := s_livechans s\<rparr>))"
    by (simp add: chan_destroy_def call_def j)
  with get del assms(3) show ?thesis
    by (simp add: IrcServer_part_def j channels_delete_def call_def chan_destroy_def)
qed

section \<open>A connection lost during a write\<close>

definition keeps_sending :: "(srv_event \<Rightarrow> 'x IrcServer_scheme \<Rightarrow> 'x IrcServer_scheme result) \<Rightarrow> bool" where
  "keeps_sending raise \<longleftrightarrow> (\<forall>ev s s'. raise ev s = Inr s' \<longrightarrow> s_sending s' = s_sending s \<and> written s' = written s)"

definition stuck :: "string list \<Rightarrow> 'x IrcServer_scheme \<Rightarrow> bool" where
  "stuck ls s \<longleftrightarrow> s_sending s \<and> written s = ls"

lemma stuck_update [simp]:
  "stuck ls (s\<lparr>s_sendQueue := q\<rparr>) = stuck ls s" "stuck ls (s\<lparr>s_sendcreditticks := n\<rparr>) = stuck ls s"
  "stuck ls (s\<lparr>s_idleticks := n\<rparr>) = stuck ls s" "stuck ls (s\<lparr>s_nick := w\<rparr>) = stuck ls s"
  "stuck ls (s\<lparr>s_connst := n\<rparr>) = stuck ls s" "stuck ls (s\<lparr>s_conn := c\<rparr>) = stuck ls s"
  "stuck ls (s\<lparr>s_reconnticks := n\<rparr>) = stuck ls s" "stuck ls (s\<lparr>s_loginticks := n\<rparr>) = stuck ls s"
  "stuck ls (s\<lparr>s_name := x\<rparr>) = stuck ls s"
  by (simp_all add: stuck_def written_def)

lemma stuck_call [simp]: "\<not> is_write c \<Longrightarrow> stuck ls (call c s) = stuck ls s"
  by (cases c) (simp_all add: stuck_def written_def call_def written_in_append is_write_def)

lemma is_write_simps [simp]:
  "\<not> is_write (UnregTick h)" "\<not> is_write (RegTick h)" "\<not> is_write (RegConn c ev h)" "\<not> is_write (ConnClose c b)"
  by (simp_all add: is_write_def)

lemma sendRaw_stuck: "sendRaw c s = Inr s' \<Longrightarrow> stuck ls s \<Longrightarrow> stuck ls s'"
  by (auto simp: sendRaw_def enqueue_cmd_def bind_result_eq_Inr try_send_def stuck_def split: option.splits)

lemma sendRawCmd_stuck: "sendRawCmd cmd args s = Inr s' \<Longrightarrow> stuck ls s \<Longrightarrow> stuck ls s'"
  by (auto simp: sendRawCmd_def bind_result_eq_Inr sendRaw_stuck)

lemma send_lines_stuck: "send_lines ms s = Inr s' \<Longrightarrow> stuck ls s \<Longrightarrow> stuck ls s'"
  by (induction ms arbitrary: s) (auto simp: bind_result_eq_Inr sendRaw_stuck split: if_splits)

lemma conn_close_stuck: "conn_close b s = Inr s' \<Longrightarrow> stuck ls s \<Longrightarrow> stuck ls s'"
  by (auto simp: conn_close_def split: option.splits)

lemma activeTick_stuck:
  assumes "activeTick s = Inr s'" "stuck ls s"
  shows "stuck ls s'"
proof -
  let ?s1 = "if s_sendcreditticks s < FULLSENDCREDIT then s\<lparr>s_sendcreditticks := s_sendcreditticks s + 1\<rparr> else s"
  obtain t where t: "sendRaw None ?s1 = Inr t"
    and rest: "(let self = t\<lparr>s_idleticks := s_idleticks t - 1\<rparr> in
        if s_idleticks self = 0 then sendRawCmd MSG_PING (Some (s_nick self)) self
        else if s_idleticks self \<le> - PINGTICKS then conn_close False (call (UnregTick ActiveTick) self)
        else Inr self) = Inr s'"
    using assms(1) by (auto simp: activeTick_def Let_def bind_result_eq_Inr)
  have "stuck ls t" using sendRaw_stuck [OF t] assms(2) by simp
  then have "stuck ls (t\<lparr>s_idleticks := s_idleticks t - 1\<rparr>)" by simp
  with rest show ?thesis
    by (auto simp: Let_def split: if_splits intro: sendRawCmd_stuck elim!: conn_close_stuck)
qed

lemma send_run_stuck:
  "send_run conn ops s = Inr s' \<Longrightarrow> OpSent \<notin> set ops \<Longrightarrow> stuck ls s \<Longrightarrow> stuck ls s'"
proof (induction ops arbitrary: s)
  case (Cons op ops)
  obtain t where t: "send_step conn op s = Inr t" "send_run conn ops t = Inr s'"
    using Cons.prems(1) by (auto simp: bind_result_eq_Inr)
  have "stuck ls t"
  proof (cases op)
    case (OpRaw l)
    with t Cons.prems(3) show ?thesis by (simp add: sendRaw_stuck)
  next
    case (OpCmd cmd args)
    with t Cons.prems(3) show ?thesis
      by (auto simp: IrcServer_sendCmd_def bind_result_eq_Inr sendRawCmd_stuck split: if_splits)
  next
    case (OpMsg to m act)
    with t Cons.prems(3) show ?thesis
      by (auto simp: IrcServer_sendMsg_def bind_result_eq_Inr Let_def send_lines_stuck split: if_splits option.splits)
  next
    case (OpNick n)
    have "stuck ls (s\<lparr>s_nick := n\<rparr>)" using Cons.prems(3) by simp
    with OpNick t Cons.prems(3) show ?thesis
      by (auto simp: IrcServer_setNick_def Let_def split: if_splits intro: sendRawCmd_stuck)
  next
    case OpSent
    with Cons.prems(2) show ?thesis by simp
  next
    case OpTick
    with t Cons.prems(3) show ?thesis by (simp add: activeTick_stuck)
  qed
  with Cons.IH [OF t(2)] Cons.prems(2) show ?case by simp
qed simp


lemma connected_stuck: "stuck ls s \<Longrightarrow> stuck ls (connConnected conn s)"
  by (simp add: connConnected_def)

lemma connect_stuck: "IrcServer_connect created s = (rc, s') \<Longrightarrow> stuck ls s \<Longrightarrow> stuck ls s'"
  by (auto simp: IrcServer_connect_def Let_def split: option.splits)

lemma login_stuck:
  assumes "send_login pwuid pwnam s = Inr s'" "stuck ls s"
  shows "stuck ls s'"
  using assms by (auto simp: send_login_def bind_result_eq_Inr Let_def dest: sendRawCmd_stuck)

lemma closed_stuck:
  assumes "connClosed raise conn args s = Inr s'" "keeps_sending raise" "stuck ls s"
  shows "stuck ls s'"
proof (cases "Some conn = s_conn s")
  case False
  with assms show ?thesis by (simp add: connClosed_def)
next
  case True
  then obtain t u where t: "raise EvDisconnected t = Inr u" "stuck ls t"
      "s' = call (RegTick ConnWaitReconn) (call (UnregTick ConnWaitLogin) (u\<lparr>s_name := None\<rparr>))"
    using assms(1,3) by (auto simp: connClosed_def Let_def bind_result_eq_Inr)
  moreover from t(1,2) assms(2) have "stuck ls u" by (auto simp: keeps_sending_def stuck_def)
  ultimately show ?thesis by simp
qed

text \<open>C40: a connection lost while a write is outstanding leaves the server mute. The flag
  that a write is outstanding survives the close and the reconnect, so that the login data
  for the new connection, and everything asked for afterwards, waits for a confirmation
  that the new connection never gives: not one line is ever handed to it.\<close>

theorem reconnect_is_mute:
  assumes "s_conn s = Some old" "s_sending s" "keeps_sending raise"
    and "connClosed raise old args s = Inr s1" "IrcServer_connect (Some new) s1 = (rc, s2)"
    and "send_login pwuid pwnam (connConnected new s2) = Inr s3"
    and "send_run new ops s3 = Inr s4" "OpSent \<notin> set ops"
  shows "written s4 = written s \<and> s_sending s4"
proof -
  have "stuck (written s) s" using assms(2) by (simp add: stuck_def)
  from closed_stuck [OF assms(4,3) this] have "stuck (written s) s1" .
  from connected_stuck [OF connect_stuck [OF assms(5) this]] have "stuck (written s) (connConnected new s2)" .
  from send_run_stuck [OF assms(7,8) login_stuck [OF assms(6) this]] show ?thesis by (simp add: stuck_def)
qed

section \<open>A connection lost while logged in\<close>

text \<open>Losing the connection of a logged-in server leaves its timer running: closing takes
  back the login timer only, and the next tick sends through the null send queue.\<close>

theorem tick_after_close:
  assumes "s_conn s = Some conn" "s_sendQueue s = Some q" "IBQueue_ok q"
    and "\<not> s_sending s" "s_sendcreditticks s \<ge> 1"
  shows "\<exists>s'. connClosed (\<lambda>_. Inr) conn args s = Inr s'
    \<and> s_calls s' = s_calls s @ [UnregTick ConnWaitLogin, RegTick ConnWaitReconn]
    \<and> activeTick s' = Inl NullDeref"
proof -
  have "IBQueue_destroy (s_sendQueue s) = Inr (concat (map entry_calls (queue_entries q)))"
    using IBQueue_destroy_calls [OF assms(3)] assms(2) by simp
  then show ?thesis
    using assms(1,4,5)
    by (simp add: connClosed_def Let_def call_def activeTick_def sendRaw_def enqueue_cmd_def try_send_def)
qed

section \<open>Witnesses\<close>

theorem part_destroys_twice_witness:
  "IrcServer_part ''#c'' (IrcServer_join ''#c'' ready_server) = Inl DoubleFree"
proof (rule part_destroys_twice)
  show "IBHashTable_ok (s_channels ready_server)"
    by (simp add: ready_server_def ht.create_ok)
  show "IBHashTable_get (s_channels ready_server) ''#c'' = None"
    by (simp add: ready_server_def ht.create_get)
qed (simp add: ready_server_def)

theorem tick_after_close_witness:
  "\<exists>s'. connClosed (\<lambda>_. Inr) 7 True ready_server = Inr s' \<and> activeTick s' = Inl NullDeref"
proof -
  obtain q where q: "s_sendQueue ready_server = Some q" "IBQueue_ok q"
    using ready_server_ok(1) by (auto simp: send_ok_def split: option.splits)
  from tick_after_close [OF ready_server_ok(7) q, of True] show ?thesis
    by (auto simp: ready_server_def)
qed

theorem reconnect_is_mute_witness:
  "\<exists>s1 s3 s4. connClosed (\<lambda>_. Inr) 7 True (ready_server\<lparr>s_sending := True\<rparr>) = Inr s1
     \<and> send_login None (\<lambda>_. None) (connConnected 8 (snd (IrcServer_connect (Some 8) s1))) = Inr s3
     \<and> send_run 8 [OpRaw ''hello''] s3 = Inr s4 \<and> written s4 = []"
proof -
  let ?r = "ready_server\<lparr>s_sending := True\<rparr>"
  obtain q where q: "s_sendQueue ready_server = Some q" "IBQueue_ok q"
    using ready_server_ok(1) by (auto simp: send_ok_def split: option.splits)
  have d: "IBQueue_destroy (s_sendQueue ?r) = Inr (concat (map entry_calls (queue_entries q)))"
    using IBQueue_destroy_calls [OF q(2)] q(1) by simp
  obtain s1 where s1: "connClosed (\<lambda>_. Inr) 7 True ?r = Inr s1" "s_conn s1 = None" "s_nick s1 = ''bot''"
      "s_user s1 = None" "s_realname s1 = None" "s_sending s1"
    using d by (simp add: connClosed_def Let_def call_def ready_server_ok) (simp add: ready_server_def)
  obtain s2 where s2: "IrcServer_connect (Some 8) s1 = (0, s2)" "s_conn s2 = Some 8" "s_nick s2 = ''bot''"
      "s_user s2 = None" "s_realname s2 = None" "s_sending s2"
    using s1 by (simp add: IrcServer_connect_def call_def)
  have cmds: "IrcCommand_str MSG_NICK = Some ''NICK''" "IrcCommand_str MSG_USER = Some ''USER''" by code_simp+
  obtain s3 where s3: "send_login None (\<lambda>_. None) (connConnected 8 s2) = Inr s3" "s_sending s3" "s_conn s3 = Some 8"
      "\<exists>q. s_sendQueue s3 = Some q" "s_idleticks s3 = s_idleticks s2" "s_nick s3 = ''bot''"
    using s2 by (simp add: send_login_def connConnected_def call_def sendRawCmd_def sendRaw_def raw_line_def cmds
        enqueue_cmd_def try_send_def login_realname_def login_user_def Let_def)
  obtain s4 where s4: "send_run 8 [OpRaw ''hello''] s3 = Inr s4"
    using s3 by (auto simp: sendRaw_def enqueue_cmd_def try_send_def)
  have "keeps_sending (\<lambda>_. Inr)" by (simp add: keeps_sending_def)
  from reconnect_is_mute [of ?r, OF _ _ this s1(1) s2(1) s3(1) s4] have "written s4 = []"
    by (simp add: ready_server_ok)
  with s1(1) s2(1) s3(1) s4 show ?thesis by auto
qed

end
