(* ===== verification/BotShutdown.thy ===== *)
theory BotShutdown
  imports Bot Service
begin

text \<open>
  The end of a bot: \<open>shutdown\<close> and \<open>shutdownok\<close> of \<open>ircbot.c\<close> together with the shutdown counters
  of \<open>service.c\<close>. The handlers of the servers' \<open>disconnected\<close> events are kept beside the state of
  the service; \<open>now\<close> tells which servers raise that event while they are asked to disconnect (a
  connection that was still being made is closed at once).
\<close>

section \<open>Servers\<close>

definition IrcBot_addServer :: "nat \<Rightarrow> (nat, unit) IBList option \<Rightarrow> (nat, unit) IBList option" where
  "IrcBot_addServer server servers =
     (let l = (case servers of None \<Rightarrow> IBList_create | Some l \<Rightarrow> l)
      in Some (IBList_append l server (Some ())))"

lemma addServer_objs:
  "ss \<noteq> [] \<Longrightarrow> \<exists>l. fold IrcBot_addServer ss None = Some l \<and> IBList_ok l \<and> objs l = ss"
proof (induction ss rule: rev_induct)
  case (snoc s ss)
  show ?case
  proof (cases "ss = []")
    case True
    then show ?thesis by (simp add: IrcBot_addServer_def IBList_append_ok objs_append)
  next
    case False
    with snoc.IH show ?thesis by (auto simp: IrcBot_addServer_def IBList_append_ok objs_append)
  qed
qed simp

section \<open>The program's own settings\<close>

record DaemonOpts =
  bo_started :: "nat option"
  bo_pidfile :: "string option"
  bo_uid :: int
  bo_gid :: int
  bo_daemonize :: bool

record 'h bot_statics =
  bs_daemonOpts :: DaemonOpts
  bs_startupfunc :: "nat option"
  bs_shutdownfunc :: "nat option"
  bs_servers :: "(nat, unit) IBList option"
  bs_handlers :: "'h handlers"

definition bot_statics_init :: "'h bot_statics" where
  "bot_statics_init = \<lparr>bs_daemonOpts = \<lparr>bo_started = None, bo_pidfile = None, bo_uid = -1, bo_gid = -1, bo_daemonize = False\<rparr>,
     bs_startupfunc = None, bs_shutdownfunc = None, bs_servers = None, bs_handlers = None\<rparr>"

definition IrcBot_daemonize :: "int \<Rightarrow> int \<Rightarrow> string option \<Rightarrow> nat option \<Rightarrow> 'h bot_statics \<Rightarrow> 'h bot_statics" where
  "IrcBot_daemonize uid gid pidfile started b =
     b\<lparr>bs_daemonOpts := \<lparr>bo_started = started, bo_pidfile = pidfile, bo_uid = uid, bo_gid = gid, bo_daemonize = True\<rparr>\<rparr>"

definition IrcBot_startup :: "nat option \<Rightarrow> 'h bot_statics \<Rightarrow> 'h bot_statics" where
  "IrcBot_startup startupf b = b\<lparr>bs_startupfunc := startupf\<rparr>"

definition IrcBot_shutdown :: "nat option \<Rightarrow> 'h bot_statics \<Rightarrow> 'h bot_statics" where
  "IrcBot_shutdown shutdownf b = b\<lparr>bs_shutdownfunc := shutdownf\<rparr>"

text \<open>\<open>daemon_rc\<close> is the result of \<open>daemon_run\<close>, in whose daemon process \<open>daemonrun\<close> is called.\<close>

definition IrcBot_run :: "int \<Rightarrow> int \<Rightarrow> int \<Rightarrow> int \<Rightarrow> 'h bot_statics \<Rightarrow> int \<times> run_call list" where
  "IrcBot_run daemon_rc service_rc pool_rc run_rc b =
     (if bo_daemonize (bs_daemonOpts b) then (daemon_rc, [])
      else daemonrun (bs_servers b \<noteq> None) service_rc pool_rc run_rc)"

section \<open>The calls, on the service\<close>

record 'h bot_service = "'h Service" +
  bs_reg :: "nat list"     \<comment> \<open>the servers whose \<open>disconnected\<close> event has the handler \<open>shutdownok\<close>\<close>

fun shutdown_call :: "int \<Rightarrow> bot_call \<Rightarrow> 'h bot_service \<Rightarrow> 'h bot_service" where
  "shutdown_call set_rc (RegDisconnected v) s = s\<lparr>bs_reg := bs_reg s @ [v]\<rparr>"
| "shutdown_call set_rc (UnregDisconnected v) s = s\<lparr>bs_reg := remove1 v (bs_reg s)\<rparr>"
| "shutdown_call set_rc ShutdownLock s = Service_shutdownLock set_rc s"
| "shutdown_call set_rc ShutdownUnlock s = Service_shutdownUnlock s"
| "shutdown_call set_rc _ s = s"

text \<open>A server raises \<open>disconnected\<close>.\<close>

definition disconnected_event :: "int \<Rightarrow> nat \<Rightarrow> 'h bot_service \<Rightarrow> 'h bot_service" where
  "disconnected_event set_rc v s = (if v \<in> set (bs_reg s) then fold (shutdown_call set_rc) (shutdownok v) s else s)"

fun bot_do :: "int \<Rightarrow> (nat \<Rightarrow> bool) \<Rightarrow> bot_call \<Rightarrow> 'h bot_service \<Rightarrow> 'h bot_service" where
  "bot_do set_rc now (Disconnect v) s = (if now v then disconnected_event set_rc v s else s)"
| "bot_do set_rc now c s = shutdown_call set_rc c s"

definition shutdown_event :: "int \<Rightarrow> (nat \<Rightarrow> bool) \<Rightarrow> bool \<Rightarrow> (nat, unit) IBList option \<Rightarrow> 'h bot_service \<Rightarrow> 'h bot_service" where
  "shutdown_event set_rc now has_func servers s = fold (bot_do set_rc now) (the (shutdown_bot has_func (the servers))) s"

section \<open>The locks held\<close>

definition locks_held :: "nat list \<Rightarrow> 'h bot_service \<Rightarrow> bool" where
  "locks_held vs s \<longleftrightarrow> bs_reg s = vs \<and> shutdownRef s = int (length vs)"

lemma lock_held:
  assumes "locks_held vs s"
  shows "locks_held (vs @ [v]) (shutdown_call set_rc ShutdownLock (shutdown_call set_rc (RegDisconnected v) s))"
  using assms by (simp add: locks_held_def Service_shutdownLock_def Service_setTickInterval_def Let_def)

lemma disconnected_held:
  assumes "locks_held vs s" "distinct vs"
  shows "locks_held (filter (\<lambda>w. w \<noteq> v) vs) (disconnected_event set_rc v s)"
proof (cases "v \<in> set vs")
  case True
  then have "length vs > 0" by (rule length_pos_if_in_set)
  moreover from this have "int (length (remove1 v vs)) = int (length vs) - 1"
    using True by (simp only: length_remove1 if_True of_nat_diff Suc_leI One_nat_def of_nat_1)
  moreover have "filter (\<lambda>w. w \<noteq> v) vs = remove1 v vs"
    using assms(2) by (induction vs) (auto simp: filter_id_conv)
  ultimately show ?thesis
    using True assms(1)
    by (simp add: locks_held_def disconnected_event_def shutdownok_def Service_shutdownUnlock_def)
next
  case False
  then have "filter (\<lambda>w. w \<noteq> v) vs = vs" by (auto simp: filter_id_conv)
  with False assms(1) show ?thesis by (simp add: locks_held_def disconnected_event_def)
qed

lemma shutdown_calls_held:
  assumes "locks_held vs s" "distinct (vs @ ws)"
  shows "locks_held (vs @ filter (\<lambda>v. \<not> now v) ws)
    (fold (bot_do set_rc now) (concat (map (\<lambda>v. [RegDisconnected v, ShutdownLock, Disconnect v]) ws)) s)"
  using assms
proof (induction ws arbitrary: vs s)
  case (Cons v ws)
  let ?s = "bot_do set_rc now (Disconnect v) (shutdown_call set_rc ShutdownLock (shutdown_call set_rc (RegDisconnected v) s))"
  have v: "v \<notin> set vs" "distinct (vs @ [v])" using Cons.prems(2) by auto
  then have "filter (\<lambda>w. w \<noteq> v) (vs @ [v]) = vs" by (auto simp: filter_id_conv)
  then have "locks_held (if now v then vs else vs @ [v]) ?s"
    using disconnected_held [OF lock_held [OF Cons.prems(1)] v(2), of v set_rc] lock_held [OF Cons.prems(1), of v set_rc] by simp
  then show ?case using Cons.IH [of "if now v then vs else vs @ [v]" ?s] Cons.prems(2) by (auto split: if_splits)
qed simp

lemma reports_held:
  "locks_held vs s \<Longrightarrow> distinct vs \<Longrightarrow>
    locks_held (filter (\<lambda>v. v \<notin> set rs) vs) (fold (disconnected_event set_rc) rs s)"
proof (induction rs arbitrary: vs s)
  case (Cons r rs)
  from Cons.IH [OF disconnected_held [OF Cons.prems]] Cons.prems(2) show ?case
    by (simp add: conj_commute)
qed simp

lemma shutdown_bot_calls:
  "IBList_ok l \<Longrightarrow> shutdown_bot has_func l =
    Some (concat (map (\<lambda>v. [RegDisconnected v, ShutdownLock, Disconnect v]) (objs l)) @ (if has_func then [CallShutdownfunc] else []))"
proof -
  have "fold_break shutdown_body vs calls = calls @ concat (map (\<lambda>v. [RegDisconnected v, ShutdownLock, Disconnect v]) vs)" for vs calls
    by (induction vs arbitrary: calls) (simp_all add: shutdown_body_def Let_def)
  then show "IBList_ok l \<Longrightarrow> ?thesis" by (simp add: shutdown_bot_def foreach_objs)
qed


definition stopping_service :: "nat bot_service" where
  "stopping_service = \<lparr>opts_given = True, readfds = {}, writefds = {}, nread = 0, nwrite = 0, nfds = 0, running = True,
     shutdownRequest = False, timerTick = False, shutdownRef = 0, shutdownTicks = 5, timer_interval = \<lparr>tv_sec = 1, tv_usec = 0\<rparr>,
     timer_value = \<lparr>tv_sec = 1, tv_usec = 0\<rparr>, panicHandlers = [], numPanicHandlers = 0, bs_reg = []\<rparr>"


end
