(* ===== verification/PoolSync.thy ===== *)
theory PoolSync
  imports ThreadPool
begin

text \<open>
  The hand-over of a job between the main thread and one worker of \<open>threadpool.c\<close>: two mutexes,
  two condition variables and a pipe. Each function below is one step of one thread up to the
  next point where the other can interfere; its result \<open>None\<close> means that the thread is blocked.
  A condition variable wakes a thread that waits; a signal that finds nobody waiting is lost,
  as POSIX says, and a wakeup without a signal, which POSIX allows, is a step of its own.
\<close>

section \<open>State\<close>

text \<open>
  The main thread: \<open>MStart\<close> to \<open>MUnlock\<close> are \<open>startThreadJob\<close>, \<open>MWaitDone\<close> to \<open>MFinish\<close>
  \<open>threadJobDone\<close>, \<open>MStop\<close> to \<open>MStopped\<close> \<open>stopThreads\<close>; \<open>MIdle\<close> is everything else.
\<close>

datatype main_pc =
    MIdle | MStart job | MSignal job | MHandover | MUnlock | MWaitDone | MWake | MFinish
  | MStop | MStopLock | MStopSignal | MStopWait | MStopWake | MJoin | MStopped

text \<open>
  The worker: before it clears its flags, before it takes \<open>startlock\<close>, at the head of its loop, in \<open>pthread_cond_wait\<close>,
  woken but without the lock, running the job, writing to the pipe, before it takes
  \<open>donelock\<close>, before its signal, before it releases \<open>donelock\<close>, and returned.
\<close>

datatype worker_pc = WInit | WLock | WTop | WWait | WWake | WRun | WReport | WDone | WSignal | WUnlock | WExit

datatype holder = Nobody | MainThread | WorkerThread

record pool_sync =
  y_main :: main_pc
  y_work :: worker_pc
  y_startlock :: holder
  y_donelock :: holder
  y_job :: "job option"
  y_stoprq :: bool
  y_jobcanceled :: bool         \<comment> \<open>thread-local to the worker\<close>
  y_interrupted :: bool         \<comment> \<open>history: whether the thread was interrupted since its job was started\<close>
  y_pipe :: nat
  y_fault :: bool               \<comment> \<open>a thread used a null job\<close>
  y_started :: "job list"
  y_ran :: "job list"
  y_finished :: "job list"

definition sync_init :: "worker_pc \<Rightarrow> pool_sync" where
  "sync_init w = \<lparr>y_main = MIdle, y_work = w, y_startlock = Nobody, y_donelock = Nobody, y_job = None, y_stoprq = False,
     y_jobcanceled = False, y_interrupted = False, y_pipe = 0, y_fault = False, y_started = [], y_ran = [], y_finished = []\<rparr>"

section \<open>Steps\<close>

text \<open>
  \<open>worker\<close>, whose calls to set up its lock and signals succeed (a thread for which they fail is
  \<open>failed\<close> in \<open>ThreadPool\<close>). A panic ends \<open>WRun\<close> like a return.
\<close>

definition worker_step :: "pool_sync \<Rightarrow> pool_sync option" where
  "worker_step s =
     (case y_work s of
        WInit \<Rightarrow> Some (s\<lparr>y_stoprq := False, y_work := WLock\<rparr>)
      | WLock \<Rightarrow> if y_startlock s = Nobody then Some (s\<lparr>y_startlock := WorkerThread, y_work := WTop\<rparr>) else None
      | WTop \<Rightarrow> if y_stoprq s then Some (s\<lparr>y_startlock := Nobody, y_work := WExit\<rparr>)
                else Some (s\<lparr>y_jobcanceled := False, y_startlock := Nobody, y_work := WWait\<rparr>)
      | WWait \<Rightarrow> None
      | WWake \<Rightarrow> if y_startlock s \<noteq> Nobody then None
                 else if y_stoprq s then Some (s\<lparr>y_work := WExit\<rparr>)
                 else Some (s\<lparr>y_startlock := WorkerThread, y_work := WRun\<rparr>)
      | WRun \<Rightarrow> (case y_job s of
                   None \<Rightarrow> Some (s\<lparr>y_fault := True, y_work := WExit\<rparr>)
                 | Some j \<Rightarrow> Some (s\<lparr>y_ran := y_ran s @ [j], y_work := WReport\<rparr>))
      | WReport \<Rightarrow> Some (s\<lparr>y_pipe := y_pipe s + 1, y_work := WDone\<rparr>)
      | WDone \<Rightarrow> if y_donelock s = Nobody then Some (s\<lparr>y_donelock := WorkerThread, y_work := WSignal\<rparr>) else None
      | WSignal \<Rightarrow> Some (s\<lparr>y_work := WUnlock,
                           y_main := (case y_main s of MWaitDone \<Rightarrow> MWake | MStopWait \<Rightarrow> MStopWake | m \<Rightarrow> m)\<rparr>)
      | WUnlock \<Rightarrow> Some (s\<lparr>y_donelock := Nobody, y_work := WTop\<rparr>)
      | WExit \<Rightarrow> None)"

text \<open>\<open>pthread_cond_signal (&t->start)\<close>.\<close>

definition signal_start :: "pool_sync \<Rightarrow> pool_sync" where
  "signal_start s = (if y_work s = WWait then s\<lparr>y_work := WWake\<rparr> else s)"

definition start_step :: "pool_sync \<Rightarrow> pool_sync option" where
  "start_step s =
     (case y_main s of
        MStart j \<Rightarrow> if y_startlock s = Nobody then Some (s\<lparr>y_startlock := MainThread, y_main := MSignal j\<rparr>) else None
      | MSignal j \<Rightarrow> Some (signal_start (s\<lparr>y_job := Some j, y_interrupted := False, y_started := y_started s @ [j], y_main := MHandover\<rparr>))
      | MHandover \<Rightarrow> if y_donelock s = Nobody then Some (s\<lparr>y_donelock := MainThread, y_main := MUnlock\<rparr>) else None
      | MUnlock \<Rightarrow> Some (s\<lparr>y_startlock := Nobody, y_main := MIdle\<rparr>)
      | _ \<Rightarrow> None)"

text \<open>\<open>threadJobDone\<close> runs when the pipe is readable, and reads two bytes at most. The next job it takes from
  the queue is a start like any other.\<close>

definition done_step :: "pool_sync \<Rightarrow> pool_sync option" where
  "done_step s =
     (case y_main s of
        MIdle \<Rightarrow> if y_pipe s > 0 then Some (s\<lparr>y_pipe := y_pipe s - 2, y_donelock := Nobody, y_main := MWaitDone\<rparr>) else None
      | MWake \<Rightarrow> if y_donelock s = Nobody then Some (s\<lparr>y_donelock := MainThread, y_main := MFinish\<rparr>) else None
      | MFinish \<Rightarrow> (case y_job s of
                     None \<Rightarrow> Some (s\<lparr>y_fault := True, y_main := MStopped\<rparr>)
                   | Some j \<Rightarrow> Some (s\<lparr>y_finished := y_finished s @ [j], y_job := None, y_donelock := Nobody, y_main := MIdle\<rparr>))
      | _ \<Rightarrow> None)"

definition stop_step :: "pool_sync \<Rightarrow> pool_sync option" where
  "stop_step s =
     (case y_main s of
        MStop \<Rightarrow> if y_job s \<noteq> None then Some (s\<lparr>y_stoprq := True, y_donelock := Nobody, y_main := MStopWait\<rparr>)
                 else Some (s\<lparr>y_main := MStopLock\<rparr>)
      | MStopLock \<Rightarrow> if y_startlock s = Nobody then Some (s\<lparr>y_startlock := MainThread, y_main := MStopSignal\<rparr>) else None
      | MStopSignal \<Rightarrow> Some (signal_start (s\<lparr>y_stoprq := True, y_startlock := Nobody, y_main := MJoin\<rparr>))
      | MStopWake \<Rightarrow> if y_donelock s = Nobody then Some (s\<lparr>y_main := MJoin\<rparr>) else None
      | MJoin \<Rightarrow> if y_work s = WExit then Some (s\<lparr>y_main := MStopped\<rparr>) else None
      | _ \<Rightarrow> None)"

text \<open>The signal handler of the worker, and what a job can ask.\<close>

definition workerInterrupt :: "pool_sync \<Rightarrow> pool_sync" where
  "workerInterrupt s = s\<lparr>y_jobcanceled := True\<rparr>"

definition ThreadJob_canceled :: "pool_sync \<Rightarrow> bool" where
  "ThreadJob_canceled s = y_jobcanceled s"

text \<open>A step that needs no decision from outside.\<close>

definition sync_steps :: "pool_sync \<Rightarrow> pool_sync list" where
  "sync_steps s = concat (map (\<lambda>f. case f s of None \<Rightarrow> [] | Some t \<Rightarrow> [t]) [worker_step, start_step, done_step, stop_step])"

text \<open>
  What is decided outside: starting a job on a thread that has none, stopping the threads,
  interrupting the thread of a job (when it timed out or is cancelled), and a wakeup without a
  signal. \<open>E\<close> are the kinds that may happen.
\<close>

datatype outside = OutStart | OutStop | OutInterrupt | OutSpurious

inductive sync_reach :: "outside set \<Rightarrow> pool_sync \<Rightarrow> pool_sync \<Rightarrow> bool" for E s0 where
  Begin: "sync_reach E s0 s0"
| Inside: "sync_reach E s0 s \<Longrightarrow> t \<in> set (sync_steps s) \<Longrightarrow> sync_reach E s0 t"
| StartJob: "sync_reach E s0 s \<Longrightarrow> OutStart \<in> E \<Longrightarrow> y_main s = MIdle \<Longrightarrow> y_job s = None \<Longrightarrow> sync_reach E s0 (s\<lparr>y_main := MStart j\<rparr>)"
| StopThreads: "sync_reach E s0 s \<Longrightarrow> OutStop \<in> E \<Longrightarrow> y_main s = MIdle \<Longrightarrow> sync_reach E s0 (s\<lparr>y_main := MStop\<rparr>)"
| InterruptJob: "sync_reach E s0 s \<Longrightarrow> OutInterrupt \<in> E \<Longrightarrow> y_main s = MIdle \<Longrightarrow> y_job s \<noteq> None
    \<Longrightarrow> sync_reach E s0 (workerInterrupt (s\<lparr>y_interrupted := True\<rparr>))"
| Spurious: "sync_reach E s0 s \<Longrightarrow> OutSpurious \<in> E \<Longrightarrow> y_work s = WWait \<Longrightarrow> sync_reach E s0 (s\<lparr>y_work := WWake\<rparr>)"

section \<open>The hand-over of jobs\<close>

text \<open>Where the two threads can be while jobs are started and end.\<close>

fun at_rest :: "worker_pc \<Rightarrow> holder \<Rightarrow> bool" where
  "at_rest WTop l \<longleftrightarrow> l = WorkerThread" | "at_rest WWait l \<longleftrightarrow> l = Nobody" | "at_rest _ l \<longleftrightarrow> False"

fun at_work :: "worker_pc \<Rightarrow> holder \<Rightarrow> nat \<Rightarrow> bool" where
  "at_work WWake l n \<longleftrightarrow> l = Nobody \<and> n = 0" | "at_work WRun l n \<longleftrightarrow> l = WorkerThread \<and> n = 0"
| "at_work WReport l n \<longleftrightarrow> l = WorkerThread \<and> n = 0" | "at_work WDone l n \<longleftrightarrow> l = WorkerThread \<and> n = 1" | "at_work _ l n \<longleftrightarrow> False"

fun has_run :: "worker_pc \<Rightarrow> bool" where
  "has_run WWake = False" | "has_run WRun = False" | "has_run _ = True"

text \<open>The flag of the worker belongs to its job as long as it has one.\<close>

definition flag_ok :: "pool_sync \<Rightarrow> bool" where
  "flag_ok s \<longleftrightarrow>
     (case y_work s of
        WWait \<Rightarrow> \<not> y_jobcanceled s
      | WWake \<Rightarrow> y_jobcanceled s = y_interrupted s
      | WRun \<Rightarrow> y_jobcanceled s = y_interrupted s
      | _ \<Rightarrow> True)"

definition sync_ok :: "pool_sync \<Rightarrow> bool" where
  "sync_ok s \<longleftrightarrow> \<not> y_stoprq s \<and> \<not> y_fault s \<and> flag_ok s \<and>
     (case y_main s of
        MIdle \<Rightarrow> (case y_job s of
            None \<Rightarrow> y_donelock s = Nobody \<and> y_pipe s = 0 \<and> at_rest (y_work s) (y_startlock s) \<and> y_started s = y_finished s \<and> y_ran s = y_finished s
          | Some j \<Rightarrow> y_donelock s = MainThread \<and> at_work (y_work s) (y_startlock s) (y_pipe s) \<and> y_started s = y_finished s @ [j]
              \<and> y_ran s = y_finished s @ (if has_run (y_work s) then [j] else []))
      | MStart j \<Rightarrow> y_job s = None \<and> y_donelock s = Nobody \<and> y_pipe s = 0 \<and> at_rest (y_work s) (y_startlock s) \<and> y_started s = y_finished s \<and> y_ran s = y_finished s
      | MSignal j \<Rightarrow> y_job s = None \<and> y_donelock s = Nobody \<and> y_pipe s = 0 \<and> y_startlock s = MainThread \<and> y_work s = WWait
          \<and> y_started s = y_finished s \<and> y_ran s = y_finished s
      | MHandover \<Rightarrow> y_donelock s = Nobody \<and> y_pipe s = 0 \<and> y_startlock s = MainThread \<and> y_work s = WWake
          \<and> (\<exists>j. y_job s = Some j \<and> y_started s = y_finished s @ [j]) \<and> y_ran s = y_finished s
      | MUnlock \<Rightarrow> y_donelock s = MainThread \<and> y_pipe s = 0 \<and> y_startlock s = MainThread \<and> y_work s = WWake
          \<and> (\<exists>j. y_job s = Some j \<and> y_started s = y_finished s @ [j]) \<and> y_ran s = y_finished s
      | MWaitDone \<Rightarrow> y_pipe s = 0 \<and> y_startlock s = WorkerThread
          \<and> (y_work s = WDone \<and> y_donelock s = Nobody \<or> y_work s = WSignal \<and> y_donelock s = WorkerThread)
          \<and> (\<exists>j. y_job s = Some j \<and> y_started s = y_finished s @ [j] \<and> y_ran s = y_finished s @ [j])
      | MWake \<Rightarrow> y_pipe s = 0
          \<and> (y_work s = WUnlock \<and> y_startlock s = WorkerThread \<and> y_donelock s = WorkerThread \<or> at_rest (y_work s) (y_startlock s) \<and> y_donelock s = Nobody)
          \<and> (\<exists>j. y_job s = Some j \<and> y_started s = y_finished s @ [j] \<and> y_ran s = y_finished s @ [j])
      | MFinish \<Rightarrow> y_pipe s = 0 \<and> at_rest (y_work s) (y_startlock s) \<and> y_donelock s = MainThread
          \<and> (\<exists>j. y_job s = Some j \<and> y_started s = y_finished s @ [j] \<and> y_ran s = y_finished s @ [j])
      | _ \<Rightarrow> False)"

lemma sync_steps_set: "t \<in> set (sync_steps s) \<longleftrightarrow> worker_step s = Some t \<or> start_step s = Some t \<or> done_step s = Some t \<or> stop_step s = Some t"
  by (auto simp: sync_steps_def split: option.split)

lemma sync_step_ok:
  assumes "sync_ok s" "t \<in> set (sync_steps s)"
  shows "sync_ok t"
  using assms unfolding sync_steps_set
  by (cases "y_main s"; cases "y_work s"; cases "y_job s")
     (auto simp: sync_ok_def flag_ok_def worker_step_def start_step_def done_step_def stop_step_def signal_start_def split: if_splits)

lemma sync_reach_ok: "sync_reach {OutStart, OutInterrupt} (sync_init WWait) s \<Longrightarrow> sync_ok s"
proof (induction rule: sync_reach.induct)
  case Begin
  then show ?case by (simp add: sync_ok_def flag_ok_def sync_init_def)
next
  case (Inside s t)
  then show ?case using sync_step_ok by blast
next
  case (StartJob s j)
  then show ?case by (simp add: sync_ok_def flag_ok_def split: worker_pc.splits)
next
  case (InterruptJob s)
  then show ?case
    by (cases "y_work s") (auto simp: sync_ok_def flag_ok_def workerInterrupt_def)
qed simp_all

text \<open>How many steps are left, at most.\<close>

fun worker_rank :: "worker_pc \<Rightarrow> nat" where
  "worker_rank WWake = 7" | "worker_rank WRun = 6" | "worker_rank WReport = 5" | "worker_rank WDone = 4" | "worker_rank WSignal = 3"
| "worker_rank WUnlock = 2" | "worker_rank WTop = 1" | "worker_rank _ = 0"

fun main_rank :: "main_pc \<Rightarrow> job option \<Rightarrow> nat" where
  "main_rank (MStart j) job = 15" | "main_rank (MSignal j) job = 14" | "main_rank MHandover job = 6" | "main_rank MUnlock job = 5"
| "main_rank MIdle job = (if job = None then 0 else 4)" | "main_rank MWaitDone job = 3" | "main_rank MWake job = 2"
| "main_rank MFinish job = 1" | "main_rank _ job = 0"

definition sync_rank :: "pool_sync \<Rightarrow> nat" where
  "sync_rank s = main_rank (y_main s) (y_job s) + worker_rank (y_work s)"

lemma sync_rank_decreases:
  assumes "sync_ok s" "t \<in> set (sync_steps s)"
  shows "sync_rank t < sync_rank s"
  using assms unfolding sync_steps_set
  by (cases "y_main s"; cases "y_work s"; cases "y_job s")
     (auto simp: sync_ok_def sync_rank_def worker_step_def start_step_def done_step_def stop_step_def signal_start_def split: if_splits)

lemma sync_stuck:
  assumes "sync_ok s" "sync_steps s = []"
  shows "y_main s = MIdle \<and> y_job s = None \<and> y_work s = WWait"
proof -
  have n: "worker_step s = None" "start_step s = None" "done_step s = None" "stop_step s = None"
    using assms(2) by (simp_all add: sync_steps_def split: option.splits)
  show ?thesis
    using assms(1) n
    by (cases "y_main s"; cases "y_work s"; cases "y_job s")
       (auto simp: sync_ok_def flag_ok_def worker_step_def start_step_def done_step_def stop_step_def signal_start_def split: if_splits)
qed

lemma sync_rank_bound: "sync_ok s \<Longrightarrow> sync_rank s \<le> 16"
  by (cases "y_main s"; cases "y_work s"; cases "y_job s") (auto simp: sync_ok_def sync_rank_def)


section \<open>What can go wrong\<close>

text \<open>A run given by the chosen step at each point.\<close>

fun sync_play :: "nat list \<Rightarrow> pool_sync \<Rightarrow> pool_sync" where
  "sync_play [] s = s"
| "sync_play (k # ks) s = (if k < length (sync_steps s) then sync_play ks (sync_steps s ! k) else s)"

lemma play_reach: "sync_reach E s0 s \<Longrightarrow> sync_reach E s0 (sync_play ks s)"
proof (induction ks arbitrary: s)
  case (Cons k ks)
  have "k < length (sync_steps s) \<Longrightarrow> sync_reach E s0 (sync_steps s ! k)" using Cons.prems by (rule Inside) simp
  with Cons show ?case by simp
qed simp

definition started_early :: pool_sync where
  "started_early = sync_play [1, 1, 1, 1, 0, 0, 0] ((sync_init WInit)\<lparr>y_main := MStart 1\<rparr>)"

text \<open>A job that is started before its worker has taken \<open>startlock\<close> for the first time never runs:
  the signal finds nobody waiting, and the worker then waits for another one.\<close>

theorem lost_start:
  "\<exists>s. sync_reach {OutStart} (sync_init WInit) s \<and> y_job s = Some 1 \<and> y_ran s = [] \<and> sync_steps s = []"
proof -
  have "sync_reach {OutStart} (sync_init WInit) ((sync_init WInit)\<lparr>y_main := MStart 1\<rparr>)"
    by (rule StartJob [OF Begin]) (simp_all add: sync_init_def)
  then have "sync_reach {OutStart} (sync_init WInit) started_early" unfolding started_early_def by (rule play_reach)
  moreover have "y_job started_early = Some 1 \<and> y_ran started_early = [] \<and> sync_steps started_early = []" by code_simp
  ultimately show ?thesis by blast
qed

text \<open>The state after a job was started and before its worker wakes up, with the threads to be stopped.\<close>

definition stopped_early :: pool_sync where
  "stopped_early = sync_play [0, 0, 0, 0] ((sync_init WWait)\<lparr>y_main := MStart 1\<rparr>)"

definition stop_hanging :: pool_sync where
  "stop_hanging = sync_play [1, 0] (stopped_early\<lparr>y_main := MStop\<rparr>)"

text \<open>Stopping the pool hangs when a job was just started: the worker sees the request to stop when
  it wakes up, returns without running the job and without the signal that \<open>stopThreads\<close> waits for.\<close>

theorem stop_can_hang:
  "\<exists>s. sync_reach {OutStart, OutStop} (sync_init WWait) s \<and> y_main s = MStopWait \<and> y_work s = WExit \<and> sync_steps s = []"
proof -
  have "sync_reach {OutStart, OutStop} (sync_init WWait) ((sync_init WWait)\<lparr>y_main := MStart 1\<rparr>)"
    by (rule StartJob [OF Begin]) (simp_all add: sync_init_def)
  then have "sync_reach {OutStart, OutStop} (sync_init WWait) stopped_early" unfolding stopped_early_def by (rule play_reach)
  moreover have "y_main stopped_early = MIdle" by code_simp
  ultimately have "sync_reach {OutStart, OutStop} (sync_init WWait) (stopped_early\<lparr>y_main := MStop\<rparr>)"
    by (intro StopThreads) simp_all
  then have "sync_reach {OutStart, OutStop} (sync_init WWait) stop_hanging" unfolding stop_hanging_def by (rule play_reach)
  moreover have "y_main stop_hanging = MStopWait \<and> y_work stop_hanging = WExit \<and> sync_steps stop_hanging = []" by code_simp
  ultimately show ?thesis by blast
qed

definition woken_idle :: pool_sync where
  "woken_idle = sync_play [0, 0] ((sync_init WWait)\<lparr>y_work := WWake\<rparr>)"

text \<open>A wakeup without a signal, which POSIX allows, makes an idle worker call the procedure of a null
  job: the wait has no condition around it.\<close>

theorem spurious_wakeup:
  "\<exists>s. sync_reach {OutSpurious} (sync_init WWait) s \<and> y_fault s"
proof -
  have "sync_reach {OutSpurious} (sync_init WWait) ((sync_init WWait)\<lparr>y_work := WWake\<rparr>)"
    by (rule Spurious [OF Begin]) (simp_all add: sync_init_def)
  then have "sync_reach {OutSpurious} (sync_init WWait) woken_idle" unfolding woken_idle_def by (rule play_reach)
  moreover have "y_fault woken_idle" by code_simp
  ultimately show ?thesis by blast
qed

text \<open>One job that is interrupted when its thread is about to run it, and the next one, which is not: four
  steps of the main thread and one of the worker, the interrupt, the end of the job and the next one.\<close>

definition half_job :: pool_sync where
  "half_job = sync_play [0, 0, 0, 0, 0] ((sync_init WWait)\<lparr>y_main := MStart 1\<rparr>)"

definition job_interrupted :: pool_sync where
  "job_interrupted = workerInterrupt (half_job\<lparr>y_interrupted := True\<rparr>)"

definition after_job :: pool_sync where
  "after_job = sync_play (replicate 16 0) job_interrupted"

definition second_job :: pool_sync where
  "second_job = sync_play [0, 0, 0, 0, 0] (after_job\<lparr>y_main := MStart 2\<rparr>)"


end
