(* ===== verification/PoolInit.thy ===== *)
theory PoolInit
  imports ThreadPool
begin

text \<open>
  \<open>ThreadPool_init\<close>, \<open>stopThreads\<close> and \<open>ThreadPool_done\<close> of \<open>threadpool.c\<close> as far as resources
  go: what each thread has acquired, what a failed start releases, and what stays behind. Each
  call that can fail is answered by an argument.
\<close>

section \<open>Resources\<close>

datatype pool_res = StartLock | StartCond | DoneLock | DoneCond | PipeEnds | ReadHandler | WorkerThr | ReadReg

datatype pool_glob = TickHandler | QueueLock | PanicReg | ThreadArray | QueueArray

record pool_boot =
  b_threads :: "(nat \<times> pool_res) set"
  b_globals :: "pool_glob set"

definition acquire :: "nat \<Rightarrow> pool_res \<Rightarrow> pool_boot \<Rightarrow> pool_boot" where
  "acquire i r b = b\<lparr>b_threads := insert (i, r) (b_threads b)\<rparr>"

definition release :: "nat \<Rightarrow> pool_res \<Rightarrow> pool_boot \<Rightarrow> pool_boot" where
  "release i r b = b\<lparr>b_threads := b_threads b - {(i, r)}\<rparr>"

definition acquire_glob :: "pool_glob \<Rightarrow> pool_boot \<Rightarrow> pool_boot" where
  "acquire_glob g b = b\<lparr>b_globals := insert g (b_globals b)\<rparr>"

definition release_glob :: "pool_glob \<Rightarrow> pool_boot \<Rightarrow> pool_boot" where
  "release_glob g b = b\<lparr>b_globals := b_globals b - {g}\<rparr>"

section \<open>Stopping\<close>

text \<open>The loop of \<open>stopThreads\<close>: join, close the pipe, destroy the locks; from thread \<open>i\<close> on.\<close>

fun stop_loop :: "nat \<Rightarrow> nat \<Rightarrow> pool_boot \<Rightarrow> pool_boot" where
  "stop_loop i 0 b = b"
| "stop_loop i (Suc n) b =
     stop_loop (i + 1) n (release i StartLock (release i StartCond (release i DoneLock (release i DoneCond
       (release i PipeEnds (release i WorkerThr b))))))"

definition stopThreads :: "nat \<Rightarrow> pool_boot \<Rightarrow> pool_boot" where
  "stopThreads nthr b = stop_loop 0 nthr b"

section \<open>Starting\<close>

text \<open>
  \<open>ans i k\<close>: whether call number \<open>k\<close> for thread \<open>i\<close> succeeds (mutex, condition, mutex, condition,
  pipe, thread). The result is whether the thread runs; the labels \<open>rollback_pipe\<close> to
  \<open>rollback_startlock\<close> are the releases.
\<close>

definition setup_thread :: "(nat \<Rightarrow> nat \<Rightarrow> bool) \<Rightarrow> nat \<Rightarrow> pool_boot \<Rightarrow> bool \<times> pool_boot" where
  "setup_thread ans i b =
     (if \<not> ans i 0 then (False, b)
      else let b = acquire i StartLock b in
      if \<not> ans i 1 then (False, release i StartLock b)
      else let b = acquire i StartCond b in
      if \<not> ans i 2 then (False, release i StartLock (release i StartCond b))
      else let b = acquire i DoneLock b in
      if \<not> ans i 3 then (False, release i StartLock (release i StartCond (release i DoneLock b)))
      else let b = acquire i DoneCond b in
      if \<not> ans i 4 then (False, release i StartLock (release i StartCond (release i DoneLock (release i DoneCond b))))
      else let b = acquire i ReadHandler (acquire i PipeEnds b) in
      if \<not> ans i 5
      then (False, release i StartLock (release i StartCond (release i DoneLock (release i DoneCond
              (release i PipeEnds (release i ReadHandler b))))))
      else (True, acquire i ReadReg (acquire i WorkerThr b)))"

fun setup_loop :: "(nat \<Rightarrow> nat \<Rightarrow> bool) \<Rightarrow> nat \<Rightarrow> nat \<Rightarrow> pool_boot \<Rightarrow> bool \<times> pool_boot" where
  "setup_loop ans i 0 b = (True, b)"
| "setup_loop ans i (Suc n) b =
     (case setup_thread ans i b of
        (True, b) \<Rightarrow> setup_loop ans (i + 1) n b
      | (False, b) \<Rightarrow> (False, stopThreads i b))"

text \<open>
  \<open>block\<close>, \<open>restore\<close>: whether the signal mask can be set and restored, \<open>qlock\<close> whether the lock of
  the queue can be created.
\<close>

definition pool_start :: "bool \<Rightarrow> (nat \<Rightarrow> nat \<Rightarrow> bool) \<Rightarrow> bool \<Rightarrow> bool \<Rightarrow> nat \<Rightarrow> pool_boot \<Rightarrow> int \<times> pool_boot" where
  "pool_start block ans qlock restore nthreads b =
     (if ThreadArray \<in> b_globals b then (-1, b)
      else if \<not> block then (-1, b)
      else let b = acquire_glob QueueArray (acquire_glob ThreadArray b);
               (ok, b) = setup_loop ans 0 nthreads b;
               (rc, b) = (if ok
                  then (let b = acquire_glob TickHandler b in
                        if qlock then (0 :: int, acquire_glob QueueLock b) else (-1, stopThreads nthreads b))
                  else (-1, b));
               (rc, b) = (if restore then (rc, b) else (-1, if rc = 0 then stopThreads nthreads b else b))
           in if rc = 0 then (rc, acquire_glob PanicReg b)
              else (rc, release_glob QueueArray (release_glob ThreadArray b)))"

definition pool_stop :: "nat \<Rightarrow> pool_boot \<Rightarrow> pool_boot" where
  "pool_stop nthreads b =
     (if ThreadArray \<notin> b_globals b then b
      else release_glob PanicReg (release_glob QueueArray (release_glob QueueLock (release_glob ThreadArray
             (stopThreads nthreads b)))))"

section \<open>What is left\<close>

lemmas res_defs = acquire_def release_def acquire_glob_def release_glob_def

definition thread_res :: "pool_res set" where
  "thread_res = {StartLock, StartCond, DoneLock, DoneCond, PipeEnds, WorkerThr}"

lemma stop_loop_threads:
  "b_threads (stop_loop i n b) = b_threads b - {i..<i + n} \<times> thread_res" "b_globals (stop_loop i n b) = b_globals b"
proof (induction n arbitrary: i b)
  case (Suc n)
  { case 1
    have "{i..<i + Suc n} = insert i {i + 1..<i + 1 + n}" by auto
    then show ?case using Suc(1) [of "i + 1"] by (auto simp: res_defs thread_res_def) }
  { case 2
    show ?case using Suc(2) [of "i + 1"] by (simp add: res_defs) }
qed simp_all

lemma stopThreads_res [simp]:
  "b_threads (stopThreads n b) = b_threads b - {0..<n} \<times> thread_res" "b_globals (stopThreads n b) = b_globals b"
  by (simp_all add: stopThreads_def stop_loop_threads)

lemma setup_thread_res:
  assumes "\<And>r. (i, r) \<notin> b_threads b"
  shows "setup_thread ans i b = (True, b') \<Longrightarrow> b_threads b' = b_threads b \<union> {i} \<times> UNIV"
    "setup_thread ans i b = (False, b') \<Longrightarrow> b_threads b' = b_threads b" "b_globals (snd (setup_thread ans i b)) = b_globals b"
proof -
  have u: "(UNIV :: pool_res set) = {StartLock, StartCond, DoneLock, DoneCond, PipeEnds, ReadHandler, WorkerThr, ReadReg}"
    using pool_res.exhaust by auto
  show "setup_thread ans i b = (True, b') \<Longrightarrow> b_threads b' = b_threads b \<union> {i} \<times> UNIV"
    unfolding u by (auto simp: setup_thread_def Let_def res_defs split: if_splits)
  show "setup_thread ans i b = (False, b') \<Longrightarrow> b_threads b' = b_threads b"
    using assms by (auto simp: setup_thread_def Let_def res_defs split: if_splits)
  show "b_globals (snd (setup_thread ans i b)) = b_globals b"
    by (simp add: setup_thread_def Let_def res_defs)
qed

text \<open>The number of threads, from \<open>i\<close> on, that start before the first call that fails.\<close>

definition calls_ok :: "(nat \<Rightarrow> nat \<Rightarrow> bool) \<Rightarrow> nat \<Rightarrow> bool" where
  "calls_ok ans i = list_all (ans i) [0, 1, 2, 3, 4, 5]"

fun started_threads :: "(nat \<Rightarrow> nat \<Rightarrow> bool) \<Rightarrow> nat \<Rightarrow> nat \<Rightarrow> nat" where
  "started_threads ans i 0 = 0"
| "started_threads ans i (Suc n) = (if calls_ok ans i then Suc (started_threads ans (i + 1) n) else 0)"

definition left_res :: "pool_res set" where
  "left_res = {ReadHandler, ReadReg}"

lemma res_split: "UNIV - thread_res = left_res"
  unfolding thread_res_def left_res_def using pool_res.exhaust by auto

lemma times_minus: "{0..<m} \<times> UNIV - {0..<m} \<times> thread_res = {0..<m} \<times> left_res"
  unfolding res_split [symmetric] by blast

lemma glob_UNIV: "(UNIV :: pool_glob set) = {TickHandler, QueueLock, PanicReg, ThreadArray, QueueArray}"
  using pool_glob.exhaust by auto

lemma setup_thread_ok: "fst (setup_thread ans i b) \<longleftrightarrow> calls_ok ans i"
  by (simp add: setup_thread_def Let_def calls_ok_def)

lemma setup_loop_res:
  assumes "b_threads b = {0..<i} \<times> UNIV" "m = started_threads ans i n"
  shows "fst (setup_loop ans i n b) = (m = n)
    \<and> b_threads (snd (setup_loop ans i n b)) = {0..<i + m} \<times> (if m = n then UNIV else left_res)
    \<and> b_globals (snd (setup_loop ans i n b)) = b_globals b"
  using assms
proof (induction n arbitrary: i b m)
  case (Suc n)
  obtain ok b' where st: "setup_thread ans i b = (ok, b')" by (cases "setup_thread ans i b")
  have fresh: "\<And>r. (i, r) \<notin> b_threads b" using Suc.prems(1) by auto
  have g: "b_globals b' = b_globals b" using setup_thread_res(3) [OF fresh, of ans] st by simp
  have ok: "calls_ok ans i = ok" using setup_thread_ok [of ans i b] st by simp
  show ?case
  proof (cases ok)
    case True
    then have "b_threads b' = {0..<i + 1} \<times> UNIV"
      using setup_thread_res(1) [OF fresh] st Suc.prems(1) by fastforce
    from Suc.IH [of b' "i + 1", OF this refl] show ?thesis using True ok st g Suc.prems(2) by simp
  next
    case False
    then have "b_threads b' = {0..<i} \<times> UNIV"
      using setup_thread_res(2) [OF fresh] st Suc.prems(1) by simp
    then show ?thesis using False ok st g Suc.prems(2) by (simp add: times_minus)
  qed
qed simp

definition pool_none :: pool_boot where
  "pool_none = \<lparr>b_threads = {}, b_globals = {}\<rparr>"

lemma started_all: "(\<And>i. calls_ok ans i) \<Longrightarrow> started_threads ans i n = n"
  by (induction ans i n rule: started_threads.induct) simp_all

lemma pool_start_ok:
  assumes "\<And>i. calls_ok ans i"
  shows "fst (pool_start True ans True True n pool_none) = 0"
proof -
  let ?b = "acquire_glob QueueArray (acquire_glob ThreadArray pool_none)"
  have "b_threads ?b = {0..<0} \<times> UNIV" by (simp add: acquire_glob_def pool_none_def)
  from setup_loop_res [OF this refl, of ans n] have "fst (setup_loop ans 0 n ?b)" using started_all [OF assms] by simp
  then show ?thesis by (auto simp: pool_start_def Let_def pool_none_def split: prod.split)
qed


end
