(* ===== verification/PoolOpts.thy ===== *)
theory PoolOpts
  imports PoolInit
begin

text \<open>
  The options of the thread pool as a bot sets them (\<open>ircbot.c\<close>), and the pool they lead to.
\<close>

section \<open>The setters\<close>

definition IBThreadOpts_setNThreads :: "IBThreadOpts \<Rightarrow> int \<Rightarrow> IBThreadOpts" where
  "IBThreadOpts_setNThreads self num = self\<lparr>nThreads := num\<rparr>"

definition IBThreadOpts_setMaxThreads :: "IBThreadOpts \<Rightarrow> int \<Rightarrow> IBThreadOpts" where
  "IBThreadOpts_setMaxThreads self num = self\<lparr>maxThreads := num\<rparr>"

definition IBThreadOpts_setNPerCpu :: "IBThreadOpts \<Rightarrow> int \<Rightarrow> IBThreadOpts" where
  "IBThreadOpts_setNPerCpu self num = self\<lparr>nPerCpu := num\<rparr>"

definition IBThreadOpts_setDefNThreads :: "IBThreadOpts \<Rightarrow> int \<Rightarrow> IBThreadOpts" where
  "IBThreadOpts_setDefNThreads self num = self\<lparr>defNThreads := num\<rparr>"

definition IBThreadOpts_setQueueLen :: "IBThreadOpts \<Rightarrow> int \<Rightarrow> IBThreadOpts" where
  "IBThreadOpts_setQueueLen self num = self\<lparr>queueLen := num\<rparr>"

definition IBThreadOpts_setMaxQueueLen :: "IBThreadOpts \<Rightarrow> int \<Rightarrow> IBThreadOpts" where
  "IBThreadOpts_setMaxQueueLen self num = self\<lparr>maxQueueLen := num\<rparr>"

definition IBThreadOpts_setMinQueueLen :: "IBThreadOpts \<Rightarrow> int \<Rightarrow> IBThreadOpts" where
  "IBThreadOpts_setMinQueueLen self num = self\<lparr>minQueueLen := num\<rparr>"

definition IBThreadOpts_setQLenPerThread :: "IBThreadOpts \<Rightarrow> int \<Rightarrow> IBThreadOpts" where
  "IBThreadOpts_setQLenPerThread self num = self\<lparr>qLenPerThread := num\<rparr>"

section \<open>Sequences of settings\<close>

datatype opt_call = NThreads int | MaxThreads int | NPerCpu int | DefNThreads int
  | QueueLen int | MaxQueueLen int | MinQueueLen int | QLenPerThread int

fun opt_apply :: "opt_call \<Rightarrow> IBThreadOpts \<Rightarrow> IBThreadOpts" where
  "opt_apply (NThreads n) opts = IBThreadOpts_setNThreads opts n"
| "opt_apply (MaxThreads n) opts = IBThreadOpts_setMaxThreads opts n"
| "opt_apply (NPerCpu n) opts = IBThreadOpts_setNPerCpu opts n"
| "opt_apply (DefNThreads n) opts = IBThreadOpts_setDefNThreads opts n"
| "opt_apply (QueueLen n) opts = IBThreadOpts_setQueueLen opts n"
| "opt_apply (MaxQueueLen n) opts = IBThreadOpts_setMaxQueueLen opts n"
| "opt_apply (MinQueueLen n) opts = IBThreadOpts_setMinQueueLen opts n"
| "opt_apply (QLenPerThread n) opts = IBThreadOpts_setQLenPerThread opts n"

text \<open>The values that make sense, up to \<open>M\<close>: positive ones, and 0 where it means automatic.\<close>

fun opt_legal :: "int \<Rightarrow> opt_call \<Rightarrow> bool" where
  "opt_legal M (NThreads n) \<longleftrightarrow> 0 \<le> n \<and> n \<le> M" | "opt_legal M (MaxThreads n) \<longleftrightarrow> 1 \<le> n \<and> n \<le> M"
| "opt_legal M (NPerCpu n) \<longleftrightarrow> 1 \<le> n \<and> n \<le> M" | "opt_legal M (DefNThreads n) \<longleftrightarrow> 1 \<le> n \<and> n \<le> M"
| "opt_legal M (QueueLen n) \<longleftrightarrow> 0 \<le> n \<and> n \<le> M" | "opt_legal M (MaxQueueLen n) \<longleftrightarrow> 1 \<le> n \<and> n \<le> M"
| "opt_legal M (MinQueueLen n) \<longleftrightarrow> 1 \<le> n \<and> n \<le> M" | "opt_legal M (QLenPerThread n) \<longleftrightarrow> 1 \<le> n \<and> n \<le> M"

definition opts_within :: "int \<Rightarrow> IBThreadOpts \<Rightarrow> bool" where
  "opts_within M opts \<longleftrightarrow> 0 \<le> nThreads opts \<and> nThreads opts \<le> M \<and> 0 \<le> queueLen opts \<and> queueLen opts \<le> M
     \<and> list_all (\<lambda>n. 1 \<le> n \<and> n \<le> M)
         [maxThreads opts, nPerCpu opts, defNThreads opts, maxQueueLen opts, minQueueLen opts, qLenPerThread opts]"

lemmas setter_defs = IBThreadOpts_setNThreads_def IBThreadOpts_setMaxThreads_def IBThreadOpts_setNPerCpu_def
  IBThreadOpts_setDefNThreads_def IBThreadOpts_setQueueLen_def IBThreadOpts_setMaxQueueLen_def
  IBThreadOpts_setMinQueueLen_def IBThreadOpts_setQLenPerThread_def

lemma opt_apply_within: "opts_within M opts \<Longrightarrow> opt_legal M c \<Longrightarrow> opts_within M (opt_apply c opts)"
  by (cases c) (simp_all add: opts_within_def setter_defs)

lemma fold_within: "opts_within M opts \<Longrightarrow> list_all (opt_legal M) cs \<Longrightarrow> opts_within M (fold opt_apply cs opts)"
  by (induction cs arbitrary: opts) (simp_all add: opt_apply_within)

lemma threads_within:
  assumes "opts_within M opts"
  shows "\<exists>n. num_threads opts ncpu = Inr n \<and> 1 \<le> n \<and> n \<le> M"
proof -
  have l: "1 \<le> maxThreads opts" "maxThreads opts \<le> M" "1 \<le> nPerCpu opts" using assms by (simp_all add: opts_within_def)
  have le: "nPerCpu opts * ncpu \<le> maxThreads opts" if "ncpu \<le> maxThreads opts div nPerCpu opts"
    using le_div_mult [OF that l(3)] l(1) by simp
  have "1 \<le> nPerCpu opts * ncpu" if "1 \<le> ncpu"
    using mult_mono [of 1 "nPerCpu opts" 1 ncpu] l(3) that by simp
  with le l assms show ?thesis
    by (auto simp: num_threads_def c_div_pos opts_within_def intro: order_trans)
qed

lemma queue_within:
  assumes "opts_within M opts"
  shows "\<exists>q. queue_size opts n = Inr q \<and> 1 \<le> q \<and> q \<le> M"
proof -
  have l: "1 \<le> maxQueueLen opts" "maxQueueLen opts \<le> M" "1 \<le> qLenPerThread opts" "1 \<le> minQueueLen opts" "minQueueLen opts \<le> M"
    using assms by (simp_all add: opts_within_def)
  have le: "qLenPerThread opts * n \<le> maxQueueLen opts" if "n \<le> maxQueueLen opts div qLenPerThread opts"
    using le_div_mult [OF that l(3)] l(1) by simp
  show ?thesis
    using le l assms by (auto simp: queue_size_def c_div_pos opts_within_def Let_def intro: order_trans)
qed

text \<open>
  Whatever options a bot sets, in any order and number, the pool is sized without a division by
  zero and without leaving the range of the values that were set (so without overflow), it has
  at least one thread and room for one job, and if every call of the system succeeds it starts
  with all its threads.
\<close>

theorem configured_pool:
  assumes "1024 \<le> M" "list_all (opt_legal M) cs"
  shows "\<exists>n q. num_threads (fold opt_apply cs threadOpts) ncpu = Inr n \<and> 1 \<le> n \<and> n \<le> M
    \<and> queue_size (fold opt_apply cs threadOpts) n = Inr q \<and> 1 \<le> q \<and> q \<le> M
    \<and> fst (pool_start True (\<lambda>i k. True) True True (nat n) pool_none) = 0"
proof -
  have "opts_within M threadOpts" using assms(1) by (simp add: opts_within_def threadOpts_def)
  from fold_within [OF this assms(2)] obtain n q where
    "num_threads (fold opt_apply cs threadOpts) ncpu = Inr n \<and> 1 \<le> n \<and> n \<le> M"
    "queue_size (fold opt_apply cs threadOpts) n = Inr q \<and> 1 \<le> q \<and> q \<le> M"
    using threads_within queue_within by meson
  moreover have "fst (pool_start True (\<lambda>i k. True) True True (nat n) pool_none) = 0"
    by (rule pool_start_ok) (simp add: calls_ok_def)
  ultimately show ?thesis by blast
qed

theorem configured_pool_witness:
  "\<exists>n q. num_threads (fold opt_apply [NThreads 3, MinQueueLen 5] threadOpts) 4 = Inr n \<and> 1 \<le> n
    \<and> queue_size (fold opt_apply [NThreads 3, MinQueueLen 5] threadOpts) n = Inr q \<and> q \<le> 1024"
proof -
  have "list_all (opt_legal 1024) [NThreads 3, MinQueueLen 5]" by simp
  from configured_pool [OF order_refl this, of 4] show ?thesis by blast
qed

end
