(* ===== verification/Logging.thy ===== *)
theory Logging
  imports Prelude "HOL-Library.Multiset"
begin

text \<open>
  \<open>src/lib/ircbot/log.c\<close>: which messages reach the log writer, directly or as a job of the thread
  pool, and in what form. A writer is one of the two of the file or a custom one, named by a
  number like its data. A job that is handed to the pool keeps the writer and the data of the
  moment the message was logged.
\<close>

section \<open>State\<close>

datatype IBLogLevel = L_FATAL | L_ERROR | L_WARNING | L_INFO | L_DEBUG

fun level_num :: "IBLogLevel \<Rightarrow> nat" where
  "level_num L_FATAL = 0" | "level_num L_ERROR = 1" | "level_num L_WARNING = 2" | "level_num L_INFO = 3" | "level_num L_DEBUG = 4"

text \<open>The levels compare as the enumeration's numbers.\<close>

lemma level_num_inj: "level_num l = level_num m \<Longrightarrow> l = m"
  by (cases l; cases m) simp_all

instantiation IBLogLevel :: linorder
begin

definition less_eq_IBLogLevel :: "IBLogLevel \<Rightarrow> IBLogLevel \<Rightarrow> bool" where
  "less_eq_IBLogLevel l m \<longleftrightarrow> level_num l \<le> level_num m"

definition less_IBLogLevel :: "IBLogLevel \<Rightarrow> IBLogLevel \<Rightarrow> bool" where
  "less_IBLogLevel l m \<longleftrightarrow> level_num l < level_num m"

instance
  by standard (auto simp: less_eq_IBLogLevel_def less_IBLogLevel_def intro: level_num_inj)

end

abbreviation (input) MAXLOGLINE :: nat where "MAXLOGLINE \<equiv> 16384"

datatype log_writer = WriteFile | WriteSyslog | CustomWriter nat

record LogJobArgs =
  lja_level :: IBLogLevel
  lja_writer :: log_writer
  lja_writerdata :: "nat option"
  lja_message :: string

text \<open>What has been written, and the jobs handed to the pool that have not run yet.\<close>

record Logger =
  currentwriter :: "log_writer option"
  writerdata :: "nat option"
  maxlevel :: IBLogLevel
  logsilent :: bool
  logasync :: bool
  lg_written :: "LogJobArgs list"
  lg_jobs :: "LogJobArgs list"

definition log_init :: Logger where
  "log_init = \<lparr>currentwriter = None, writerdata = None, maxlevel = L_INFO, logsilent = False, logasync = False,
     lg_written = [], lg_jobs = []\<rparr>"

section \<open>Writers\<close>

definition levels :: "IBLogLevel \<Rightarrow> string" where
  "levels l = (case l of L_FATAL \<Rightarrow> ''[FATAL]'' | L_ERROR \<Rightarrow> ''[ERROR]'' | L_WARNING \<Rightarrow> ''[WARN ]''
     | L_INFO \<Rightarrow> ''[INFO ]'' | L_DEBUG \<Rightarrow> ''[DEBUG]'')"

text \<open>The line \<open>writeFile\<close> prints.\<close>

definition file_line :: "IBLogLevel \<Rightarrow> string \<Rightarrow> string" where
  "file_line l message = levels l @ ''  '' @ message @ [CHR 0x0A]"

text \<open>The priorities of \<open>syslog\<close>; its format is \<open>%s\<close>.\<close>

datatype syslog_priority = LOG_CRIT | LOG_ERR | LOG_WARNING | LOG_INFO | LOG_DEBUG

definition syslogLevels :: "IBLogLevel \<Rightarrow> syslog_priority" where
  "syslogLevels l = (case l of L_FATAL \<Rightarrow> LOG_CRIT | L_ERROR \<Rightarrow> LOG_ERR | L_WARNING \<Rightarrow> LOG_WARNING
     | L_INFO \<Rightarrow> LOG_INFO | L_DEBUG \<Rightarrow> LOG_DEBUG)"

text \<open>What leaves the program by a call of a writer: a line in a file, a call of \<open>syslog\<close>, or of a function of the user.\<close>

datatype log_output =
    ToFile nat string
  | ToSyslog syslog_priority string
  | ToCustom nat "nat option" IBLogLevel string

definition writeFile :: "IBLogLevel \<Rightarrow> string \<Rightarrow> nat option \<Rightarrow> log_output result" where
  "writeFile level message data =
     (case data of None \<Rightarrow> Inl NullDeref | Some target \<Rightarrow> Inr (ToFile target (file_line level message)))"

definition writeSyslog :: "IBLogLevel \<Rightarrow> string \<Rightarrow> nat option \<Rightarrow> log_output" where
  "writeSyslog level message data = ToSyslog (syslogLevels level) message"

definition call_writer :: "LogJobArgs \<Rightarrow> log_output result" where
  "call_writer lja =
     (case lja_writer lja of
        WriteFile \<Rightarrow> writeFile (lja_level lja) (lja_message lja) (lja_writerdata lja)
      | WriteSyslog \<Rightarrow> Inr (writeSyslog (lja_level lja) (lja_message lja) (lja_writerdata lja))
      | CustomWriter w \<Rightarrow> Inr (ToCustom w (lja_writerdata lja) (lja_level lja) (lja_message lja)))"

definition IBLog_setFileLogger :: "nat \<Rightarrow> Logger \<Rightarrow> Logger" where
  "IBLog_setFileLogger f lg = lg\<lparr>currentwriter := Some WriteFile, writerdata := Some f\<rparr>"

definition IBLog_setSyslogLogger :: "Logger \<Rightarrow> Logger" where
  "IBLog_setSyslogLogger lg = lg\<lparr>currentwriter := Some WriteSyslog, writerdata := None\<rparr>"

definition IBLog_setCustomLogger :: "nat \<Rightarrow> nat option \<Rightarrow> Logger \<Rightarrow> Logger" where
  "IBLog_setCustomLogger w d lg = lg\<lparr>currentwriter := Some (CustomWriter w), writerdata := d\<rparr>"

definition IBLog_setMaxLogLevel :: "IBLogLevel \<Rightarrow> Logger \<Rightarrow> Logger" where
  "IBLog_setMaxLogLevel l lg = lg\<lparr>maxlevel := l\<rparr>"

definition IBLog_setSilent :: "bool \<Rightarrow> Logger \<Rightarrow> Logger" where
  "IBLog_setSilent b lg = lg\<lparr>logsilent := b\<rparr>"

definition IBLog_setAsync :: "bool \<Rightarrow> Logger \<Rightarrow> Logger" where
  "IBLog_setAsync b lg = lg\<lparr>logasync := b\<rparr>"

section \<open>Logging\<close>

text \<open>A call of a writer.\<close>

definition write_now :: "LogJobArgs \<Rightarrow> Logger \<Rightarrow> Logger" where
  "write_now lja lg = lg\<lparr>lg_written := lg_written lg @ [lja]\<rparr>"

text \<open>
  \<open>active\<close> is whether the thread pool runs, \<open>room\<close> whether it takes the job; the answer of
  \<open>ThreadPool_enqueue\<close> is ignored.
\<close>

definition IBLog_msg :: "bool \<Rightarrow> bool \<Rightarrow> IBLogLevel \<Rightarrow> string \<Rightarrow> Logger \<Rightarrow> Logger" where
  "IBLog_msg active room level message lg =
     (case currentwriter lg of
        None \<Rightarrow> lg
      | Some w \<Rightarrow>
          if logsilent lg \<and> level > L_ERROR then lg
          else if level > maxlevel lg then lg
          else let lja = \<lparr>lja_level = level, lja_writer = w, lja_writerdata = writerdata lg, lja_message = message\<rparr> in
               if logasync lg \<and> active
               then (if room then lg\<lparr>lg_jobs := lg_jobs lg @ [lja]\<rparr> else lg)
               else write_now lja lg)"

text \<open>\<open>text\<close> is what the format and its arguments print.\<close>

definition IBLog_fmt :: "bool \<Rightarrow> bool \<Rightarrow> IBLogLevel \<Rightarrow> string \<Rightarrow> Logger \<Rightarrow> Logger" where
  "IBLog_fmt active room level printed lg =
     (if currentwriter lg = None then lg
      else if logsilent lg \<and> level > L_ERROR then lg
      else if level > maxlevel lg then lg
      else IBLog_msg active room level (take (MAXLOGLINE - 1) printed) lg)"

definition logmsgJobProc :: "LogJobArgs \<Rightarrow> Logger \<Rightarrow> Logger" where
  "logmsgJobProc lja lg = write_now lja lg"

text \<open>A worker runs one of the jobs.\<close>

definition run_job :: "nat \<Rightarrow> Logger \<Rightarrow> Logger" where
  "run_job k lg = (if k < length (lg_jobs lg)
     then logmsgJobProc (lg_jobs lg ! k) (lg\<lparr>lg_jobs := take k (lg_jobs lg) @ drop (k + 1) (lg_jobs lg)\<rparr>) else lg)"

section \<open>What is logged\<close>

datatype log_op =
    SetFile nat | SetSyslog | SetCustom nat "nat option" | SetMax IBLogLevel | SetSilent bool | SetAsync bool
  | LogMsg bool bool IBLogLevel string | LogFmt bool bool IBLogLevel string | RunJob nat

fun log_step :: "log_op \<Rightarrow> Logger \<Rightarrow> Logger" where
  "log_step (SetFile f) lg = IBLog_setFileLogger f lg"
| "log_step SetSyslog lg = IBLog_setSyslogLogger lg"
| "log_step (SetCustom w d) lg = IBLog_setCustomLogger w d lg"
| "log_step (SetMax l) lg = IBLog_setMaxLogLevel l lg"
| "log_step (SetSilent b) lg = IBLog_setSilent b lg"
| "log_step (SetAsync b) lg = IBLog_setAsync b lg"
| "log_step (LogMsg active room l m) lg = IBLog_msg active room l m lg"
| "log_step (LogFmt active room l m) lg = IBLog_fmt active room l m lg"
| "log_step (RunJob k) lg = run_job k lg"

text \<open>
  The specification: the settings at a message decide whether it is logged, by which writer and
  with which data. \<open>lost\<close> is a job the pool has no room for.
\<close>

definition wants :: "IBLogLevel \<Rightarrow> Logger \<Rightarrow> bool" where
  "wants l lg \<longleftrightarrow> currentwriter lg \<noteq> None \<and> l \<le> (if logsilent lg then min L_ERROR (maxlevel lg) else maxlevel lg)"

definition entry :: "IBLogLevel \<Rightarrow> string \<Rightarrow> Logger \<Rightarrow> LogJobArgs" where
  "entry l m lg = \<lparr>lja_level = l, lja_writer = the (currentwriter lg), lja_writerdata = writerdata lg, lja_message = m\<rparr>"

fun logged :: "log_op list \<Rightarrow> Logger \<Rightarrow> LogJobArgs list" where
  "logged [] lg = []"
| "logged (k # ks) lg =
     (case k of
        LogMsg active room l m \<Rightarrow> if wants l lg \<and> (room \<or> \<not> active \<or> \<not> logasync lg) then [entry l m lg] else []
      | LogFmt active room l m \<Rightarrow> if wants l lg \<and> (room \<or> \<not> active \<or> \<not> logasync lg) then [entry l (take 16383 m) lg] else []
      | _ \<Rightarrow> []) @ logged ks (log_step k lg)"

lemma msg_step:
  "IBLog_msg active room l m lg =
     (if wants l lg then (if logasync lg \<and> active then (if room then lg\<lparr>lg_jobs := lg_jobs lg @ [entry l m lg]\<rparr> else lg)
                          else lg\<lparr>lg_written := lg_written lg @ [entry l m lg]\<rparr>)
      else lg)"
  by (auto simp: IBLog_msg_def wants_def entry_def write_now_def Let_def not_less split: option.split)

lemma fmt_step: "IBLog_fmt active room l m lg = IBLog_msg active room l (take (MAXLOGLINE - 1) m) lg"
  by (auto simp: IBLog_fmt_def IBLog_msg_def split: option.split)

definition log_content :: "Logger \<Rightarrow> LogJobArgs multiset" where
  "log_content lg = mset (lg_written lg) + mset (lg_jobs lg)"

lemma run_job_content: "log_content (run_job k lg) = log_content lg"
proof (cases "k < length (lg_jobs lg)")
  case True
  have "mset (lg_jobs lg) = mset (take k (lg_jobs lg) @ lg_jobs lg ! k # drop (k + 1) (lg_jobs lg))"
    using arg_cong [OF id_take_nth_drop [OF True], of mset] by simp
  with True show ?thesis by (simp add: run_job_def logmsgJobProc_def write_now_def log_content_def)
qed (simp add: run_job_def)

lemma log_step_content:
  "log_content (log_step k lg) = log_content lg + mset (logged [k] lg)"
  by (cases k) (simp_all add: run_job_content [unfolded log_content_def] msg_step fmt_step log_content_def IBLog_setFileLogger_def IBLog_setSyslogLogger_def
      IBLog_setCustomLogger_def IBLog_setMaxLogLevel_def IBLog_setSilent_def IBLog_setAsync_def)

text \<open>A file writer always has its file.\<close>

definition writers_ok :: "Logger \<Rightarrow> bool" where
  "writers_ok lg \<longleftrightarrow> (currentwriter lg = Some WriteFile \<longrightarrow> writerdata lg \<noteq> None)
     \<and> list_all (\<lambda>lja. no_fault (call_writer lja)) (lg_written lg) \<and> list_all (\<lambda>lja. no_fault (call_writer lja)) (lg_jobs lg)"

lemma entry_writes: "writers_ok lg \<Longrightarrow> wants l lg \<Longrightarrow> no_fault (call_writer (entry l m lg))"
  by (auto simp: writers_ok_def wants_def entry_def call_writer_def writeFile_def split: log_writer.split)

lemma log_step_writers:
  assumes "writers_ok lg"
  shows "writers_ok (log_step k lg)"
proof -
  note set_defs = IBLog_setFileLogger_def IBLog_setSyslogLogger_def IBLog_setCustomLogger_def IBLog_setMaxLogLevel_def
    IBLog_setSilent_def IBLog_setAsync_def
  have "writers_ok (run_job n lg)" for n
    using assms by (auto simp: writers_ok_def run_job_def logmsgJobProc_def write_now_def list_all_iff dest: in_set_takeD in_set_dropD)
  moreover have "writers_ok (IBLog_msg active room l m lg)" for active room l m
    using assms entry_writes [OF assms, of l m] by (auto simp: msg_step) (simp_all add: writers_ok_def)
  ultimately show ?thesis using assms by (cases k) (simp_all add: fmt_step, simp_all add: writers_ok_def set_defs)
qed


text \<open>While messages are not handed to the pool, they are written in the order they were logged.\<close>

theorem log_in_order:
  assumes "\<forall>k \<in> set ks. \<not> (\<exists>b. k = SetAsync b)"
  shows "lg_written (fold log_step ks log_init) = logged ks log_init \<and> lg_jobs (fold log_step ks log_init) = []"
proof -
  have "lg_written (fold log_step ks lg) = lg_written lg @ logged ks lg \<and> lg_jobs (fold log_step ks lg) = []"
    if "\<not> logasync lg" "lg_jobs lg = []" for lg
    using assms that
  proof (induction ks arbitrary: lg)
    case (Cons k ks)
    have "\<not> logasync (log_step k lg) \<and> lg_jobs (log_step k lg) = [] \<and> lg_written (log_step k lg) = lg_written lg @ logged [k] lg"
      using Cons.prems by (cases k) (auto simp: run_job_def msg_step fmt_step IBLog_setFileLogger_def IBLog_setSyslogLogger_def
          IBLog_setCustomLogger_def IBLog_setMaxLogLevel_def IBLog_setSilent_def)
    with Cons show ?case by simp
  qed simp
  from this [of log_init] show ?thesis by (simp add: log_init_def)
qed

theorem log_in_order_witness:
  "lg_written (fold log_step [SetFile 1, LogMsg False True L_DEBUG ''x'', LogMsg False True L_INFO ''a'', SetSilent True,
     LogMsg False True L_WARNING ''b'', LogMsg False True L_FATAL ''c''] log_init) =
   [\<lparr>lja_level = L_INFO, lja_writer = WriteFile, lja_writerdata = Some 1, lja_message = ''a''\<rparr>,
    \<lparr>lja_level = L_FATAL, lja_writer = WriteFile, lja_writerdata = Some 1, lja_message = ''c''\<rparr>]"
proof -
  let ?ks = "[SetFile 1, LogMsg False True L_DEBUG ''x'', LogMsg False True L_INFO ''a'', SetSilent True,
     LogMsg False True L_WARNING ''b'', LogMsg False True L_FATAL ''c'']"
  have "logged ?ks log_init = [\<lparr>lja_level = L_INFO, lja_writer = WriteFile, lja_writerdata = Some 1, lja_message = ''a''\<rparr>,
    \<lparr>lja_level = L_FATAL, lja_writer = WriteFile, lja_writerdata = Some 1, lja_message = ''c''\<rparr>]" by code_simp
  with log_in_order [of ?ks] show ?thesis by simp
qed

end
