(* ===== verification/Panic.thy ===== *)
theory Panic
  imports Service Logging ThreadPool Util
begin

text \<open>
  Panics: \<open>Service_panic\<close> of \<open>service.c\<close> with the handlers registered for it, the pool's handler
  \<open>panicHandler\<close> (\<open>threadpool.c\<close>), which leaves a job, and the allocation functions of \<open>util.c\<close>,
  which panic when the library's \<open>malloc\<close> gives nothing.
\<close>

section \<open>A panic\<close>

text \<open>
  The handler of the pool: on a thread other than the main one it does not return, but jumps to
  the worker's loop, where the message becomes that of the job. \<open>threads\<close> is whether the pool exists.
\<close>

definition panicHandler :: "bool \<Rightarrow> bool \<Rightarrow> string \<Rightarrow> string option" where
  "panicHandler threads mainthread msg = (if \<not> threads \<or> mainthread then None else Some msg)"

text \<open>The branch of \<open>worker\<close> for a jump out of the job.\<close>

definition worker_panic :: "job \<Rightarrow> string \<Rightarrow> Pool \<Rightarrow> Pool" where
  "worker_panic j msg pool = set_job j (\<lambda>job. job\<lparr>panicmsg := Some msg\<rparr>) pool"

text \<open>The handlers one after the other; \<open>jump\<close> says which of them do not return.\<close>

fun panic_handlers :: "('h \<Rightarrow> string \<Rightarrow> string option) \<Rightarrow> string \<Rightarrow> 'h list \<Rightarrow> 'h list \<times> string option" where
  "panic_handlers jump msg [] = ([], None)"
| "panic_handlers jump msg (h # hs) =
     (case jump h msg of
        Some m \<Rightarrow> ([h], Some m)
      | None \<Rightarrow> (case panic_handlers jump msg hs of (called, out) \<Rightarrow> (h # called, out)))"

text \<open>Where control goes: to the end of a job, to \<open>Service_run\<close>, or the process is aborted.\<close>

datatype panic_end = EndsJob string | EndsService | Aborts

definition Service_panic :: "bool \<Rightarrow> bool \<Rightarrow> ('h \<Rightarrow> string \<Rightarrow> string option) \<Rightarrow> string \<Rightarrow> ('h, 'x) Service_scheme \<Rightarrow> Logger
    \<Rightarrow> 'h list \<times> panic_end \<times> Logger" where
  "Service_panic active room jump msg s lg =
     (case (if running s then panic_handlers jump msg (panic_list s) else ([], None)) of
        (called, Some m) \<Rightarrow> (called, EndsJob m, lg)
      | (called, None) \<Rightarrow>
          (called, if running s then EndsService else Aborts, IBLog_msg active room L_FATAL msg (IBLog_setAsync False lg)))"

text \<open>
  \<open>Service_run\<close> after the jump: \<open>setjmp\<close> gives \<open>-1\<close> and the code goes to the label \<open>shutdown\<close> with
  \<open>rc\<close> as it was when the loop started, which is \<open>EXIT_SUCCESS\<close>.
\<close>

definition run_panicked :: "run_env \<Rightarrow> ('h, 'x) Service_scheme \<Rightarrow> int \<times> ('h, 'x) Service_scheme" where
  "run_panicked e s = (run_done e EXIT_SUCCESS, s\<lparr>running := False\<rparr>)"

lemma handlers_return: "(\<And>h. h \<in> set hs \<Longrightarrow> jump h msg = None) \<Longrightarrow> panic_handlers jump msg hs = (hs, None)"
  by (induction hs) simp_all

lemma handlers_jump:
  "panic_handlers jump msg (hs @ h # rest) = (hs @ [h], Some m)" if "\<And>h. h \<in> set hs \<Longrightarrow> jump h msg = None" "jump h msg = Some m"
  using that by (induction hs) simp_all

text \<open>The fatal message is written at once, whatever the settings of the log.\<close>

lemma fatal_written:
  "lg_written (IBLog_msg active room L_FATAL msg (IBLog_setAsync False lg))
     = lg_written lg @ (if currentwriter lg = None then [] else [entry L_FATAL msg lg])"
  "lg_jobs (IBLog_msg active room L_FATAL msg (IBLog_setAsync False lg)) = lg_jobs lg"
  by (simp_all add: msg_step wants_def entry_def IBLog_setAsync_def less_eq_IBLogLevel_def min_def)

section \<open>Allocation\<close>

text \<open>\<open>given\<close> is whether the library's function gives memory, \<open>panic\<close> the call of \<open>Service_panic\<close>.\<close>

definition alloc_failed :: string where
  "alloc_failed = ''memory allocation failed.''"

definition IB_xmalloc :: "bool \<Rightarrow> (string \<Rightarrow> 'p) \<Rightarrow> nat \<Rightarrow> 'p + char array" where
  "IB_xmalloc given panic sz = (if given then Inr (uninit sz) else Inl (panic alloc_failed))"

definition IB_xrealloc :: "bool \<Rightarrow> (string \<Rightarrow> 'p) \<Rightarrow> char array \<Rightarrow> nat \<Rightarrow> 'p + char array" where
  "IB_xrealloc given panic ptr sz =
     (if given then Inr (take sz ptr @ uninit (sz - length ptr)) else Inl (panic alloc_failed))"

text \<open>The buffer of \<open>appendchr\<close> grows by this function; the other models of \<open>Util\<close> are its successful branch too.\<close>

lemma appendchr_realloc:
  assumes "length (gb_str b) = gb_size b"
  shows "appendchr b chunksz c =
    (case IB_xrealloc True panic (gb_str b) (if gb_pos b \<ge> gb_size b then gb_size b + chunksz else gb_size b) of
       Inr m \<Rightarrow>
         if gb_pos b < length m then Inr (b\<lparr>gb_size := length m, gb_str := m[gb_pos b := Some c], gb_pos := gb_pos b + 1\<rparr>)
         else Inl OutOfBounds)"
  using assms by (cases b) (auto simp: appendchr_def IB_xrealloc_def Let_def uninit_def)

section \<open>A job that panics\<close>

text \<open>
  On a thread, only the pool's handler \<open>p\<close> leaves; \<open>main\<close> is whether the thread is the main one.
\<close>

definition leaves :: "'h \<Rightarrow> bool \<Rightarrow> 'h \<Rightarrow> string \<Rightarrow> string option" where
  "leaves p main h msg = (if h = p then panicHandler True main msg else None)"

text \<open>C19: a panic inside a job, for example of a failed allocation, ends the job and then the service, and is
  reported once: on the worker the handlers run up to that of the pool, which ends the job with nothing
  logged; when the thread reports, the job is destroyed without its finished event, its thread has no job any
  more and no other job of the pool changes its place; then all handlers run on the main thread, the message
  is written directly by the log writer, though logging was asynchronous, and the service ends.\<close>

theorem job_panic_ends_service:
  assumes "running s" "p \<in> set (panic_list s)" "t < length (p_threads pool)" "p_threads pool ! t = Some j"
  shows "\<exists>called pool'.
      Service_panic active room (leaves p False) msg s lg = (called, EndsJob msg, lg)
    \<and> threadJobDone t False (worker_panic j msg pool) = Some (Inr (Some msg, pool'))
    \<and> p_threads pool' = (p_threads pool)[t := None] \<and> p_jq pool' = p_jq pool \<and> p_calls pool' = p_calls pool @ [DestroyJob j]
    \<and> (\<exists>lg'. Service_panic active room (leaves p True) msg s lg = (panic_list s, EndsService, lg')
        \<and> lg_written lg' = lg_written lg @ (if currentwriter lg = None then [] else [entry L_FATAL msg lg]) \<and> lg_jobs lg' = lg_jobs lg)"
proof -
  obtain hs rest where hs: "panic_list s = hs @ p # rest" "p \<notin> set hs" using assms(2) split_list_first by metis
  have "panic_handlers (leaves p False) msg (panic_list s) = (hs @ [p], Some msg)"
    unfolding hs(1) by (rule handlers_jump) (use hs(2) in \<open>auto simp: leaves_def panicHandler_def\<close>)
  then have w: "Service_panic active room (leaves p False) msg s lg = (hs @ [p], EndsJob msg, lg)"
    by (simp add: Service_panic_def assms(1))
  have "panic_handlers (leaves p True) msg (panic_list s) = (panic_list s, None)"
    by (rule handlers_return) (simp add: leaves_def panicHandler_def)
  then have "Service_panic active room (leaves p True) msg s lg
      = (panic_list s, EndsService, IBLog_msg active room L_FATAL msg (IBLog_setAsync False lg))"
    by (simp add: Service_panic_def assms(1))
  then show ?thesis using w assms(3,4)
    by (simp add: fatal_written threadJobDone_def worker_panic_def set_job_def log_pool_def)
qed

text \<open>The service's only handler is the pool's, the log is asynchronous, and an allocation fails in a job.\<close>

definition panic_service :: "nat Service" where
  "panic_service = (Service_registerPanic 1 Service_static)\<lparr>running := True\<rparr>"

definition panic_log :: Logger where
  "panic_log = IBLog_setAsync True (IBLog_setFileLogger 2 log_init)"

definition panic_pool :: "Pool \<Rightarrow> Pool" where
  "panic_pool mem = startThreadJob 0 5 (ThreadPool_init 1 4 mem)"

theorem job_panic_ends_service_witness:
  "\<forall>mem. IB_xmalloc False (\<lambda>msg. Service_panic True True (leaves 1 False) msg panic_service panic_log) 8
       = Inl ([1], EndsJob alloc_failed, panic_log)
    \<and> (\<exists>pool' lg'. threadJobDone 0 False (worker_panic 5 alloc_failed (panic_pool mem)) = Some (Inr (Some alloc_failed, pool'))
        \<and> Service_panic True True (leaves 1 True) alloc_failed panic_service panic_log = ([1], EndsService, lg')
        \<and> lg_written lg' = [\<lparr>lja_level = L_FATAL, lja_writer = WriteFile, lja_writerdata = Some 2, lja_message = alloc_failed\<rparr>])"
proof
  fix mem
  have p: "running panic_service" "panic_list panic_service = [1]"
    by (simp_all add: panic_service_def panic_list_def Service_registerPanic_def Service_static_def cells_def uninit_def numeral_eq_Suc)
  have t: "0 < length (p_threads (panic_pool mem))" "p_threads (panic_pool mem) ! 0 = Some 5"
    by (simp_all add: panic_pool_def startThreadJob_def log_pool_def ThreadPool_init_def)
  from job_panic_ends_service [of panic_service 1 0 "panic_pool mem" 5 True True alloc_failed panic_log] p t
  obtain pool' lg' where r: "threadJobDone 0 False (worker_panic 5 alloc_failed (panic_pool mem)) = Some (Inr (Some alloc_failed, pool'))"
      "Service_panic True True (leaves 1 True) alloc_failed panic_service panic_log = ([1], EndsService, lg')"
      "lg_written lg' = lg_written panic_log @ (if currentwriter panic_log = None then [] else [entry L_FATAL alloc_failed panic_log])"
    by auto
  have "Service_panic True True (leaves 1 False) alloc_failed panic_service panic_log = ([1], EndsJob alloc_failed, panic_log)"
    using p by (simp add: Service_panic_def leaves_def panicHandler_def)
  with r show "IB_xmalloc False (\<lambda>msg. Service_panic True True (leaves 1 False) msg panic_service panic_log) 8
       = Inl ([1], EndsJob alloc_failed, panic_log)
    \<and> (\<exists>pool' lg'. threadJobDone 0 False (worker_panic 5 alloc_failed (panic_pool mem)) = Some (Inr (Some alloc_failed, pool'))
        \<and> Service_panic True True (leaves 1 True) alloc_failed panic_service panic_log = ([1], EndsService, lg')
        \<and> lg_written lg' = [\<lparr>lja_level = L_FATAL, lja_writer = WriteFile, lja_writerdata = Some 2, lja_message = alloc_failed\<rparr>])"
    by (auto simp: IB_xmalloc_def panic_log_def IBLog_setAsync_def IBLog_setFileLogger_def log_init_def entry_def)
qed

text \<open>A service that ends by a panic reports success.\<close>

lemma panic_reports_success: "unblock_ok e \<Longrightarrow> resettimer_ok e \<Longrightarrow> fst (run_panicked e s) = EXIT_SUCCESS"
  by (simp add: run_panicked_def run_done_def)

end
