(* ===== verification/ChannelSession.thy ===== *)
theory ChannelSession
  imports SessionInv Channel SessionLogin
begin

text \<open>
  A channel in a session of its server (\<open>ircchannel.c\<close> over \<open>ircserver.c\<close> and \<open>connection.c\<close>): the
  channel listens to the server's events, its commands go through the server's queue, and its
  timers tick. The server's record is extended by the channel, so all of that happens inside a
  session, while the channel exists.
\<close>

section \<open>The channel as a listener\<close>

text \<open>
  \<open>cs_regs\<close> are the channel's registrations that come and go; \<open>handleMsg\<close> is registered from its
  creation on, for the commands it looks at.
\<close>

record chan_server = logged_server +
  cs_chan :: IrcChannel
  cs_regs :: "ch_reg list"
  cs_told :: "ch_call list"                           \<comment> \<open>history: the channel's own events\<close>
  cs_heard :: "(string \<times> unit IrcMessage) list"       \<comment> \<open>history: the messages, with the nick of the bot at that time\<close>

text \<open>
  The calls of a handler of the channel, in order. On \<open>failed\<close>, the server destroys the channel twice
  (theory \<open>ServerFaults\<close>).
\<close>

definition chan_call :: "ch_call \<Rightarrow> chan_server \<Rightarrow> chan_server result" where
  "chan_call k s =
     (case k of
        ChSend cmd arg \<Rightarrow> bind_result (IrcServer_sendCmd cmd (Some arg) s) (\<lambda>(rc, s). Inr s)
      | ChReg src h i \<Rightarrow> Inr (s\<lparr>cs_regs := apply_call (cs_regs s) k\<rparr>)
      | ChUnreg src h i \<Rightarrow> Inr (s\<lparr>cs_regs := apply_call (cs_regs s) k\<rparr>)
      | RaiseFailed \<Rightarrow> Inl DoubleFree
      | _ \<Rightarrow> Inr (s\<lparr>cs_told := cs_told s @ [k]\<rparr>))"

fun chan_calls :: "ch_call list \<Rightarrow> chan_server \<Rightarrow> chan_server result" where
  "chan_calls [] s = Inr s"
| "chan_calls (k # ks) s = bind_result (chan_call k s) (chan_calls ks)"

definition chan_does :: "ch_result \<Rightarrow> chan_server \<Rightarrow> chan_server result" where
  "chan_does r s = (case r of (ch, calls) \<Rightarrow> chan_calls calls (s\<lparr>cs_chan := ch\<rparr>))"

definition logged_in :: "'x IrcServer_scheme \<Rightarrow> bool" where
  "logged_in s \<longleftrightarrow> s_connst s > 0"

definition chan_raise :: "srv_event \<Rightarrow> chan_server \<Rightarrow> chan_server result" where
  "chan_raise ev s =
     (case ev of
        EvConnected \<Rightarrow>
          if (SrvConnected, JoinOnConnect, 0) \<in> set (cs_regs s) then chan_does (joinOnConnect (logged_in s) (cs_chan s)) s else Inr s
      | EvDisconnected \<Rightarrow>
          if (SrvDisconnected, Disconnected, 0) \<in> set (cs_regs s) then chan_does (disconnected (cs_chan s)) s else Inr s
      | EvMsgReceived m \<Rightarrow>
          let s = s\<lparr>l_log := l_log s @ [m], cs_heard := cs_heard s @ [(s_nick s, m)]\<rparr> in
          bind_result (handleMsg (s_nick s) (cs_chan s) m) (\<lambda>r. chan_does r s)
      | _ \<Rightarrow> Inr s)"

text \<open>Besides what can happen in any session: the program asks for the channel, and its timers tick.\<close>

datatype chan_op = NetOp server_op | AskJoin | JoinTick | RejoinTick

fun chan_act :: "chan_op \<Rightarrow> chan_server \<Rightarrow> chan_server result" where
  "chan_act (NetOp op) s = Inr s"
| "chan_act AskJoin s = chan_does (IrcChannel_join (logged_in s) (cs_chan s)) s"
| "chan_act JoinTick s = (if (SvcTick, Waitjoin, 0) \<in> set (cs_regs s) then chan_does (waitjoin (logged_in s) (cs_chan s)) s else Inr s)"
| "chan_act RejoinTick s = (if (SvcTick, Waitrejoin, 0) \<in> set (cs_regs s) then chan_does (waitrejoin (logged_in s) (cs_chan s)) s else Inr s)"

fun as_chan_op :: "nat \<Rightarrow> chan_op \<Rightarrow> chan_server owner conn_op" where
  "as_chan_op conn (NetOp op) = as_conn_op conn op"
| "as_chan_op conn op = OpAct (server_act (chan_act op))"

definition chan_run :: "passwd option \<Rightarrow> (string \<Rightarrow> passwd option) \<Rightarrow> nat \<Rightarrow> chan_op list
    \<Rightarrow> chan_server owner client_conn \<Rightarrow> chan_server owner client_conn result" where
  "chan_run pwuid pwnam conn ops = conn_run (server_react chan_raise pwuid pwnam conn) (map (as_chan_op conn) ops)"

section \<open>The contracts\<close>

lemma chan_heard: "heard [] s (s\<lparr>cs_chan := ch\<rparr>)" "heard [] s (s\<lparr>cs_regs := r\<rparr>)" "heard [] s (s\<lparr>cs_told := n\<rparr>)"
  "heard [m] s (s\<lparr>l_log := l_log s @ [m], cs_heard := h\<rparr>)"
  by (simp_all add: heard_def recv_same_def talks_same)

lemma sendCmd_heard: "IrcServer_sendCmd cmd args s = Inr (rc, t) \<Longrightarrow> heard [] s t"
  by (auto simp: IrcServer_sendCmd_def bind_result_eq_Inr sendRawCmd_heard split: if_splits)

lemma rest_sendCmd: "IrcServer_sendCmd cmd args s = Inr (rc, t) \<Longrightarrow> same_rest s t"
  by (auto simp: IrcServer_sendCmd_def bind_result_eq_Inr intro: rest_intros split: if_splits)

lemma chan_call_heard: "chan_call k s = Inr t \<Longrightarrow> heard [] s t"
  by (cases k) (auto simp: chan_call_def chan_heard bind_result_eq_Inr intro: sendCmd_heard)

lemma chan_calls_heard: "chan_calls ks s = Inr t \<Longrightarrow> heard [] s t"
proof (induction ks arbitrary: s)
  case (Cons k ks)
  then obtain u where "chan_call k s = Inr u" "chan_calls ks u = Inr t" by (auto simp: bind_result_eq_Inr)
  with Cons.IH show ?case by (blast intro: heard_trans chan_call_heard)
qed simp

lemma chan_does_heard: "chan_does r s = Inr t \<Longrightarrow> heard [] s t"
  by (auto simp: chan_does_def split: prod.splits dest!: chan_calls_heard intro: heard_trans [OF chan_heard(1)])

interpretation chan_listener: listener chan_raise
proof
  fix ev and s s' :: chan_server
  assume r: "chan_raise ev s = Inr s'"
  show "heard (event_messages ev) s s'"
  proof (cases ev)
    case (EvMsgReceived m)
    let ?s = "s\<lparr>l_log := l_log s @ [m], cs_heard := cs_heard s @ [(s_nick s, m)]\<rparr>"
    obtain r' where "chan_does r' ?s = Inr s'"
      using r EvMsgReceived by (auto simp: chan_raise_def Let_def bind_result_eq_Inr)
    from chan_does_heard [OF this] have "heard [m] s s'"
      using chan_heard(4) [of m s] by (auto simp: heard_def intro: recv_same_trans talks_trans)
    with EvMsgReceived show ?thesis by simp
  qed (use r chan_does_heard in \<open>auto simp: chan_raise_def split: if_splits\<close>)
qed

lemma chan_act_heard: "chan_act op s = Inr t \<Longrightarrow> heard [] s t"
  by (cases op) (auto intro: chan_does_heard split: if_splits)

section \<open>What is kept\<close>

text \<open>
  The channel as the protocol has it: who is on it and what was told about them, after the
  messages that came, each with the nick the bot had.
\<close>

definition chan_spec :: "string \<Rightarrow> string \<times> unit IrcMessage \<Rightarrow> string set \<times> ch_call list \<Rightarrow> string set \<times> ch_call list" where
  "chan_spec name = (\<lambda>(own, m) (ns, told).
     (track own name (m_command m) (sender_nick m) (objs (m_params m)) ns,
      told @ tell own name (m_command m) (sender_nick m) (objs (m_params m)) ns))"

lemma chan_spec_apply: "chan_spec name (own, m) v =
    (track own name (m_command m) (sender_nick m) (objs (m_params m)) (fst v),
     snd v @ tell own name (m_command m) (sender_nick m) (objs (m_params m)) (fst v))"
  by (simp add: chan_spec_def split: prod.split)

definition chan_view :: "chan_server \<Rightarrow> string set \<times> ch_call list" where
  "chan_view s = (nicks_of (cs_chan s), user_events (cs_told s))"

definition chan_inv :: "string \<Rightarrow> chan_server \<Rightarrow> bool" where
  "chan_inv name s \<longleftrightarrow> map snd (cs_heard s) = l_log s \<and> ch_name (cs_chan s) = name
     \<and> (list_all (\<lambda>m. IBList_ok (m_params m)) (l_log s) \<longrightarrow>
          channel_ok (cs_chan s) \<and> chan_view s = fold (chan_spec name) (cs_heard s) ({}, []))"

lemma rest_fields:
  assumes "same_rest s t"
  shows "l_log t = l_log s" "cs_chan t = cs_chan s" "cs_regs t = cs_regs s" "cs_told t = cs_told s" "cs_heard t = cs_heard s"
  using assms by (cases s; cases t; simp add: same_rest_def)+

lemma chan_inv_rest: "same_rest s t \<Longrightarrow> chan_inv name s \<Longrightarrow> chan_inv name t"
  by (simp add: chan_inv_def chan_view_def rest_fields)

text \<open>The calls of a handler leave the channel alone, and tell what they say.\<close>

definition chan_same :: "chan_server \<Rightarrow> chan_server \<Rightarrow> bool" where
  "chan_same s t \<longleftrightarrow> cs_chan t = cs_chan s \<and> cs_heard t = cs_heard s \<and> l_log t = l_log s"

lemma chan_call_does:
  "chan_call k s = Inr t \<Longrightarrow> chan_same s t \<and> user_events (cs_told t) = user_events (cs_told s) @ user_events [k]"
  by (cases k) (auto simp: chan_call_def chan_same_def bind_result_eq_Inr user_events_def rest_fields dest!: rest_sendCmd)

lemma chan_calls_does:
  "chan_calls ks s = Inr t \<Longrightarrow> chan_same s t \<and> user_events (cs_told t) = user_events (cs_told s) @ user_events ks"
proof (induction ks arbitrary: s)
  case (Cons k ks)
  then obtain u where u: "chan_call k s = Inr u" "chan_calls ks u = Inr t" by (auto simp: bind_result_eq_Inr)
  have "user_events (k # ks) = user_events [k] @ user_events ks" by (simp add: user_events_def)
  with Cons.IH [OF u(2)] chan_call_does [OF u(1)] show ?case by (simp add: chan_same_def)
qed (simp add: chan_same_def user_events_def)

lemma chan_does_does:
  assumes "chan_does r s = Inr t"
  shows "cs_chan t = fst r \<and> cs_heard t = cs_heard s \<and> l_log t = l_log s \<and> user_events (cs_told t) = user_events (cs_told s) @ user_events (snd r)"
  using assms chan_calls_does [of "snd r" "s\<lparr>cs_chan := fst r\<rparr>" t] by (simp add: chan_does_def chan_same_def split: prod.splits)

text \<open>A handler that does not look at a message.\<close>

lemma chan_quiet:
  assumes "chan_does r s = Inr t" "chan_inv name s" "ch_nicks (fst r) = ch_nicks (cs_chan s)"
    "ch_name (fst r) = ch_name (cs_chan s)" "user_events (snd r) = []"
  shows "chan_inv name t"
proof -
  note d = chan_does_does [OF assms(1)]
  have "nicks_of (fst r) = nicks_of (cs_chan s)" "channel_ok (fst r) = channel_ok (cs_chan s)"
    using assms(3) by (simp_all add: nicks_of_def channel_ok_def)
  with d assms(2,4,5) show ?thesis by (simp add: chan_inv_def chan_view_def)
qed

lemma chan_message:
  assumes "chan_raise (EvMsgReceived m) s = Inr t" "chan_inv name s"
  shows "chan_inv name t"
proof -
  let ?s = "s\<lparr>l_log := l_log s @ [m], cs_heard := cs_heard s @ [(s_nick s, m)]\<rparr>"
  obtain ch calls where h: "handleMsg (s_nick s) (cs_chan s) m = Inr (ch, calls)" "chan_does (ch, calls) ?s = Inr t"
    using assms(1) by (auto simp: chan_raise_def Let_def bind_result_eq_Inr)
  note d = chan_does_does [OF h(2)]
  have "ch_name ch = ch_name (cs_chan s)" using handleMsg_name [OF h(1)] .
  moreover have "channel_ok ch \<and> chan_view t = fold (chan_spec name) (cs_heard t) ({}, [])"
    if "list_all (\<lambda>m. IBList_ok (m_params m)) (l_log t)"
  proof -
    have ok: "channel_ok (cs_chan s)" "chan_view s = fold (chan_spec name) (cs_heard s) ({}, [])" "ch_name (cs_chan s) = name"
        "IBList_ok (m_params m)"
      using assms(2) d that by (simp_all add: chan_inv_def)
    from handleMsg_tells [OF ok(1,4) h(1)] d ok(3) show ?thesis
      by (simp add: chan_spec_apply ok(2) [symmetric]) (simp add: chan_view_def)
  qed
  ultimately show ?thesis using assms(2) d by (simp add: chan_inv_def)
qed

lemma chan_raise_inv:
  assumes "chan_raise ev s = Inr t" "chan_inv name s"
  shows "chan_inv name t"
proof (cases ev)
  case (EvMsgReceived m)
  with assms chan_message show ?thesis by blast
qed (use assms chan_quiet others_keep_nicks others_keep_name others_tell_nothing in \<open>auto simp: chan_raise_def split: if_splits\<close>)

lemma chan_act_inv: "chan_act op s = Inr t \<Longrightarrow> chan_inv name s \<Longrightarrow> chan_inv name t"
  by (cases op) (auto intro: chan_quiet simp: others_keep_nicks others_keep_name others_tell_nothing split: if_splits)

interpretation chan_kept: kept chan_raise pwuid pwnam conn "chan_inv name" for pwuid pwnam conn name
proof (unfold_locales, goal_cases)
  case (1 ev s t)
  then show ?case using chan_raise_inv by blast
next
  case (2 s t)
  then show ?case using chan_inv_rest by blast
qed

lemma chan_op_keeping: "keeping (chan_inv name) conn (as_chan_op conn op)"
proof -
  have "keeping (chan_inv name) conn (OpAct (server_act (chan_act op)))"
    using chan_act_heard chan_act_inv by (intro keeping_act) (blast intro: asksI)
  then show ?thesis by (cases op) simp_all
qed


section \<open>From the bytes to the channel\<close>

text \<open>A channel that was just created, with any registrations, on a server without a connection.\<close>

definition new_channel :: "string \<Rightarrow> chan_server \<Rightarrow> bool" where
  "new_channel name s \<longleftrightarrow> fresh s \<and> (\<exists>mem. cs_chan s = fst (IrcChannel_create mem name)) \<and> cs_told s = [] \<and> cs_heard s = []"

lemma new_channel_inv: "new_channel name s \<Longrightarrow> fresh s \<and> chan_inv name s"
  using create_channel_ok
  by (auto simp: new_channel_def chan_inv_def chan_view_def user_events_def fresh_def) (auto simp: IrcChannel_create_def)

lemma stream_params_ok: "list_all (\<lambda>m. IBList_ok (m_params m)) (stream_messages d)"
proof -
  have "IBList_ok (m_params (parse_line () l))" for l
    using parse_line_correct [of "()" l] by (auto simp: message_of_line_def split: prod.splits)
  then show ?thesis by (simp add: stream_messages_def list_all_iff)
qed


text \<open>The server lets the bot in, ann is on the channel, joe joins it and ann quits.\<close>

definition chan_stream :: string where
  "chan_stream = '':s 004 bot s v'' @ CRLF @ '':s 353 bot = #c :@bot ann'' @ CRLF @ '':joe!j@h JOIN #c'' @ CRLF @ '':ann!a@h QUIT'' @ CRLF"

definition chan_answers :: sys_answers where
  "chan_answers = \<lparr>sa_failed = False, sa_handshake = Again WANT_WRITE, sa_write = Ready 600, sa_read = Ready chan_stream\<rparr>"

definition demo_chan :: chan_server where
  "demo_chan = \<lparr>s_id = ''s'', s_remotehost = ''h'', s_tls = None, s_name = None, s_nick = ''bot'', s_user = Some ''me'',
     s_realname = Some ''Me'', s_channels = IBHashTable_create 6, s_conn = None, s_sendQueue = None,
     s_sendcmd = None, s_proto = CP_ANY, s_port = 6667, s_sending = False, s_connst = 0, s_loginticks = 0,
     s_reconnticks = 0, s_idleticks = 0, s_sendcreditticks = 0, s_recvbufsz = 0,
     s_recvbuf = replicate RECVBUFSZ NUL, s_livechans = [], s_nextchan = 0, s_calls = [], l_log = [],
     cs_chan = fst (IrcChannel_create \<lparr>ch_name = [], ch_nicks = IBHashTable_create 8, isJoined = False, wantJoined = False,
       joinsyncticks = 0, rejointicks = 0\<rparr> ''#c''),
     cs_regs = [], cs_told = [], cs_heard = []\<rparr>"

lemma demo_chan_new: "new_channel ''#c'' demo_chan"
  unfolding new_channel_def by (auto simp: demo_chan_def fresh_def)

definition chan_messages :: "unit IrcMessage list" where
  "chan_messages = tl (stream_messages chan_stream)"

lemma chan_stream_messages:
  "stream_messages chan_stream = demo_welcome # chan_messages"
  "map m_command chan_messages = [RPL_NAMREPLY, MSG_JOIN, MSG_QUIT]"
  "map m_prefix chan_messages = [Some ''s'', Some ''joe!j@h'', Some ''ann!a@h'']"
  "map (\<lambda>m. objs (m_params m)) chan_messages = [[''bot'', ''='', ''#c'', ''@bot ann''], [''#c''], []]"
  by code_simp+

lemma chan_stream_short: "short_lines chan_stream"
proof -
  have "length (snd (crlf_split t)) \<le> length t" for t
    using crlf_rest_end [of t] by (metis length_append le_add2)
  then have "length (snd (crlf_split (take k chan_stream))) \<le> length chan_stream" for k
    by (rule le_trans) simp
  then show ?thesis unfolding short_lines_def by (rule le_trans [THEN allI]) (simp add: chan_stream_def)
qed

text \<open>Messages about users only: the handler does nothing but tell about them, and the server nothing at all.\<close>

lemma user_message:
  assumes "m_command m \<in> {RPL_NAMREPLY, MSG_JOIN, MSG_QUIT}" "handleMsg own self m = Inr (ch, calls)"
  shows "user_events calls = calls"
  using assms by (auto simp: handleMsg_def leave_msg_def bind_result_eq_Inr user_events_def Let_def case_prod_beta split: if_splits)

lemma tell_calls: "user_events calls = calls \<Longrightarrow> \<exists>told. chan_calls calls s = Inr (s\<lparr>cs_told := told\<rparr>)"
proof (induction calls arbitrary: s)
  case (Cons k ks)
  then obtain n where k: "k = RaiseEntered n \<or> k = RaiseLeft n"
    by (cases k) (auto simp: user_events_def split: if_splits dest: filter_eq_Cons_iff [THEN iffD1])
  with Cons.prems have "user_events ks = ks" by (auto simp: user_events_def)
  from Cons.IH [OF this, of "s\<lparr>cs_told := cs_told s @ [k]\<rparr>"] k show ?case by (auto simp: chan_call_def)
next
  case Nil
  show ?case by (rule exI [of _ "cs_told s"]) simp
qed

lemma message_runs:
  assumes "channel_ok (cs_chan s)" "IBList_ok (m_params m)" "scan_nick (m_prefix m) = Inr who"
    and "m_command m \<in> {RPL_NAMREPLY, MSG_JOIN, MSG_QUIT}"
  shows "\<exists>ch told. chan_raise (EvMsgReceived m) s = Inr (s\<lparr>l_log := l_log s @ [m], cs_heard := cs_heard s @ [(s_nick s, m)], cs_chan := ch, cs_told := told\<rparr>)
    \<and> channel_ok ch"
proof -
  obtain ch calls where h: "handleMsg (s_nick s) (cs_chan s) m = Inr (ch, calls)" "channel_ok ch"
    using handleMsg_runs [OF assms(1-3)] by blast
  from tell_calls [OF user_message [OF assms(4) h(1)]] h show ?thesis
    by (force simp: chan_raise_def Let_def chan_does_def)
qed

lemma user_step:
  assumes "s_nick s = ''bot''" "channel_ok (cs_chan s)" "IBList_ok (m_params m)" "m_prefix m = Some p"
    "scan_nick (Some p) = Inr who" "take 3 p \<noteq> ''bot''" "m_command m \<in> {RPL_NAMREPLY, MSG_JOIN, MSG_QUIT}"
  shows "\<exists>t. handleMessage chan_raise m s = Inr t \<and> s_nick t = ''bot'' \<and> channel_ok (cs_chan t) \<and> s_connst t = s_connst s
    \<and> cs_heard t = cs_heard s @ [(''bot'', m)]"
proof -
  have "from_self s (m_prefix m) = Inr False"
    using assms(1,4,6) by (simp add: from_self_def strncmp_eq_def numeral_eq_Suc)
  then have "handleMessage chan_raise m s = chan_raise (EvMsgReceived m) s"
    using assms(7) by (auto simp: handleMessage_def Let_def)
  with message_runs [of s m who] assms show ?thesis by fastforce
qed

lemma welcome_step:
  assumes "s_nick s = ''bot''" "channel_ok (cs_chan s)" "cs_regs s = []" "cs_heard s = []"
  shows "\<exists>t. handleMessage chan_raise demo_welcome s = Inr t \<and> s_nick t = ''bot'' \<and> channel_ok (cs_chan t) \<and> s_connst t = 1
    \<and> cs_heard t = [(''bot'', demo_welcome)]"
proof -
  have c: "m_command demo_welcome = RPL_MYINFO" by (simp add: demo_welcome_def)
  then have h: "handleMsg own ch demo_welcome = Inr (ch, [])" for own ch by (simp add: handleMsg_def Let_def)
  show ?thesis
    using assms by (simp add: handleMessage_def c demo_params Let_def chan_raise_def h chan_does_def call_def)
qed

lemma demo_chan_handled:
  assumes "s_nick s = ''bot''" "channel_ok (cs_chan s)" "cs_regs s = []" "cs_heard s = []"
  shows "\<exists>u. handle_all chan_raise (stream_messages chan_stream) s = Inr u \<and> s_connst u = 1
    \<and> cs_heard u = map (Pair ''bot'') (stream_messages chan_stream)"
proof -
  obtain names joins quits where ms: "chan_messages = [names, joins, quits]"
    using chan_stream_messages(2) by (auto simp: map_eq_Cons_conv)
  have c: "m_command names = RPL_NAMREPLY" "m_command joins = MSG_JOIN" "m_command quits = MSG_QUIT"
    "m_prefix names = Some ''s''" "m_prefix joins = Some ''joe!j@h''" "m_prefix quits = Some ''ann!a@h''"
    using chan_stream_messages(2,3) by (simp_all add: ms)
  have p: "IBList_ok (m_params names)" "IBList_ok (m_params joins)" "IBList_ok (m_params quits)"
    using stream_params_ok [of chan_stream] by (simp_all add: chan_stream_messages(1) ms)
  have w: "scan_nick (Some ''s'') = Inr ''s''" "scan_nick (Some ''joe!j@h'') = Inr ''joe''" "scan_nick (Some ''ann!a@h'') = Inr ''ann''"
    by code_simp+
  obtain t0 where t0: "handleMessage chan_raise demo_welcome s = Inr t0" "s_nick t0 = ''bot''" "channel_ok (cs_chan t0)" "s_connst t0 = 1"
      "cs_heard t0 = [(''bot'', demo_welcome)]"
    using welcome_step [OF assms] by blast
  obtain t1 where t1: "handleMessage chan_raise names t0 = Inr t1" "s_nick t1 = ''bot''" "channel_ok (cs_chan t1)" "s_connst t1 = 1"
      "cs_heard t1 = cs_heard t0 @ [(''bot'', names)]"
    using user_step [OF t0(2,3) p(1) c(4) w(1)] t0(4) c(1) by auto
  obtain t2 where t2: "handleMessage chan_raise joins t1 = Inr t2" "s_nick t2 = ''bot''" "channel_ok (cs_chan t2)" "s_connst t2 = 1"
      "cs_heard t2 = cs_heard t1 @ [(''bot'', joins)]"
    using user_step [OF t1(2,3) p(2) c(5) w(2)] t1(4) c(2) by auto
  obtain t3 where t3: "handleMessage chan_raise quits t2 = Inr t3" "s_connst t3 = 1" "cs_heard t3 = cs_heard t2 @ [(''bot'', quits)]"
    using user_step [OF t2(2,3) p(3) c(6) w(3)] t2(4) c(3) by auto
  show ?thesis
    using t0 t1 t2 t3 by (simp add: chan_stream_messages(1) ms)
qed

lemma demo_chan_spec:
  "fold (chan_spec ''#c'') (map (Pair ''bot'') (stream_messages chan_stream)) ({}, []) = ({''joe''}, [RaiseEntered ''joe'', RaiseLeft ''ann''])"
proof -
  obtain names joins quits where ms: "chan_messages = [names, joins, quits]"
    using chan_stream_messages(2) by (auto simp: map_eq_Cons_conv)
  have f: "m_command names = RPL_NAMREPLY" "m_command joins = MSG_JOIN" "m_command quits = MSG_QUIT"
    "objs (m_params names) = [''bot'', ''='', ''#c'', ''@bot ann'']" "objs (m_params joins) = [''#c'']" "objs (m_params quits) = []"
    using chan_stream_messages(2,4) by (simp_all add: ms)
  have "m_prefix joins = Some ''joe!j@h''" "m_prefix quits = Some ''ann!a@h''" using chan_stream_messages(3) by (simp_all add: ms)
  moreover have "scan_nick (Some ''joe!j@h'') = Inr ''joe''" "scan_nick (Some ''ann!a@h'') = Inr ''ann''" by code_simp+
  ultimately have w: "sender_nick joins = ''joe''" "sender_nick quits = ''ann''" by (simp_all add: sender_nick_def)
  have n: "split_fields '' '' ''@bot ann'' = [''@bot'', ''ann'']" "name_entry ''bot'' ''@bot'' = None" "name_entry ''bot'' ''ann'' = Some ''ann''"
    by code_simp+
  have names: "names_of ''bot'' ''@bot ann'' = {''ann''}" by (auto simp: names_of_def n)
  have c: "m_command demo_welcome = RPL_MYINFO" by (simp add: demo_welcome_def)
  have s0: "chan_spec ''#c'' (''bot'', demo_welcome) ({}, []) = ({}, [])" by (simp add: chan_spec_apply track_def tell_def c Let_def)
  have s1: "chan_spec ''#c'' (''bot'', names) ({}, []) = ({''ann''}, [])" by (simp add: chan_spec_apply track_def tell_def f Let_def names)
  have s2: "chan_spec ''#c'' (''bot'', joins) ({''ann''}, []) = ({''joe'', ''ann''}, [RaiseEntered ''joe''])"
    by (simp add: chan_spec_apply track_def tell_def f Let_def w)
  have s3: "chan_spec ''#c'' (''bot'', quits) ({''joe'', ''ann''}, [RaiseEntered ''joe'']) = ({''joe''}, [RaiseEntered ''joe'', RaiseLeft ''ann''])"
    by (auto simp: chan_spec_apply track_def tell_def f Let_def w)
  show ?thesis by (simp add: chan_stream_messages(1) ms s0 s1 s2 s3)
qed


end
