(* ===== verification/Daemon.thy ===== *)
theory Daemon
  imports Prelude
begin

text \<open>
  \<open>src/lib/ircbot/daemon.c\<close>: taking the pidfile, and the three processes of a daemon that
  starts (the caller, its child and the daemon itself) with the lock they hand over. What the
  system answers to the calls on the pidfile is an argument of \<open>openpidfile\<close>; the processes are
  an interleaving of steps on a small model of one path with inodes, contents and record locks
  as POSIX describes them: a lock belongs to a process, is not inherited by \<open>fork\<close> and is
  released when the process closes the file.
\<close>

section \<open>Taking the pidfile\<close>

text \<open>
  The answers: whether the file opens for reading; the lock \<open>F_GETLK\<close> finds (failure, none, or
  the process that has it); whether the own read lock is granted; the process the second
  \<open>F_GETLK\<close> names; whether the file is removed; what \<open>fscanf\<close> reads; whether the file opens for
  writing; whether the write lock is granted.
\<close>

record pf_answers =
  pa_open :: bool
  pa_getlk :: "int option option"
  pa_rdlock :: bool
  pa_getlk2 :: int
  pa_unlink :: bool
  pa_scan :: "int option"
  pa_create :: bool
  pa_wrlock :: bool

datatype pf_msg = NoLockInfo | RemovingStale | CannotRemove | Disagree int int | AlreadyRunning int | CannotOpen | LockFailed

datatype pf_call = OpenRead | ReadLock | Unlink | CloseRead | OpenWrite | WriteLock | CloseWrite | Say pf_msg

text \<open>Giving up because the file is locked by \<open>owner\<close>.\<close>

definition pf_locked :: "int option \<Rightarrow> int \<Rightarrow> pf_call list" where
  "pf_locked scan owner =
     CloseRead # (case scan of
        None \<Rightarrow> [Say (Disagree (- 1) owner)]
      | Some p \<Rightarrow> if p \<noteq> owner then [Say (Disagree p owner)] else [Say (AlreadyRunning p)])"

text \<open>Opening for writing, once no file is left.\<close>

definition pf_create :: "pf_answers \<Rightarrow> bool \<times> pf_call list" where
  "pf_create a =
     (if \<not> pa_create a then (False, [Say CannotOpen])
      else if \<not> pa_wrlock a then (False, [OpenWrite, CloseWrite, Say LockFailed])
      else (True, [OpenWrite, WriteLock]))"

definition openpidfile :: "pf_answers \<Rightarrow> bool \<times> pf_call list" where
  "openpidfile a =
     (if \<not> pa_open a then pf_create a
      else case pa_getlk a of
             None \<Rightarrow> (False, [OpenRead, Say NoLockInfo])
           | Some (Some owner) \<Rightarrow> (False, OpenRead # pf_locked (pa_scan a) owner)
           | Some None \<Rightarrow>
               if \<not> pa_rdlock a then (False, OpenRead # pf_locked (pa_scan a) (pa_getlk2 a))
               else if \<not> pa_unlink a then (False, [OpenRead, ReadLock, Say RemovingStale, Say CannotRemove])
               else (case pf_create a of (ok, ks) \<Rightarrow> (ok, [OpenRead, ReadLock, Say RemovingStale, Unlink, CloseRead] @ ks)))"

section \<open>Waiting for the lock, and for the daemon\<close>

datatype setlkw = Granted | Interrupted | LockError

text \<open>\<open>None\<close>: the call has not returned yet.\<close>

fun waitpflock :: "setlkw list \<Rightarrow> int option" where
  "waitpflock [] = None"
| "waitpflock (Granted # as) = Some 0"
| "waitpflock (Interrupted # as) = waitpflock as"
| "waitpflock (LockError # as) = Some (- 1)"

text \<open>
  The caller copies what the daemon writes to standard error; a read that ends with a zero byte
  means that the daemon failed. The result is the exit status and the bytes copied.
\<close>

fun relay :: "string list \<Rightarrow> int \<times> string" where
  "relay [] = (0, [])"
| "relay (buf # bufs) =
     (if last buf = NUL then (1, butlast buf)
      else (case relay bufs of (drc, out) \<Rightarrow> (drc, buf @ out)))"

section \<open>The system\<close>

type_synonym pid = nat

text \<open>The pidfile's path, and for each inode the number in it and who has its write lock.\<close>

record pidfs =
  fs_path :: "nat option"
  fs_next :: nat
  fs_content :: "nat \<Rightarrow> pid option"
  fs_lock :: "nat \<Rightarrow> pid option"

text \<open>The answers \<open>openpidfile\<close> gets when no other process runs meanwhile.\<close>

definition fs_answers :: "pid \<Rightarrow> pidfs \<Rightarrow> pf_answers" where
  "fs_answers me fs =
     (let lock = (case fs_path fs of None \<Rightarrow> None | Some n \<Rightarrow> if fs_lock fs n = Some me then None else fs_lock fs n);
          text_of = (case fs_path fs of None \<Rightarrow> None | Some n \<Rightarrow> fs_content fs n)
      in \<lparr>pa_open = fs_path fs \<noteq> None, pa_getlk = Some (map_option int lock), pa_rdlock = True, pa_getlk2 = 0,
          pa_unlink = True, pa_scan = map_option int text_of, pa_create = True, pa_wrlock = True\<rparr>)"

definition fs_unlock :: "pid \<Rightarrow> nat \<Rightarrow> pidfs \<Rightarrow> pidfs" where
  "fs_unlock me n fs = (if fs_lock fs n = Some me then fs\<lparr>fs_lock := (fs_lock fs)(n := None)\<rparr> else fs)"

fun fs_call :: "pid \<Rightarrow> pf_call \<Rightarrow> pidfs \<Rightarrow> pidfs" where
  "fs_call me Unlink fs = fs\<lparr>fs_path := None\<rparr>"
| "fs_call me OpenWrite fs =
     (case fs_path fs of
        None \<Rightarrow> fs\<lparr>fs_path := Some (fs_next fs), fs_content := (fs_content fs)(fs_next fs := None),
                  fs_lock := (fs_lock fs)(fs_next fs := None), fs_next := fs_next fs + 1\<rparr>
      | Some n \<Rightarrow> fs\<lparr>fs_content := (fs_content fs)(n := None)\<rparr>)"
| "fs_call me WriteLock fs =
     (case fs_path fs of None \<Rightarrow> fs | Some n \<Rightarrow> fs\<lparr>fs_lock := (fs_lock fs)(n := Some me)\<rparr>)"
| "fs_call me CloseWrite fs = (case fs_path fs of None \<Rightarrow> fs | Some n \<Rightarrow> fs_unlock me n fs)"
| "fs_call me _ fs = fs"

definition fs_open :: "pid \<Rightarrow> pidfs \<Rightarrow> (bool \<times> pf_call list) \<times> pidfs" where
  "fs_open me fs = (let r = openpidfile (fs_answers me fs) in (r, fold (fs_call me) (snd r) fs))"

section \<open>The processes\<close>

text \<open>
  Where each process of an instance is. The number is the exit status; \<open>PClose\<close> is the caller
  after \<open>fork\<close>, \<open>PRelay\<close> while it waits for the daemon, \<open>CWait\<close> and \<open>GWait\<close> are in
  \<open>waitpflock\<close>, \<open>GMain\<close> runs \<open>dmain\<close>, \<open>GUnlink\<close> is between closing and removing the pidfile.
\<close>

datatype caller = PStart | PFork | PClose | PRelay | PExit int
datatype child = CNone | CWait | CSetsid | CFork | CWrite | CClose | CExit int
datatype grandchild = GNone | GWait | GChdir | GMain | GUnlink int | GExit int

text \<open>
  An instance of the program that daemonizes: \<open>i_file\<close> is the inode of the open pidfile,
  \<open>i_failed\<close> whether the zero byte was written to the pipe, \<open>i_launched\<close> whether standard error
  was turned away from it.
\<close>

record instance_st =
  i_par :: caller
  i_child :: child
  i_grand :: grandchild
  i_file :: "nat option"
  i_failed :: bool
  i_launched :: bool

record daemon_opts =
  o_pidfile :: bool
  o_wait :: bool

record daemon_sys =
  d_fs :: pidfs
  d_inst :: "nat \<Rightarrow> instance_st"

definition ppid :: "nat \<Rightarrow> pid" where "ppid i = 3 * i + 1"
definition cpid :: "nat \<Rightarrow> pid" where "cpid i = 3 * i + 2"
definition gpid :: "nat \<Rightarrow> pid" where "gpid i = 3 * i + 3"

definition upd :: "nat \<Rightarrow> (instance_st \<Rightarrow> instance_st) \<Rightarrow> daemon_sys \<Rightarrow> daemon_sys" where
  "upd i f s = s\<lparr>d_inst := (d_inst s)(i := f (d_inst s i))\<rparr>"

text \<open>\<open>fclose\<close> of the pidfile, when there is one.\<close>

definition close_file :: "pid \<Rightarrow> nat \<Rightarrow> daemon_sys \<Rightarrow> daemon_sys" where
  "close_file me i s = (case i_file (d_inst s i) of None \<Rightarrow> s | Some n \<Rightarrow> s\<lparr>d_fs := fs_unlock me n (d_fs s)\<rparr>)"

text \<open>The lock is granted to \<open>me\<close>; it has to be free.\<close>

definition lock_free :: "nat \<Rightarrow> daemon_sys \<Rightarrow> bool" where
  "lock_free i s = (case i_file (d_inst s i) of None \<Rightarrow> True | Some n \<Rightarrow> fs_lock (d_fs s) n = None)"

definition take_lock :: "pid \<Rightarrow> nat \<Rightarrow> daemon_sys \<Rightarrow> daemon_sys" where
  "take_lock me i s = (case i_file (d_inst s i) of None \<Rightarrow> s
     | Some n \<Rightarrow> s\<lparr>d_fs := (d_fs s)\<lparr>fs_lock := (fs_lock (d_fs s))(n := Some me)\<rparr>\<rparr>)"

definition write_file :: "nat \<Rightarrow> daemon_sys \<Rightarrow> daemon_sys" where
  "write_file i s = (case i_file (d_inst s i) of None \<Rightarrow> s
     | Some n \<Rightarrow> s\<lparr>d_fs := (d_fs s)\<lparr>fs_content := (fs_content (d_fs s))(n := Some (gpid i))\<rparr>\<rparr>)"

text \<open>No process has the writing end of the pipe any more.\<close>

definition pipe_closed :: "instance_st \<Rightarrow> bool" where
  "pipe_closed I \<longleftrightarrow> (\<exists>rc. i_child I = CExit rc) \<and> (i_grand I = GNone \<or> i_launched I \<or> (\<exists>rc. i_grand I = GExit rc))"

text \<open>The program says that the daemon is up: standard error leaves the pipe, once.\<close>

definition daemon_launched :: "instance_st \<Rightarrow> instance_st" where
  "daemon_launched I = (if i_launched I then I else I\<lparr>i_launched := True\<rparr>)"

lemma daemon_launched [simp]: "daemon_launched I = I\<lparr>i_launched := True\<rparr>"
  by (cases I) (simp add: daemon_launched_def)

text \<open>
  One step of one process of instance \<open>i\<close>: a call that other processes can see, with what
  follows it until the next one. The error exits close the pidfile. Taking the pidfile is one
  step.
\<close>

inductive daemon_step :: "(nat \<Rightarrow> daemon_opts) \<Rightarrow> daemon_sys \<Rightarrow> daemon_sys \<Rightarrow> bool" for opts where
  NoPidfile: "\<not> o_pidfile (opts i) \<Longrightarrow> i_par (d_inst s i) = PStart \<Longrightarrow>
    daemon_step opts s (upd i (i_par_update (\<lambda>_. PFork)) s)"
| Taken: "o_pidfile (opts i) \<Longrightarrow> i_par (d_inst s i) = PStart \<Longrightarrow> fs_open (ppid i) (d_fs s) = ((True, ks), fs) \<Longrightarrow>
    daemon_step opts s (upd i (\<lambda>I. I\<lparr>i_par := PFork, i_file := fs_path fs\<rparr>) (s\<lparr>d_fs := fs\<rparr>))"
| Refused: "o_pidfile (opts i) \<Longrightarrow> i_par (d_inst s i) = PStart \<Longrightarrow> fs_open (ppid i) (d_fs s) = ((False, ks), fs) \<Longrightarrow>
    daemon_step opts s (upd i (i_par_update (\<lambda>_. PExit 1)) (s\<lparr>d_fs := fs\<rparr>))"
| ForkFails: "i_par (d_inst s i) = PFork \<Longrightarrow>
    daemon_step opts s (upd i (i_par_update (\<lambda>_. PExit 1)) (close_file (ppid i) i s))"
| Fork: "i_par (d_inst s i) = PFork \<Longrightarrow>
    daemon_step opts s (upd i (\<lambda>I. I\<lparr>i_par := PClose, i_child := CWait\<rparr>) s)"
| CallerCloses: "i_par (d_inst s i) = PClose \<Longrightarrow>
    daemon_step opts s (upd i (i_par_update (\<lambda>_. if o_wait (opts i) then PRelay else PExit 0)) (close_file (ppid i) i s))"
| CallerFailure: "i_par (d_inst s i) = PRelay \<Longrightarrow> i_failed (d_inst s i) \<Longrightarrow>
    daemon_step opts s (upd i (i_par_update (\<lambda>_. PExit 1)) s)"
| CallerEnd: "i_par (d_inst s i) = PRelay \<Longrightarrow> \<not> i_failed (d_inst s i) \<Longrightarrow> pipe_closed (d_inst s i) \<Longrightarrow>
    daemon_step opts s (upd i (i_par_update (\<lambda>_. PExit 0)) s)"
| ChildLocks: "i_child (d_inst s i) = CWait \<Longrightarrow> lock_free i s \<Longrightarrow>
    daemon_step opts s (upd i (i_child_update (\<lambda>_. CSetsid)) (take_lock (cpid i) i s))"
| ChildLockFails: "i_child (d_inst s i) = CWait \<Longrightarrow> i_file (d_inst s i) \<noteq> None \<Longrightarrow>
    daemon_step opts s (upd i (i_child_update (\<lambda>_. CExit 1)) (close_file (cpid i) i s))"
| SetsidFails: "i_child (d_inst s i) = CSetsid \<Longrightarrow>
    daemon_step opts s (upd i (i_child_update (\<lambda>_. CExit 1)) (close_file (cpid i) i s))"
| Setsid: "i_child (d_inst s i) = CSetsid \<Longrightarrow> daemon_step opts s (upd i (i_child_update (\<lambda>_. CFork)) s)"
| Fork2Fails: "i_child (d_inst s i) = CFork \<Longrightarrow>
    daemon_step opts s (upd i (i_child_update (\<lambda>_. CExit 1)) (close_file (cpid i) i s))"
| Fork2: "i_child (d_inst s i) = CFork \<Longrightarrow>
    daemon_step opts s (upd i (\<lambda>I. I\<lparr>i_child := CWrite, i_grand := GWait\<rparr>) s)"
| ChildWrites: "i_child (d_inst s i) = CWrite \<Longrightarrow>
    daemon_step opts s (upd i (i_child_update (\<lambda>_. CClose)) (write_file i s))"
| ChildCloses: "i_child (d_inst s i) = CClose \<Longrightarrow>
    daemon_step opts s (upd i (i_child_update (\<lambda>_. CExit 0)) (close_file (cpid i) i s))"
| DaemonLocks: "i_grand (d_inst s i) = GWait \<Longrightarrow> lock_free i s \<Longrightarrow>
    daemon_step opts s (upd i (i_grand_update (\<lambda>_. GChdir)) (take_lock (gpid i) i s))"
| DaemonLockFails: "i_grand (d_inst s i) = GWait \<Longrightarrow> i_file (d_inst s i) \<noteq> None \<Longrightarrow>
    daemon_step opts s (upd i (i_grand_update (\<lambda>_. GExit 1)) (close_file (gpid i) i s))"
| ChdirFails: "i_grand (d_inst s i) = GChdir \<Longrightarrow>
    daemon_step opts s (upd i (i_grand_update (\<lambda>_. GExit 1)) (close_file (gpid i) i s))"
| Chdir: "i_grand (d_inst s i) = GChdir \<Longrightarrow> daemon_step opts s (upd i (i_grand_update (\<lambda>_. GMain)) s)"
| Launched: "i_grand (d_inst s i) = GMain \<Longrightarrow> daemon_step opts s (upd i daemon_launched s)"
| MainReturns: "i_grand (d_inst s i) = GMain \<Longrightarrow>
    daemon_step opts s (upd i (\<lambda>I. I\<lparr>i_grand := GUnlink rc, i_failed := (rc \<noteq> 0 \<and> \<not> i_launched I)\<rparr>) (close_file (gpid i) i s))"
| DaemonUnlinks: "i_grand (d_inst s i) = GUnlink rc \<Longrightarrow>
    daemon_step opts s (upd i (i_grand_update (\<lambda>_. GExit rc))
      (if o_pidfile (opts i) then s\<lparr>d_fs := (d_fs s)\<lparr>fs_path := None\<rparr>\<rparr> else s))"

text \<open>A system in which no instance has started; a pidfile may be left from before.\<close>

definition daemon_init :: "daemon_sys \<Rightarrow> bool" where
  "daemon_init s \<longleftrightarrow> (\<forall>i. d_inst s i = \<lparr>i_par = PStart, i_child = CNone, i_grand = GNone, i_file = None, i_failed = False, i_launched = False\<rparr>)
     \<and> (\<forall>n. fs_lock (d_fs s) n = None) \<and> (\<forall>n. fs_path (d_fs s) = Some n \<longrightarrow> n < fs_next (d_fs s))"

inductive daemon_reach :: "(nat \<Rightarrow> daemon_opts) \<Rightarrow> daemon_sys \<Rightarrow> bool" for opts where
  Init: "daemon_init s \<Longrightarrow> daemon_reach opts s"
| Step: "daemon_reach opts s \<Longrightarrow> daemon_step opts s t \<Longrightarrow> daemon_reach opts t"

inductive_cases daemon_stepE [elim]: "daemon_step opts s t"

section \<open>The invariant\<close>

text \<open>Where a process has the lock.\<close>

fun par_locks :: "caller \<Rightarrow> bool" where
  "par_locks PFork = True" | "par_locks PClose = True" | "par_locks _ = False"

fun child_locks :: "child \<Rightarrow> bool" where
  "child_locks CNone = False" | "child_locks CWait = False" | "child_locks (CExit rc) = False" | "child_locks _ = True"

fun grand_locks :: "grandchild \<Rightarrow> bool" where
  "grand_locks GChdir = True" | "grand_locks GMain = True" | "grand_locks _ = False"

text \<open>Before the child forks, and before it has started.\<close>

fun child_early :: "child \<Rightarrow> bool" where
  "child_early CWrite = False" | "child_early CClose = False" | "child_early (CExit rc) = False" | "child_early _ = True"

fun par_early :: "caller \<Rightarrow> bool" where
  "par_early PStart = True" | "par_early PFork = True" | "par_early _ = False"

definition order_ok :: "instance_st \<Rightarrow> bool" where
  "order_ok I \<longleftrightarrow> (i_par I = PStart \<longrightarrow> i_file I = None) \<and> (par_early (i_par I) \<longrightarrow> i_child I = CNone)
     \<and> (child_early (i_child I) \<longrightarrow> i_grand I = GNone)"

text \<open>Who has the lock, and from when on the daemon's number is in the file.\<close>

definition file_ok :: "nat \<Rightarrow> instance_st \<Rightarrow> nat \<Rightarrow> pidfs \<Rightarrow> bool" where
  "file_ok i I n fs \<longleftrightarrow> n < fs_next fs
     \<and> (par_locks (i_par I) \<longrightarrow> fs_lock fs n = Some (ppid i))
     \<and> (child_locks (i_child I) \<longrightarrow> fs_lock fs n = Some (cpid i))
     \<and> (grand_locks (i_grand I) \<longrightarrow> fs_lock fs n = Some (gpid i))
     \<and> (i_grand I \<noteq> GNone \<and> i_child I \<noteq> CWrite \<longrightarrow> fs_content fs n = Some (gpid i))"

definition daemons_ok :: "(nat \<Rightarrow> daemon_opts) \<Rightarrow> daemon_sys \<Rightarrow> bool" where
  "daemons_ok opts s \<longleftrightarrow> (\<forall>i. order_ok (d_inst s i))
     \<and> (\<forall>i n. i_file (d_inst s i) = Some n \<longrightarrow> file_ok i (d_inst s i) n (d_fs s))
     \<and> (\<forall>i j n. i_file (d_inst s i) = Some n \<longrightarrow> i_file (d_inst s j) = Some n \<longrightarrow> i = j)
     \<and> (\<forall>n. fs_path (d_fs s) = Some n \<longrightarrow> n < fs_next (d_fs s))
     \<and> (\<forall>i. o_pidfile (opts i) \<longrightarrow> i_par (d_inst s i) = PStart \<or> i_child (d_inst s i) = CNone \<or> i_file (d_inst s i) \<noteq> None)
     \<and> (\<forall>i. o_pidfile (opts i) \<longrightarrow> i_par (d_inst s i) = PFork \<longrightarrow> i_file (d_inst s i) \<noteq> None)"

lemma pids_differ [simp]:
  "ppid i \<noteq> cpid j" "cpid i \<noteq> ppid j" "ppid i \<noteq> gpid j" "gpid i \<noteq> ppid j" "cpid i \<noteq> gpid j" "gpid i \<noteq> cpid j"
  "ppid i = ppid j \<longleftrightarrow> i = j" "cpid i = cpid j \<longleftrightarrow> i = j" "gpid i = gpid j \<longleftrightarrow> i = j"
  by (simp_all add: ppid_def cpid_def gpid_def; presburger)+

text \<open>A step that changes one instance, and of the files at most its own.\<close>

lemma own_step:
  assumes ok: "daemons_ok opts s"
    and fs: "fs_next fs = fs_next (d_fs s)" "fs_path fs = fs_path (d_fs s) \<or> fs_path fs = None"
      "\<And>m. i_file (d_inst s i) \<noteq> Some m \<Longrightarrow> fs_lock fs m = fs_lock (d_fs s) m \<and> fs_content fs m = fs_content (d_fs s) m"
    and I: "order_ok I" "i_file I = i_file (d_inst s i)" "\<And>n. i_file I = Some n \<Longrightarrow> file_ok i I n fs"
      "o_pidfile (opts i) \<Longrightarrow> i_child I = CNone \<or> i_file I \<noteq> None" "o_pidfile (opts i) \<Longrightarrow> i_par I = PFork \<Longrightarrow> i_file I \<noteq> None"
  shows "daemons_ok opts (s\<lparr>d_fs := fs, d_inst := (d_inst s)(i := I)\<rparr>)"
proof -
  have other: "file_ok j (d_inst s j) n fs" if "j \<noteq> i" "i_file (d_inst s j) = Some n" for j n
  proof -
    have "i_file (d_inst s i) \<noteq> Some n" using ok that by (auto simp: daemons_ok_def)
    then show ?thesis using ok that(2) fs(1) fs(3) [of n] by (simp add: daemons_ok_def file_ok_def)
  qed
  have path: "fs_path fs = Some n \<Longrightarrow> n < fs_next fs" for n using ok fs(1,2) by (auto simp: daemons_ok_def)
  show ?thesis
    unfolding daemons_ok_def using ok I other path by (auto simp: daemons_ok_def)
qed

lemma own_stepI:
  assumes "daemons_ok opts s" "d_inst s' = d_inst s" "fs_next (d_fs s') = fs_next (d_fs s)"
    "fs_path (d_fs s') = fs_path (d_fs s) \<or> fs_path (d_fs s') = None"
    "\<And>m. i_file (d_inst s i) \<noteq> Some m \<Longrightarrow> fs_lock (d_fs s') m = fs_lock (d_fs s) m \<and> fs_content (d_fs s') m = fs_content (d_fs s) m"
    "order_ok (d_inst s i) \<Longrightarrow> order_ok (f (d_inst s i))" "i_file (f (d_inst s i)) = i_file (d_inst s i)"
    "\<And>n. i_file (d_inst s i) = Some n \<Longrightarrow> order_ok (d_inst s i) \<Longrightarrow> file_ok i (d_inst s i) n (d_fs s) \<Longrightarrow>
       file_ok i (f (d_inst s i)) n (d_fs s')"
    "o_pidfile (opts i) \<Longrightarrow> order_ok (d_inst s i) \<Longrightarrow> i_file (d_inst s i) = None \<Longrightarrow> i_child (d_inst s i) = CNone \<Longrightarrow>
       i_par (d_inst s i) \<noteq> PFork \<Longrightarrow> i_child (f (d_inst s i)) = CNone \<and> i_par (f (d_inst s i)) \<noteq> PFork"
  shows "daemons_ok opts (upd i f s')"
proof -
  have "upd i f s' = s\<lparr>d_fs := d_fs s', d_inst := (d_inst s)(i := f (d_inst s i))\<rparr>"
    using assms(2) by (cases s'; cases s) (simp add: upd_def)
  moreover have o: "order_ok (d_inst s i)" using assms(1) by (simp add: daemons_ok_def)
  moreover have "file_ok i (d_inst s i) n (d_fs s)" if "i_file (d_inst s i) = Some n" for n
    using assms(1) that by (simp add: daemons_ok_def)
  moreover have "i_file (d_inst s i) \<noteq> None \<or> i_child (d_inst s i) = CNone \<and> i_par (d_inst s i) \<noteq> PFork" if "o_pidfile (opts i)"
    using assms(1) o that by (auto simp: daemons_ok_def order_ok_def)
  moreover have "daemons_ok opts (s\<lparr>d_fs := d_fs s', d_inst := (d_inst s)(i := f (d_inst s i))\<rparr>)"
  proof (rule own_step [OF assms(1,3,4)])
    show "order_ok (f (d_inst s i))" using o assms(6) by blast
    show "file_ok i (f (d_inst s i)) n (d_fs s')" if "i_file (f (d_inst s i)) = Some n" for n
      using that calculation(3) [of n] o assms(7,8) by simp
  qed (use assms(5,7,9) o calculation(4) in auto)
  ultimately show ?thesis by simp
qed

lemma files_simps [simp]:
  "d_inst (close_file me i s) = d_inst s" "fs_next (d_fs (close_file me i s)) = fs_next (d_fs s)"
  "fs_path (d_fs (close_file me i s)) = fs_path (d_fs s)" "fs_content (d_fs (close_file me i s)) = fs_content (d_fs s)"
  "fs_lock (d_fs (close_file me i s)) m =
     (if i_file (d_inst s i) = Some m \<and> fs_lock (d_fs s) m = Some me then None else fs_lock (d_fs s) m)"
  "d_inst (take_lock me i s) = d_inst s" "fs_next (d_fs (take_lock me i s)) = fs_next (d_fs s)"
  "fs_path (d_fs (take_lock me i s)) = fs_path (d_fs s)" "fs_content (d_fs (take_lock me i s)) = fs_content (d_fs s)"
  "fs_lock (d_fs (take_lock me i s)) m = (if i_file (d_inst s i) = Some m then Some me else fs_lock (d_fs s) m)"
  "d_inst (write_file i s) = d_inst s" "fs_next (d_fs (write_file i s)) = fs_next (d_fs s)"
  "fs_path (d_fs (write_file i s)) = fs_path (d_fs s)" "fs_lock (d_fs (write_file i s)) = fs_lock (d_fs s)"
  "fs_content (d_fs (write_file i s)) m = (if i_file (d_inst s i) = Some m then Some (gpid i) else fs_content (d_fs s) m)"
  by (simp_all add: close_file_def take_lock_def write_file_def fs_unlock_def split: option.split)

text \<open>A pidfile that is taken is new.\<close>

lemma fs_open_taken:
  assumes "fs_open me fs = ((True, ks), fs')" "\<And>n. fs_path fs = Some n \<Longrightarrow> n < fs_next fs"
  shows "fs_path fs' = Some (fs_next fs)" "fs_next fs' = fs_next fs + 1"
    "fs_lock fs' = (fs_lock fs)(fs_next fs := Some me)" "fs_content fs' = (fs_content fs)(fs_next fs := None)"
proof -
  have "fs_path fs' = Some (fs_next fs) \<and> fs_next fs' = fs_next fs + 1 \<and>
    fs_lock fs' = (fs_lock fs)(fs_next fs := Some me) \<and> fs_content fs' = (fs_content fs)(fs_next fs := None)"
    using assms(1) by (auto simp: fs_open_def Let_def openpidfile_def fs_answers_def pf_create_def split: option.splits if_splits)
  then show "fs_path fs' = Some (fs_next fs)" "fs_next fs' = fs_next fs + 1"
    "fs_lock fs' = (fs_lock fs)(fs_next fs := Some me)" "fs_content fs' = (fs_content fs)(fs_next fs := None)" by blast+
qed

lemma fs_open_refused: "fs_open me fs = ((False, ks), fs') \<Longrightarrow> fs' = fs"
  by (auto simp: fs_open_def Let_def openpidfile_def fs_answers_def pf_create_def pf_locked_def split: option.splits if_splits)

lemma daemon_init_ok: "daemon_init s \<Longrightarrow> daemons_ok opts s"
  by (simp add: daemon_init_def daemons_ok_def order_ok_def)

lemma taken_ok:
  assumes ok: "daemons_ok opts s" and i: "i_par (d_inst s i) = PStart" "fs_open (ppid i) (d_fs s) = ((True, ks), fs)"
  shows "daemons_ok opts (upd i (\<lambda>I. I\<lparr>i_par := PFork, i_file := fs_path fs\<rparr>) (s\<lparr>d_fs := fs\<rparr>))"
proof -
  have fs: "fs_path fs = Some (fs_next (d_fs s))" "fs_next fs = fs_next (d_fs s) + 1"
    "fs_lock fs = (fs_lock (d_fs s))(fs_next (d_fs s) := Some (ppid i))"
    "fs_content fs = (fs_content (d_fs s))(fs_next (d_fs s) := None)"
    using fs_open_taken [OF i(2)] ok by (auto simp: daemons_ok_def)
  have less: "n < fs_next (d_fs s)" if "i_file (d_inst s j) = Some n" for j n
    using ok that by (auto simp: daemons_ok_def file_ok_def)
  have "file_ok j (d_inst s j) n fs" if "i_file (d_inst s j) = Some n" for j n
  proof -
    have "file_ok j (d_inst s j) n (d_fs s)" using ok that by (simp add: daemons_ok_def)
    with less [OF that] fs show ?thesis by (simp add: file_ok_def)
  qed
  then have others: "i_file (d_inst s j) = Some n \<Longrightarrow> file_ok j (d_inst s j) n fs" for j n .
  let ?I = "(d_inst s i)\<lparr>i_par := PFork, i_file := fs_path fs\<rparr>" and ?t = "upd i (\<lambda>I. I\<lparr>i_par := PFork, i_file := fs_path fs\<rparr>) (s\<lparr>d_fs := fs\<rparr>)"
  have t: "d_inst ?t j = (if j = i then ?I else d_inst s j)" "d_fs ?t = fs" for j by (simp_all add: upd_def)
  have o: "order_ok (d_inst s j)" for j using ok by (simp add: daemons_ok_def)
  show ?thesis
    unfolding daemons_ok_def
  proof (intro conjI allI impI)
    show "order_ok (d_inst ?t j)" for j using o [of j] o [of i] i(1) fs(1) unfolding t by (auto simp: order_ok_def)
    show "file_ok j (d_inst ?t j) n (d_fs ?t)" if "i_file (d_inst ?t j) = Some n" for j n
      using that others [of j n] o [of i] i(1) fs unfolding t by (auto simp: file_ok_def order_ok_def split: if_splits)
    show "j = k" if "i_file (d_inst ?t j) = Some n" "i_file (d_inst ?t k) = Some n" for j k n
      using that less [of j n] less [of k n] fs(1) ok unfolding t by (auto simp: daemons_ok_def split: if_splits)
  qed (use ok fs t in \<open>auto simp: daemons_ok_def\<close>)
qed

lemma refused_ok:
  assumes "daemons_ok opts s" "i_par (d_inst s i) = PStart" "fs_open (ppid i) (d_fs s) = ((False, ks), fs)"
  shows "daemons_ok opts (upd i (i_par_update (\<lambda>_. PExit 1)) (s\<lparr>d_fs := fs\<rparr>))"
proof -
  have "fs = d_fs s" using fs_open_refused [OF assms(3)] .
  with assms(1,2) show ?thesis
    by (intro own_stepI [OF assms(1)]) (auto simp: order_ok_def file_ok_def)
qed

lemma daemon_step_ok:
  assumes "daemon_step opts s t" "daemons_ok opts s"
  shows "daemons_ok opts t"
  using assms(1)
proof cases
  case (Taken i ks fs)
  with assms(2) taken_ok show ?thesis by simp
next
  case (Refused i ks fs)
  with assms(2) refused_ok show ?thesis by simp
next
  case (NoPidfile i)
  then show ?thesis by (simp only:) (rule own_stepI [OF assms(2)], auto simp: order_ok_def file_ok_def lock_free_def)
next
  case (ForkFails i)
  then show ?thesis by (simp only:) (rule own_stepI [OF assms(2)], auto simp: order_ok_def file_ok_def lock_free_def)
next
  case (Fork i)
  then show ?thesis by (simp only:) (rule own_stepI [OF assms(2)], auto simp: order_ok_def file_ok_def lock_free_def)
next
  case (CallerCloses i)
  then show ?thesis by (simp only:) (rule own_stepI [OF assms(2)], auto simp: order_ok_def file_ok_def lock_free_def)
next
  case (CallerFailure i)
  then show ?thesis by (simp only:) (rule own_stepI [OF assms(2)], auto simp: order_ok_def file_ok_def lock_free_def)
next
  case (CallerEnd i)
  then show ?thesis by (simp only:) (rule own_stepI [OF assms(2)], auto simp: order_ok_def file_ok_def lock_free_def)
next
  case (ChildLocks i)
  then show ?thesis by (simp only:) (rule own_stepI [OF assms(2)], auto simp: order_ok_def file_ok_def lock_free_def)
next
  case (ChildLockFails i)
  then show ?thesis by (simp only:) (rule own_stepI [OF assms(2)], auto simp: order_ok_def file_ok_def lock_free_def)
next
  case (SetsidFails i)
  then show ?thesis by (simp only:) (rule own_stepI [OF assms(2)], auto simp: order_ok_def file_ok_def lock_free_def)
next
  case (Setsid i)
  then show ?thesis by (simp only:) (rule own_stepI [OF assms(2)], auto simp: order_ok_def file_ok_def lock_free_def)
next
  case (Fork2Fails i)
  then show ?thesis by (simp only:) (rule own_stepI [OF assms(2)], auto simp: order_ok_def file_ok_def lock_free_def)
next
  case (Fork2 i)
  then show ?thesis by (simp only:) (rule own_stepI [OF assms(2)], auto simp: order_ok_def file_ok_def lock_free_def)
next
  case (ChildWrites i)
  then show ?thesis by (simp only:) (rule own_stepI [OF assms(2)], auto simp: order_ok_def file_ok_def lock_free_def)
next
  case (ChildCloses i)
  then show ?thesis by (simp only:) (rule own_stepI [OF assms(2)], auto simp: order_ok_def file_ok_def lock_free_def)
next
  case (DaemonLocks i)
  then show ?thesis by (simp only:) (rule own_stepI [OF assms(2)], auto simp: order_ok_def file_ok_def lock_free_def)
next
  case (DaemonLockFails i)
  then show ?thesis by (simp only:) (rule own_stepI [OF assms(2)], auto simp: order_ok_def file_ok_def lock_free_def)
next
  case (ChdirFails i)
  then show ?thesis by (simp only:) (rule own_stepI [OF assms(2)], auto simp: order_ok_def file_ok_def lock_free_def)
next
  case (Chdir i)
  then show ?thesis by (simp only:) (rule own_stepI [OF assms(2)], auto simp: order_ok_def file_ok_def lock_free_def)
next
  case (Launched i)
  then show ?thesis by (simp only:) (rule own_stepI [OF assms(2)], auto simp: order_ok_def file_ok_def lock_free_def)
next
  case (MainReturns i rc)
  then show ?thesis by (simp only:) (rule own_stepI [OF assms(2)], auto simp: order_ok_def file_ok_def lock_free_def)
next
  case (DaemonUnlinks i rc)
  then show ?thesis by (simp only:) (rule own_stepI [OF assms(2)], auto simp: order_ok_def file_ok_def lock_free_def)
qed

lemma daemon_reach_ok: "daemon_reach opts s \<Longrightarrow> daemons_ok opts s"
  by (induction rule: daemon_reach.induct) (simp_all add: daemon_init_ok daemon_step_ok)

section \<open>What the pidfile promises\<close>


section \<open>A start that meets no error\<close>

lemma inst_upd [simp]: "d_inst (upd i f s) = (d_inst s)(i := f (d_inst s i))" "d_fs (upd i f s) = d_fs s"
  by (simp_all add: upd_def)

lemma file_helpers [simp]:
  "i_file (d_inst s i) = Some n \<Longrightarrow> take_lock me i s = s\<lparr>d_fs := (d_fs s)\<lparr>fs_lock := (fs_lock (d_fs s))(n := Some me)\<rparr>\<rparr>"
  "i_file (d_inst s i) = Some n \<Longrightarrow> lock_free i s \<longleftrightarrow> fs_lock (d_fs s) n = None"
  "i_file (d_inst s i) = Some n \<Longrightarrow> write_file i s = s\<lparr>d_fs := (d_fs s)\<lparr>fs_content := (fs_content (d_fs s))(n := Some (gpid i))\<rparr>\<rparr>"
  by (simp_all add: take_lock_def lock_free_def write_file_def)

lemma child_succeeds:
  assumes "daemon_reach opts s" "i_child (d_inst s i) = CWait" "i_file (d_inst s i) = Some n" "fs_lock (d_fs s) n = None"
  shows "\<exists>t. daemon_reach opts t \<and> i_grand (d_inst t i) = GMain \<and> (\<forall>j. j \<noteq> i \<longrightarrow> d_inst t j = d_inst s j)
    \<and> fs_path (d_fs t) = fs_path (d_fs s) \<and> (\<forall>m. m \<noteq> n \<longrightarrow> fs_lock (d_fs t) m = fs_lock (d_fs s) m)
    \<and> i_par (d_inst t i) = i_par (d_inst s i) \<and> i_file (d_inst t i) = Some n"
proof -
  define s1 where "s1 = upd i (i_child_update (\<lambda>_. CSetsid)) (take_lock (cpid i) i s)"
  define s2 where "s2 = upd i (i_child_update (\<lambda>_. CFork)) s1"
  define s3 where "s3 = upd i (\<lambda>I. I\<lparr>i_child := CWrite, i_grand := GWait\<rparr>) s2"
  define s4 where "s4 = upd i (i_child_update (\<lambda>_. CClose)) (write_file i s3)"
  define s5 where "s5 = upd i (i_child_update (\<lambda>_. CExit 0)) (close_file (cpid i) i s4)"
  define s6 where "s6 = upd i (i_grand_update (\<lambda>_. GChdir)) (take_lock (gpid i) i s5)"
  define s7 where "s7 = upd i (i_grand_update (\<lambda>_. GMain)) s6"
  have "daemon_reach opts s1" unfolding s1_def using assms by (intro Step [OF assms(1)] ChildLocks) simp_all
  then have "daemon_reach opts s2" unfolding s2_def by (rule Step) (rule Setsid, simp add: s1_def)
  then have "daemon_reach opts s3" unfolding s3_def by (rule Step) (rule Fork2, simp add: s2_def)
  then have "daemon_reach opts s4" unfolding s4_def by (rule Step) (rule ChildWrites, simp add: s3_def)
  then have r5: "daemon_reach opts s5" unfolding s5_def by (rule Step) (rule ChildCloses, simp add: s4_def)
  have f: "i_file (d_inst s4 i) = Some n" "fs_lock (d_fs s4) n = Some (cpid i)"
    using assms(3) by (simp_all add: s4_def s3_def s2_def s1_def)
  have "i_grand (d_inst s5 i) = GWait" using assms(3) by (simp add: s5_def s4_def s3_def)
  moreover have "lock_free i s5" using f by (simp add: s5_def)
  ultimately have "daemon_reach opts s6" unfolding s6_def using r5 by (intro Step [OF r5] DaemonLocks)
  then have "daemon_reach opts s7" unfolding s7_def by (rule Step) (rule Chdir, simp add: s6_def)
  moreover have "i_grand (d_inst s7 i) = GMain \<and> (\<forall>j. j \<noteq> i \<longrightarrow> d_inst s7 j = d_inst s j)
    \<and> fs_path (d_fs s7) = fs_path (d_fs s) \<and> (\<forall>m. m \<noteq> n \<longrightarrow> fs_lock (d_fs s7) m = fs_lock (d_fs s) m)
    \<and> i_par (d_inst s7 i) = i_par (d_inst s i) \<and> i_file (d_inst s7 i) = Some n"
    using assms(3) by (simp add: s7_def s6_def s5_def s4_def s3_def s2_def s1_def)
  ultimately show ?thesis by blast
qed

text \<open>A system without a pidfile, on which every instance takes one and waits for its daemon.\<close>

definition fresh_inst :: instance_st where
  "fresh_inst = \<lparr>i_par = PStart, i_child = CNone, i_grand = GNone, i_file = None, i_failed = False, i_launched = False\<rparr>"

definition fresh_sys :: daemon_sys where
  "fresh_sys = \<lparr>d_fs = \<lparr>fs_path = None, fs_next = 0, fs_content = (\<lambda>n. None), fs_lock = (\<lambda>n. None)\<rparr>, d_inst = (\<lambda>i. fresh_inst)\<rparr>"

definition demo_dopts :: "nat \<Rightarrow> daemon_opts" where
  "demo_dopts i = \<lparr>o_pidfile = True, o_wait = True\<rparr>"

lemma demo_dopts_simps [simp]: "o_pidfile (demo_dopts i)" "o_wait (demo_dopts i)"
  by (simp_all add: demo_dopts_def)

lemma fresh_reach: "daemon_reach opts fresh_sys"
  by (rule Init) (simp add: daemon_init_def fresh_sys_def fresh_inst_def)

text \<open>The caller takes the pidfile, forks and closes it: until the child locks it again, it is free.\<close>

lemma start_handover:
  assumes "daemon_reach demo_dopts s" "i_par (d_inst s i) = PStart" "fs_open (ppid i) (d_fs s) = ((True, ks), fs)"
    "\<And>n. fs_path (d_fs s) = Some n \<Longrightarrow> n < fs_next (d_fs s)"
  shows "\<exists>t. daemon_reach demo_dopts t \<and> i_par (d_inst t i) = PRelay \<and> i_child (d_inst t i) = CWait
    \<and> i_file (d_inst t i) = Some (fs_next (d_fs s)) \<and> fs_path (d_fs t) = Some (fs_next (d_fs s))
    \<and> fs_next (d_fs t) = fs_next (d_fs s) + 1 \<and> (\<forall>j. j \<noteq> i \<longrightarrow> d_inst t j = d_inst s j)
    \<and> fs_lock (d_fs t) = (fs_lock (d_fs s))(fs_next (d_fs s) := None)
    \<and> i_grand (d_inst t i) = i_grand (d_inst s i) \<and> i_failed (d_inst t i) = i_failed (d_inst s i)
    \<and> i_launched (d_inst t i) = i_launched (d_inst s i)"
proof -
  note o = fs_open_taken [OF assms(3,4)]
  define s1 where "s1 = upd i (\<lambda>I. I\<lparr>i_par := PFork, i_file := fs_path fs\<rparr>) (s\<lparr>d_fs := fs\<rparr>)"
  define s2 where "s2 = upd i (\<lambda>I. I\<lparr>i_par := PClose, i_child := CWait\<rparr>) s1"
  define s3 where "s3 = upd i (i_par_update (\<lambda>_. if o_wait (demo_dopts i) then PRelay else PExit 0)) (close_file (ppid i) i s2)"
  have "daemon_reach demo_dopts s1" unfolding s1_def using assms(2,3) by (intro Step [OF assms(1)] Taken) simp_all
  then have "daemon_reach demo_dopts s2" unfolding s2_def by (rule Step) (rule Fork, simp add: s1_def)
  then have "daemon_reach demo_dopts s3" unfolding s3_def by (rule Step) (rule CallerCloses, simp add: s2_def)
  moreover have "fs_lock (d_fs s3) = (fs_lock (d_fs s))(fs_next (d_fs s) := None)"
    by (rule ext) (simp add: s3_def s2_def s1_def o)
  ultimately show ?thesis by (intro exI [of _ s3]) (simp add: s3_def s2_def s1_def o)
qed

lemma fs_open_free:
  "fs_path fs = None \<or> (\<exists>n. fs_path fs = Some n \<and> fs_lock fs n = None) \<Longrightarrow> fst (fst (fs_open me fs))"
  by (auto simp: fs_open_def fs_answers_def openpidfile_def pf_create_def Let_def)

lemma demo_handover:
  "\<exists>s. daemon_reach demo_dopts s \<and> i_par (d_inst s 0) = PRelay \<and> i_child (d_inst s 0) = CWait \<and> i_grand (d_inst s 0) = GNone
     \<and> i_file (d_inst s 0) = Some 0 \<and> fs_path (d_fs s) = Some 0 \<and> fs_next (d_fs s) = 1 \<and> fs_lock (d_fs s) = (\<lambda>n. None)
     \<and> d_inst s 1 = fresh_inst \<and> \<not> i_failed (d_inst s 0) \<and> \<not> i_launched (d_inst s 0)"
proof -
  obtain ks fs where o: "fs_open (ppid 0) (d_fs fresh_sys) = ((True, ks), fs)"
    using fs_open_free [of "d_fs fresh_sys" "ppid 0"] by (cases "fs_open (ppid 0) (d_fs fresh_sys)") (auto simp: fresh_sys_def)
  have p: "i_par (d_inst fresh_sys 0) = PStart" "\<And>n. fs_path (d_fs fresh_sys) = Some n \<Longrightarrow> n < fs_next (d_fs fresh_sys)"
    by (simp_all add: fresh_sys_def fresh_inst_def)
  from start_handover [OF fresh_reach p(1) o p(2)] obtain t where t: "daemon_reach demo_dopts t" "i_par (d_inst t 0) = PRelay"
      "i_child (d_inst t 0) = CWait" "i_grand (d_inst t 0) = GNone" "i_file (d_inst t 0) = Some 0" "fs_path (d_fs t) = Some 0"
      "fs_next (d_fs t) = 1" "fs_lock (d_fs t) = (\<lambda>n. None)" "d_inst t 1 = fresh_inst" "\<not> i_failed (d_inst t 0)" "\<not> i_launched (d_inst t 0)"
    by (auto simp: fresh_sys_def fresh_inst_def)
  then show ?thesis by (intro exI [of _ t]) simp
qed

lemma demo_daemon:
  "\<exists>t. daemon_reach demo_dopts t \<and> i_par (d_inst t 0) = PRelay \<and> i_grand (d_inst t 0) = GMain \<and> i_file (d_inst t 0) = Some 0 \<and> fs_path (d_fs t) = Some 0"
proof -
  obtain s where s: "daemon_reach demo_dopts s" "i_par (d_inst s 0) = PRelay" "i_child (d_inst s 0) = CWait" "i_file (d_inst s 0) = Some 0"
      "fs_path (d_fs s) = Some 0" "fs_lock (d_fs s) = (\<lambda>n. None)"
    using demo_handover by blast
  have "fs_lock (d_fs s) 0 = None" using s(6) by simp
  from child_succeeds [OF s(1,3,4) this] s(2,5) show ?thesis by metis
qed



section \<open>What the caller reports\<close>

definition report_ok :: "(nat \<Rightarrow> daemon_opts) \<Rightarrow> daemon_sys \<Rightarrow> bool" where
  "report_ok opts s \<longleftrightarrow> (\<forall>i. o_wait (opts i) \<longrightarrow> i_par (d_inst s i) = PExit 0 \<longrightarrow> pipe_closed (d_inst s i) \<and> \<not> i_failed (d_inst s i))"

lemma report_step: "daemon_step opts s t \<Longrightarrow> report_ok opts s \<Longrightarrow> report_ok opts t"
  by (erule daemon_step.cases) (auto simp: report_ok_def pipe_closed_def)

lemma report_reach: "daemon_reach opts s \<Longrightarrow> report_ok opts s"
proof (induction rule: daemon_reach.induct)
  case (Init s)
  then show ?case by (simp add: daemon_init_def report_ok_def)
qed (rule report_step)


lemma demo_setsid_fails:
  "\<exists>s. daemon_reach demo_dopts s \<and> i_par (d_inst s 0) = PExit 0 \<and> i_child (d_inst s 0) = CExit 1 \<and> i_grand (d_inst s 0) = GNone"
proof -
  obtain s where s: "daemon_reach demo_dopts s" "i_par (d_inst s 0) = PRelay" "i_child (d_inst s 0) = CWait" "i_grand (d_inst s 0) = GNone"
      "i_file (d_inst s 0) = Some 0" "fs_lock (d_fs s) = (\<lambda>n. None)" "\<not> i_failed (d_inst s 0)"
    using demo_handover by blast
  define s1 where "s1 = upd 0 (i_child_update (\<lambda>_. CSetsid)) (take_lock (cpid 0) 0 s)"
  define s2 where "s2 = upd 0 (i_child_update (\<lambda>_. CExit 1)) (close_file (cpid 0) 0 s1)"
  define s3 where "s3 = upd 0 (i_par_update (\<lambda>_. PExit 0)) s2"
  have "daemon_reach demo_dopts s1" unfolding s1_def using s by (intro Step [OF s(1)] ChildLocks) simp_all
  then have "daemon_reach demo_dopts s2" unfolding s2_def by (rule Step) (rule SetsidFails, simp add: s1_def)
  then have "daemon_reach demo_dopts s3"
    unfolding s3_def by (rule Step) (rule CallerEnd, use s in \<open>simp_all add: s2_def s1_def pipe_closed_def\<close>)
  then show ?thesis using s by (intro exI [of _ s3]) (simp add: s3_def s2_def s1_def)
qed


text \<open>An error of the child (here \<open>setsid\<close>) reaches the caller as success, although it waits for
  the daemon and no daemon runs: only the daemon writes the byte for failure.\<close>

theorem caller_misses_failure:
  "\<exists>s. daemon_reach demo_dopts s \<and> i_par (d_inst s 0) = PExit 0 \<and> i_child (d_inst s 0) = CExit 1 \<and> i_grand (d_inst s 0) = GNone"
  by (rule demo_setsid_fails)

text \<open>The caller copies the daemon's messages, however the pipe cuts them into pieces: all bytes
  before the byte for failure, with the status that says whether it came.\<close>

theorem relay_pieces:
  assumes "\<forall>buf \<in> set bufs. buf \<noteq> []" "NUL \<notin> set out" "concat bufs = out @ (if failed then [NUL] else [])"
  shows "relay bufs = (if failed then 1 else 0, out)"
  using assms
proof (induction bufs arbitrary: out)
  case (Cons buf bufs)
  let ?tail = "if failed then [NUL] else []"
  have split: "buf @ concat bufs = out @ ?tail" using Cons.prems(3) by simp
  then obtain us where us: "buf = out @ us \<and> us @ concat bufs = ?tail \<or> buf @ us = out \<and> concat bufs = us @ ?tail"
    unfolding append_eq_append_conv2 by blast
  have endus: "failed \<and> us = [NUL]" if "us @ concat bufs = ?tail" "us \<noteq> []"
    using that by (cases us) (simp_all split: if_splits)
  consider (more) us where "out = buf @ us" "concat bufs = us @ ?tail" | (whole) "failed" "buf = out @ [NUL]"
  proof (cases "us = []")
    case True
    with us that(1) [of "[]"] show ?thesis by simp
  next
    case False
    with us endus that show ?thesis by blast
  qed
  then show ?case
  proof cases
    case more
    have "last buf \<in> set out" using Cons.prems(1) more(1) by simp
    then have "last buf \<noteq> NUL" using Cons.prems(2) by auto
    moreover have "relay bufs = (if failed then 1 else 0, us)" using Cons.IH [of us] Cons.prems(1,2) more by simp
    ultimately show ?thesis using more(1) by simp
  qed simp
qed (simp split: if_splits)

theorem relay_pieces_witness: "relay [''ab'', ''c'' @ [NUL]] = (1, ''abc'')"
  using relay_pieces [of "[''ab'', ''c'' @ [NUL]]" "''abc''" True] by simp

text \<open>A pidfile is only removed when no process has a lock on it and the own lock was granted; a
  call that succeeds has created the file and locked it, and one that fails has said why. On two
  of the failing paths the file that was read stays open.\<close>

theorem openpidfile_correct:
  assumes "openpidfile a = (ok, ks)"
  shows "(Unlink \<in> set ks \<longrightarrow> pa_getlk a = Some None \<and> pa_rdlock a)
    \<and> (ok \<longrightarrow> drop (length ks - 2) ks = [OpenWrite, WriteLock] \<and> (OpenRead \<in> set ks \<longrightarrow> CloseRead \<in> set ks \<and> Unlink \<in> set ks))
    \<and> (\<not> ok \<longrightarrow> (\<exists>m. last ks = Say m))
    \<and> (OpenRead \<in> set ks \<and> CloseRead \<notin> set ks \<longleftrightarrow>
         pa_open a \<and> (pa_getlk a = None \<or> pa_getlk a = Some None \<and> pa_rdlock a \<and> \<not> pa_unlink a))"
  using assms
  by (auto simp: openpidfile_def pf_create_def pf_locked_def split: if_splits option.splits)

theorem openpidfile_correct_witness:
  "openpidfile (fs_answers 1 (d_fs fresh_sys)) = (True, [OpenWrite, WriteLock]) \<and>
   (let ks = [OpenWrite, WriteLock] in drop (length ks - 2) ks = [OpenWrite, WriteLock])"
proof -
  have r: "openpidfile (fs_answers 1 (d_fs fresh_sys)) = (True, [OpenWrite, WriteLock])"
    by (simp add: openpidfile_def fs_answers_def fresh_sys_def pf_create_def Let_def)
  with openpidfile_correct [OF r] show ?thesis by simp
qed

text \<open>A signal that interrupts the wait for the lock does not end it.\<close>

lemma waitpflock_waits: "waitpflock (replicate n Interrupted @ as) = waitpflock as"
  by (induction n) simp_all

end
