(* ===== verification/Spec2Isabelle.thy ===== *)
theory Spec2Isabelle
  imports HashTable StrBuilder Events MessageTypes Service BotSession ServerFaults BotShutdown PoolTicks PoolSync PoolOpts Panic ChannelSession
    Daemon Logging
begin

text \<open>
  A model of libircbot, a C library for IRC bots, and the theorems that make it correct.

  \<^bold>\<open>The program.\<close> The service (\<open>service.c\<close>) waits with \<open>pselect\<close> for descriptors, signals and
  a timer and raises events (\<open>event.c\<close>); everything else runs in handlers of events. A TCP
  client (\<open>client.c\<close>) opens connections (\<open>connection.c\<close>), which deliver bytes, confirm
  written ones and close. An IRC server object (\<open>ircserver.c\<close>) cuts the received bytes into
  messages (\<open>ircmessage.c\<close>, \<open>irccommand.c\<close>), logs in, answers, sends lines under a flood
  control through a queue (\<open>queue.c\<close>), reconnects, and keeps its channels (\<open>ircchannel.c\<close>) in
  hash tables (\<open>hashtable.c\<close>). The bot (\<open>ircbot.c\<close>) chooses a handler for each event from a list
  (\<open>list.c\<close>), runs it on a thread pool (\<open>threadpool.c\<close>), sends its response and starts and stops
  the whole; it may run as a daemon (\<open>daemon.c\<close>) and logs (\<open>log.c\<close>), synchronously or through
  the pool. Strings are built by \<open>util.c\<close> and \<open>stringbuilder.c\<close>.

  \<^bold>\<open>How it is modelled.\<close> A struct is a record, its functions are functions on the record under
  the C names. The record's extension (\<open>'x\<close>) is the rest of the program, which handlers change
  too: raising an event is a parameter \<open>raise\<close>, or the event is added to a log of calls when
  nothing comes back. A pointer to an object of another component is a number or a value,
  \<open>NULL\<close> is \<open>None\<close>; a deleter is returned with the object it is called on. A fault of C (null
  pointer, access outside an object, uninitialised value, double free) is an \<open>Inl\<close> of the
  result. Sizes and indices are \<open>nat\<close>; the hash is computed on \<open>8 word\<close>, the tick interval
  with C's division. A loop that C bounds by data is recursion over the data; one that might not
  end is \<open>partial_function (option)\<close> or \<open>foreach\<close> (\<open>Cursor\<close>) with \<open>None\<close> for not ending, and
  the theorems show a result. What the kernel, the TLS library, the resolver and the user
  database answer is an argument.

  \<^bold>\<open>Theories and sources.\<close>
  \<^item> \<open>Prelude\<close>: faults, arrays with indeterminate cells, \<open>memmove\<close>, string functions of the C
    library. \<open>Cursor\<close>: the iterator protocol as a locale, and \<open>foreach\<close>.
  \<^item> \<open>Util\<close> (\<open>util.c\<close>, \<open>util.h\<close>), \<open>ObjList\<close> (\<open>list.c\<close>), \<open>HashTable\<close> (\<open>hashtable.c\<close>), \<open>ObjQueue\<close>
    (\<open>queue.c\<close>), \<open>StrBuilder\<close> (\<open>stringbuilder.c\<close>): memory safety, the abstraction to lists, maps
    and queues, loops over iterators; locales \<open>sequence\<close>, \<open>string_map\<close>, \<open>fifo\<close>, \<open>cursor\<close> state the
    contracts and are interpreted on these definitions.
  \<^item> \<open>Events\<close> (\<open>event.c\<close>): the registrations as an ordered list (locale \<open>registry\<close>), what a raise
    calls, and what goes wrong when a handler registers while its event is raised.
  \<^item> \<open>Commands\<close>, \<open>Messages\<close> (\<open>irccommand.c\<close>, \<open>ircmessage.c\<close>): parser safety, round trips;
    \<open>MessageTypes\<close>: what the fields of any parsed message can hold.
  \<^item> \<open>Service\<close> (\<open>service.c\<close>): exactness of the descriptor bound, dispatch, shutdown and panic.
  \<^item> \<open>Channel\<close> (\<open>ircchannel.c\<close>): the set of nicks, joining with retries.
  \<^item> \<open>Client\<close> (\<open>client.c\<close>): the blacklist as a count of refusals, the choice of an address.
  \<^item> \<open>Conn\<close> (\<open>connection.c\<close>); \<open>ConnUser\<close>: the contract of a connection with its user (locale
    \<open>conn_user\<close>), who reacts to the events and has a state of its own; \<open>ConnStream\<close>: for any user, the
    order and completeness of bytes and confirmations, registrations and timers, deletion.
  \<^item> \<open>Server\<close> (\<open>ircserver.c\<close>), \<open>ServerRecv\<close> (receiving; locale \<open>handling\<close>), \<open>ServerSend\<close> (flood
    control: rate, order and progress), \<open>ServerListen\<close> (the contract of the listeners, locale
    \<open>listener\<close>), \<open>ServerFaults\<close> (faults after a lost connection or a part).
  \<^item> \<open>ServerConn\<close>, \<open>Session\<close>, \<open>SessionLogin\<close>: a server over its connection. The server is an
    instance of \<open>conn_user\<close> (locale \<open>server_session\<close>): its handlers are the reactions, the writes it
    logs become records of the connection. Both invariants together give what goes out and comes in
    over a whole session, and that the login gets out.
  \<^item> \<open>SessionInv\<close>: the contract of conditions on the state of those who use the server (locale
    \<open>kept\<close>): what the listeners and actions keep, a whole session keeps. \<open>ChannelSession\<close>: a channel in
    a session; its table of nicks and its events follow the messages of the stream.
  \<^item> \<open>ThreadPool\<close> (\<open>threadpool.c\<close>): the size of the pool and the conservation of jobs;
    \<open>PoolTicks\<close>: timeouts; \<open>PoolSync\<close>: the hand-over of a job between the main thread and a
    worker as interleaved steps over their locks, with a rank that bounds it; \<open>PoolInit\<close>: what
    starting and stopping acquire and release; \<open>PoolOpts\<close>: the options and the pool they give.
  \<^item> \<open>Panic\<close> (\<open>Service_panic\<close>, \<open>panicHandler\<close>, \<open>IB_xmalloc\<close>, \<open>IB_xrealloc\<close>): how a panic in a job ends the
    job and then the service, and how it is logged.
  \<^item> \<open>Bot\<close> (\<open>ircbot.c\<close>): the choice of a handler, responses, startup; \<open>BotShutdown\<close>: how the
    bot's shutdown and the counters of the service work together. \<open>BotJobs\<close>: the bot's jobs on the
    pool, their arguments as memory that is allocated and freed. \<open>BotSession\<close>: the bot as a
    listener in a session of its server: which jobs the stream gives, that each event ends once, and
    that the answers get out.
  \<^item> \<open>Daemon\<close> (\<open>daemon.c\<close>): the pidfile, and the caller, child and daemon process of any number of
    instances as a step relation with an invariant by rule induction.
  \<^item> \<open>Logging\<close> (\<open>log.c\<close>): each message reaches its writer exactly once.

  \<^bold>\<open>Bounds and fuel.\<close> The only function with fuel is the destructor's loop over the write
  records (\<open>destroy_recs\<close>); it runs once per record, and a ring holds at most 16, the fuel used.
  The numbers of the sources (buffer sizes, ticks, tables) are those of the code.

  \<^bold>\<open>Not modelled.\<close> Freeing of memory that nothing reads again; a worker that cannot set up
  its signals (an input of the pool); the data race of a handler that reads the tables of a server on its
  own thread; parting a channel in a session (it destroys the channel twice, \<open>ServerFaults\<close>);
  loading client certificates (only logged); signal dispositions and standard descriptors of a daemon; \<open>chown\<close> of the
  pidfile; setters that store their argument; compiler attributes in \<open>decl.h\<close>.
\<close>

end
